(* ===== verification/Prelude.thy ===== *)
theory Prelude
  imports Main "HOL-Library.Char_ord" "HOL-Library.List_Lexorder"
begin

text \<open>
  The shared layer of the development: the Go strings, integers and errors that every
  component uses, and the generic facts about them.

  A Go string is a sequence of bytes, modelled as \<open>string\<close> (a list of 8-bit characters).
  \<open>TrimSpace\<close> is modelled on the bytes of UTF-8, with all the characters that Unicode calls white
  space.  \<open>ToLower\<close> and \<open>EqualFold\<close> are modelled on ASCII: a byte above 127 has no case, as it has
  for every string the configuration and the wire protocol name (methods, header names, content
  types, verbs).  Go's \<open>int\<close> and
  \<open>int64\<close> are \<open>int\<close> with the wrap-around of 64 bits written out where an operation can
  overflow (\<open>wrap64\<close>).  An \<open>error\<close> that a Go function returns is an \<open>err\<close>, the
  constant text of its message with the place it names; \<open>nil\<close> is \<open>None\<close>.
\<close>

section \<open>Collections of facts\<close>

named_theorems str_simps \<open>definitions of the string functions\<close>
named_theorems cfg_simps \<open>definitions of the configuration constants and small predicates\<close>

section \<open>Errors\<close>

text \<open>\<open>fmt.Errorf(where + ": " + what, ...)\<close>, without the values formatted into it.\<close>

datatype err = Err (err_where: string) (err_what: string)

text \<open>
  A Go loop \<open>for i, x := range xs { if err := f(i, x); err != nil { return err } }\<close>: the
  first error wins and later elements are not looked at.
\<close>

fun first_err :: "(nat \<Rightarrow> 'a \<Rightarrow> err option) \<Rightarrow> nat \<Rightarrow> 'a list \<Rightarrow> err option" where
  "first_err f i [] = None"
| "first_err f i (x # xs) =
     (case f i x of Some e \<Rightarrow> Some e | None \<Rightarrow> first_err f (Suc i) xs)"

lemma first_err_None:
  "first_err f i xs = None \<longleftrightarrow> (\<forall>k < length xs. f (i + k) (xs ! k) = None)"
proof (induction xs arbitrary: i)
  case Nil
  then show ?case by simp
next
  case (Cons x xs)
  have "(\<forall>k < length (x # xs). f (i + k) ((x # xs) ! k) = None) \<longleftrightarrow>
        f i x = None \<and> (\<forall>k < length xs. f (Suc i + k) (xs ! k) = None)"
    by (auto simp: less_Suc_eq_0_disj)
  with Cons.IH [of "Suc i"] show ?case by (auto split: option.splits)
qed

lemma first_err_None_all:
  assumes "first_err f i xs = None" and "x \<in> set xs"
  shows "\<exists>k. f k x = None"
  using assms by (auto simp: first_err_None in_set_conv_nth)

lemma first_err_Some:
  "first_err f i xs = Some e \<Longrightarrow>
   \<exists>k < length xs. f (i + k) (xs ! k) = Some e \<and> (\<forall>j < k. f (i + j) (xs ! j) = None)"
proof (induction xs arbitrary: i)
  case Nil
  then show ?case by simp
next
  case (Cons x xs)
  show ?case
  proof (cases "f i x")
    case (Some e')
    with Cons.prems show ?thesis by (intro exI [of _ 0]) simp
  next
    case None
    with Cons.prems have "first_err f (Suc i) xs = Some e" by simp
    from Cons.IH [OF this] obtain k where k: "k < length xs"
        "f (Suc i + k) (xs ! k) = Some e" "\<forall>j < k. f (Suc i + j) (xs ! j) = None"
      by blast
    have "\<forall>j < Suc k. f (i + j) ((x # xs) ! j) = None"
      using k(3) None by (auto simp: less_Suc_eq_0_disj)
    with k(1,2) show ?thesis by (intro exI [of _ "Suc k"]) simp
  qed
qed

text \<open>Two checks in sequence: the second runs only where the first found nothing.\<close>

definition and_then :: "err option \<Rightarrow> err option \<Rightarrow> err option" where
  "and_then a b = (case a of Some e \<Rightarrow> Some e | None \<Rightarrow> b)"

lemma and_then_None [simp]: "and_then a b = None \<longleftrightarrow> a = None \<and> b = None"
  by (auto simp: and_then_def split: option.splits)

lemma and_then_simps [simp]: "and_then None b = b" "and_then (Some e) b = Some e"
  by (simp_all add: and_then_def)

text \<open>A sequence of guards, each \<open>if cond { return err }\<close>, in the order of the code.\<close>

fun guards :: "(bool \<times> err) list \<Rightarrow> err option" where
  "guards [] = None"
| "guards ((c, e) # gs) = (if c then Some e else guards gs)"

lemma guards_Nil [simp]: "guards [] = None"
  by simp

lemma guards_None [simp]: "guards ((c, e) # gs) = None \<longleftrightarrow> \<not> c \<and> guards gs = None"
  by simp

lemma guards_const [simp]: "guards ((False, e) # gs) = guards gs" "guards ((True, e) # gs) = Some e"
  by simp_all

declare guards.simps(2) [simp del]

section \<open>64-bit integers\<close>

text \<open>The value that a 64-bit two's complement register holds for a mathematical result.\<close>

definition wrap64 :: "int \<Rightarrow> int" where
  "wrap64 x = (x + 2 ^ 63) mod 2 ^ 64 - 2 ^ 63"

definition in64 :: "int \<Rightarrow> bool" where
  "in64 x \<longleftrightarrow> - (2 ^ 63) \<le> x \<and> x < 2 ^ 63"

lemma wrap64_in64 [simp]: "in64 (wrap64 x)"
proof -
  have "0 \<le> (x + 2 ^ 63) mod 2 ^ 64" "(x + 2 ^ 63) mod 2 ^ 64 < (2::int) ^ 64"
    by (rule pos_mod_sign, simp) (rule pos_mod_bound, simp)
  then show ?thesis by (simp add: wrap64_def in64_def)
qed

lemma wrap64_id: "in64 x \<Longrightarrow> wrap64 x = x"
  by (simp add: wrap64_def in64_def)

section \<open>Strings\<close>

definition is_digit :: "char \<Rightarrow> bool" where
  "is_digit c \<longleftrightarrow> CHR ''0'' \<le> c \<and> c \<le> CHR ''9''"

definition is_upper :: "char \<Rightarrow> bool" where
  "is_upper c \<longleftrightarrow> CHR ''A'' \<le> c \<and> c \<le> CHR ''Z''"

definition is_lower :: "char \<Rightarrow> bool" where
  "is_lower c \<longleftrightarrow> CHR ''a'' \<le> c \<and> c \<le> CHR ''z''"

definition lower_char :: "char \<Rightarrow> char" where
  "lower_char c = (if is_upper c then char_of (of_char c + (32::nat)) else c)"

text \<open>\<open>strings.ToLower\<close>, \<open>strings.EqualFold\<close>, \<open>strings.TrimSpace\<close>.\<close>

definition to_lower :: "string \<Rightarrow> string" where
  "to_lower s = map lower_char s"

definition equal_fold :: "string \<Rightarrow> string \<Rightarrow> bool" where
  "equal_fold a b \<longleftrightarrow> to_lower a = to_lower b"

definition trim_right :: "(char \<Rightarrow> bool) \<Rightarrow> string \<Rightarrow> string" where
  "trim_right p s = rev (dropWhile p (rev s))"

definition trim_by :: "(char \<Rightarrow> bool) \<Rightarrow> string \<Rightarrow> string" where
  "trim_by p s = trim_right p (dropWhile p s)"

text \<open>
  The characters of \<open>unicode.IsSpace\<close> in UTF-8: the six of ASCII, U+0085, U+00A0, U+1680, U+2000 to
  U+200A, U+2028, U+2029, U+202F, U+205F and U+3000.
\<close>

definition space_runes :: "string list" where
  "space_runes =
     [[CHR 0x20], [CHR 0x09], [CHR 0x0A], [CHR 0x0B], [CHR 0x0C], [CHR 0x0D], [CHR 0xC2, CHR 0x85], [CHR 0xC2, CHR 0xA0],
      [CHR 0xE1, CHR 0x9A, CHR 0x80], [CHR 0xE2, CHR 0x80, CHR 0x80], [CHR 0xE2, CHR 0x80, CHR 0x81],
      [CHR 0xE2, CHR 0x80, CHR 0x82], [CHR 0xE2, CHR 0x80, CHR 0x83], [CHR 0xE2, CHR 0x80, CHR 0x84],
      [CHR 0xE2, CHR 0x80, CHR 0x85], [CHR 0xE2, CHR 0x80, CHR 0x86], [CHR 0xE2, CHR 0x80, CHR 0x87],
      [CHR 0xE2, CHR 0x80, CHR 0x88], [CHR 0xE2, CHR 0x80, CHR 0x89], [CHR 0xE2, CHR 0x80, CHR 0x8A],
      [CHR 0xE2, CHR 0x80, CHR 0xA8], [CHR 0xE2, CHR 0x80, CHR 0xA9], [CHR 0xE2, CHR 0x80, CHR 0xAF],
      [CHR 0xE2, CHR 0x81, CHR 0x9F], [CHR 0xE3, CHR 0x80, CHR 0x80]]"

text \<open>Removing, from the front, words of a list as long as one of them is there.\<close>

definition word_at :: "string list \<Rightarrow> string \<Rightarrow> string option" where
  "word_at ws s = find (\<lambda>w. w \<noteq> [] \<and> take (length w) s = w) ws"

lemma word_at_Some: "word_at ws s = Some w \<Longrightarrow> w \<in> set ws \<and> w \<noteq> [] \<and> take (length w) s = w"
  unfolding word_at_def by (induction ws) (auto split: if_splits)

lemma word_at_shorter: "word_at ws s = Some w \<Longrightarrow> length (drop (length w) s) < length s"
  using word_at_Some [of ws s w] by (cases s) auto

function strip :: "string list \<Rightarrow> string \<Rightarrow> string" where
  "strip ws s = (case word_at ws s of None \<Rightarrow> s | Some w \<Rightarrow> strip ws (drop (length w) s))"
  by pat_completeness auto

termination
  by (relation "measure (length \<circ> snd)") (use word_at_shorter in auto)

declare strip.simps [simp del]

text \<open>
  A suffix of a string is a UTF-8 character of more than one byte exactly if its bytes are there: the
  first byte of such a character is never a later byte of another.
\<close>

definition trim_space :: "string \<Rightarrow> string" where
  "trim_space s = rev (strip (map rev space_runes) (rev (strip space_runes s)))"

text \<open>\<open>strings.HasPrefix\<close>, \<open>strings.HasSuffix\<close>, \<open>strings.TrimSuffix\<close>.\<close>

definition has_prefix :: "string \<Rightarrow> string \<Rightarrow> bool" where
  "has_prefix s p \<longleftrightarrow> take (length p) s = p"

definition has_suffix :: "string \<Rightarrow> string \<Rightarrow> bool" where
  "has_suffix s p \<longleftrightarrow> length p \<le> length s \<and> drop (length s - length p) s = p"

definition trim_suffix :: "string \<Rightarrow> string \<Rightarrow> string" where
  "trim_suffix s p = (if has_suffix s p then take (length s - length p) s else s)"

text \<open>
  \<open>strings.Cut(s, sep)\<close> for a separator of one byte: the parts around the first
  occurrence and whether there was one.
\<close>

definition cut :: "string \<Rightarrow> char \<Rightarrow> string \<times> string \<times> bool" where
  "cut s c = (let a = takeWhile (\<lambda>x. x \<noteq> c) s
              in if length a < length s then (a, drop (Suc (length a)) s, True) else (s, [], False))"

text \<open>\<open>strings.ContainsAny\<close>.\<close>

definition contains_any :: "string \<Rightarrow> string \<Rightarrow> bool" where
  "contains_any s cs \<longleftrightarrow> list_ex (\<lambda>c. c \<in> set cs) s"

lemmas string_defs [str_simps] =
  is_digit_def is_upper_def is_lower_def lower_char_def to_lower_def equal_fold_def
  trim_right_def trim_by_def has_prefix_def has_suffix_def trim_suffix_def
  contains_any_def

lemma takeWhile_neq [simp]: "c \<notin> set a \<Longrightarrow> takeWhile (\<lambda>x. x \<noteq> c) (a @ c # b) = a"
  by (induction a) auto

lemma takeWhile_neq_all [simp]: "c \<notin> set a \<Longrightarrow> takeWhile (\<lambda>x. x \<noteq> c) a = a"
  by (induction a) auto

lemma cut_found: "c \<notin> set a \<Longrightarrow> cut (a @ c # b) c = (a, b, True)"
  by (simp add: cut_def)

lemma cut_missing: "c \<notin> set s \<Longrightarrow> cut s c = (s, [], False)"
  by (simp add: cut_def)

lemma cut_True_split: "cut s c = (a, b, True) \<Longrightarrow> s = a @ c # b \<and> c \<notin> set a"
proof -
  assume h: "cut s c = (a, b, True)"
  let ?a = "takeWhile (\<lambda>x. x \<noteq> c) s"
  from h have l: "length ?a < length s" and a: "a = ?a" and b: "b = drop (Suc (length ?a)) s"
    by (auto simp: cut_def Let_def split: if_splits)
  have "s ! length ?a = c" using nth_length_takeWhile [OF l] by simp
  with l have "s = take (length ?a) s @ c # drop (Suc (length ?a)) s"
    using id_take_nth_drop by fastforce
  then have "s = ?a @ c # b" by (simp add: b takeWhile_eq_take [symmetric])
  moreover have "c \<notin> set ?a" by (auto dest: set_takeWhileD)
  ultimately show ?thesis by (simp add: a)
qed

lemma equal_fold_refl [simp]: "equal_fold s s"
  by (simp add: equal_fold_def)

lemma equal_fold_sym: "equal_fold a b \<Longrightarrow> equal_fold b a"
  by (simp add: equal_fold_def)

section \<open>\<open>strconv.Atoi\<close>\<close>

definition digit_val :: "char \<Rightarrow> int" where
  "digit_val c = of_char c - 48"

definition digits_val :: "string \<Rightarrow> int" where
  "digits_val s = foldl (\<lambda>a c. 10 * a + digit_val c) 0 s"

text \<open>An optional sign, at least one decimal digit, and a value that fits in 64 bits.\<close>

definition atoi :: "string \<Rightarrow> int option" where
  "atoi s =
     (let neg = (case s of [] \<Rightarrow> False | c # _ \<Rightarrow> c = CHR ''-'');
          body = (case s of [] \<Rightarrow> [] | c # r \<Rightarrow> if c = CHR ''-'' \<or> c = CHR ''+'' then r else s);
          v = (if neg then - digits_val body else digits_val body)
      in if body = [] \<or> \<not> list_all is_digit body \<or> \<not> in64 v then None else Some v)"

lemma atoi_in64: "atoi s = Some v \<Longrightarrow> in64 v"
  by (auto simp: atoi_def Let_def split: if_splits)

end
