(* ===== verification/Float64.thy ===== *)
theory Float64
  imports Complex_Main Prelude
begin

text \<open>
  Go's \<open>float64\<close>, the type of bucket levels, capacities, leaks and thresholds.

  A value is a finite number, an infinity or not-a-number.  A finite number is the rational
  it denotes, so the arithmetic is executable; the two zeros of IEEE 754 are one value here
  (nothing in the program tells them apart: no division by a zero is reached and
  \<open>-0 == 0\<close>).  Every operation computes the exact result and rounds it to the nearest
  binary64 number, ties to even, with gradual underflow and overflow to an infinity, as the
  Go specification requires of \<open>float64\<close> arithmetic on one operation at a time.
  Comparisons with NaN are false, which the code's guards rely on and which its validators
  do not always consider.

  The locale \<open>rounding\<close> holds what the bounds of the program use of rounding
  (monotone, exact on the numbers that are representable), and \<open>rnd64\<close> is its
  interpretation.
\<close>

section \<open>Rounding a rational to binary64\<close>

text \<open>Round half to even, to an integer.\<close>

definition rne :: "rat \<Rightarrow> int" where
  "rne x = (let f = \<lfloor>x\<rfloor>; d = x - of_int f
            in if d < 1/2 then f else if d > 1/2 then f + 1 else if even f then f else f + 1)"

text \<open>The number of binary digits of a positive integer.\<close>

function ibits :: "int \<Rightarrow> int" where
  "ibits n = (if n \<le> 0 then 0 else ibits (n div 2) + 1)"
  by pat_completeness auto
termination
  by (relation "measure nat") auto

declare ibits.simps [simp del]

text \<open>The exponent of the binade of a positive number: \<open>2 powi e \<le> x < 2 powi (e + 1)\<close>.\<close>

definition ilog2 :: "rat \<Rightarrow> int" where
  "ilog2 x = (case quotient_of x of (p, q) \<Rightarrow>
     let e = ibits p - ibits q
     in if 2 powi e \<le> x then e else e - 1)"

text \<open>The distance between neighbours of a number in its binade; subnormals share one.\<close>

definition ulp_exp :: "rat \<Rightarrow> int" where
  "ulp_exp x = max (ilog2 x) (-1022) - 52"

definition rnd_pos :: "rat \<Rightarrow> rat" where
  "rnd_pos x = (let u = 2 powi ulp_exp x in of_int (rne (x / u)) * u)"

definition rnd64 :: "rat \<Rightarrow> rat" where
  "rnd64 x = (if x = 0 then 0 else if x > 0 then rnd_pos x else - rnd_pos (- x))"

lemma rne_cases: "rne x = \<lfloor>x\<rfloor> \<or> rne x = \<lfloor>x\<rfloor> + 1"
  by (auto simp: rne_def Let_def)

lemma rne_of_int [simp]: "rne (of_int n) = n"
  by (simp add: rne_def Let_def)

lemma rne_ge_floor: "\<lfloor>x\<rfloor> \<le> rne x"
  using rne_cases [of x] by auto

lemma rne_mono: "x \<le> y \<Longrightarrow> rne x \<le> rne y"
proof -
  assume xy: "x \<le> y"
  then have f: "\<lfloor>x\<rfloor> \<le> \<lfloor>y\<rfloor>" by (rule floor_mono)
  show ?thesis
  proof (cases "\<lfloor>x\<rfloor> = \<lfloor>y\<rfloor>")
    case True
    with xy show ?thesis by (auto simp: rne_def Let_def)
  next
    case False
    with f have "\<lfloor>x\<rfloor> + 1 \<le> \<lfloor>y\<rfloor>" by simp
    with rne_cases [of x] rne_ge_floor [of y] show ?thesis by auto
  qed
qed

lemma rne_le_int: "x \<le> of_int n \<Longrightarrow> rne x \<le> n"
  using rne_mono [of x "of_int n"] by simp

lemma rne_ge_int: "of_int n \<le> x \<Longrightarrow> n \<le> rne x"
  using rne_mono [of "of_int n" x] by simp

lemma rne_err: "\<bar>of_int (rne x) - x\<bar> \<le> 1/2"
proof -
  let ?d = "x - of_int \<lfloor>x\<rfloor>"
  have d: "0 \<le> ?d" "?d < 1" by linarith+
  consider "?d < 1/2" | "?d > 1/2" | "?d = 1/2" by linarith
  then show ?thesis
  proof cases
    case 1
    then have "rne x = \<lfloor>x\<rfloor>" by (simp add: rne_def)
    with 1 d show ?thesis by (simp only: abs_le_iff) linarith
  next
    case 2
    then have "rne x = \<lfloor>x\<rfloor> + 1" by (simp add: rne_def)
    with 2 d show ?thesis by (simp only: abs_le_iff of_int_add of_int_1) linarith
  next
    case 3
    show ?thesis using rne_cases [of x] 3 by (auto simp: abs_le_iff)
  qed
qed

lemma powi_pos [simp]: "(0::rat) < 2 powi e"
  by simp

lemma powi_not_neg [simp]: "\<not> (2::rat) powi e < 0"
  using powi_pos [of e] by (simp add: not_less)

lemma powi_add_rat: "(2::rat) powi (a + b) = 2 powi a * 2 powi b"
  by (simp add: power_int_add)

lemma powi_mono: "a \<le> b \<Longrightarrow> (2::rat) powi a \<le> 2 powi b"
  by (rule power_int_increasing) auto

lemma powi_strict: "(2::rat) powi a < 2 powi b \<longleftrightarrow> a < b"
  by (meson linorder_not_le one_less_numeral_iff power_int_strict_increasing powi_mono semiring_norm(76))

lemma ibits_nonneg: "0 \<le> ibits n"
  by (induction n rule: ibits.induct) (simp add: ibits.simps)

lemma ibits_bounds:
  assumes "0 < p"
  shows "2 powi (ibits p - 1) \<le> (of_int p :: rat) \<and> (of_int p :: rat) < 2 powi ibits p"
  using assms
proof (induction p rule: ibits.induct)
  case (1 n)
  show ?case
  proof (cases "n = 1")
    case True
    then show ?thesis by (simp add: ibits.simps [of 1] ibits.simps [of 0])
  next
    case False
    let ?k = "n div 2"
    from False "1.prems" have k: "0 < ?k" and b: "ibits n = ibits ?k + 1"
      by (simp_all add: ibits.simps [of n])
    have "2 * ?k \<le> n" "n + 1 \<le> 2 * (?k + 1)" by presburger+
    then have "(of_int (2 * ?k) :: rat) \<le> of_int n" "(of_int (n + 1) :: rat) \<le> of_int (2 * (?k + 1))"
      by (simp_all only: of_int_le_iff)
    then have n: "2 * (of_int ?k :: rat) \<le> of_int n" "(of_int n :: rat) + 1 \<le> 2 * (of_int ?k + 1)"
      by simp_all
    from "1.IH" "1.prems" k have IH: "2 powi (ibits ?k - 1) \<le> (of_int ?k :: rat)"
        "(of_int ?k :: rat) < 2 powi ibits ?k" by auto
    have up: "of_int ?k + 1 \<le> (2::rat) powi ibits ?k"
    proof -
      have e: "(2::rat) powi ibits ?k = of_int (2 ^ nat (ibits ?k))"
        using ibits_nonneg [of ?k] by (simp add: power_int_def)
      with IH(2) have "?k < 2 ^ nat (ibits ?k)" by (simp only: of_int_less_iff)
      then have "(of_int (?k + 1) :: rat) \<le> of_int (2 ^ nat (ibits ?k))"
        by (simp only: of_int_le_iff)
      with e show ?thesis by simp
    qed
    have "2 powi (ibits n - 1) = 2 * (2::rat) powi (ibits ?k - 1)"
      using powi_add_rat [of 1 "ibits ?k - 1"] by (simp add: b)
    moreover have "2 powi ibits n = 2 * (2::rat) powi ibits ?k"
      using powi_add_rat [of 1 "ibits ?k"] by (simp add: b add.commute)
    ultimately show ?thesis using IH up n by linarith
  qed
qed

lemmas ibits_lower = conjunct1 [OF ibits_bounds] and ibits_upper = conjunct2 [OF ibits_bounds]

lemma ilog2_bounds:
  assumes "0 < x"
  shows "2 powi ilog2 x \<le> x" and "x < 2 powi (ilog2 x + 1)"
proof -
  obtain p q where pq: "quotient_of x = (p, q)" by (cases "quotient_of x")
  have q: "0 < q" using quotient_of_denom_pos [OF pq] .
  have x: "x = of_int p / of_int q" using quotient_of_div [OF pq] .
  have p: "0 < p" using assms q unfolding x by (simp add: zero_less_divide_iff)
  let ?a = "ibits p" and ?b = "ibits q"
  have lo: "2 powi (?a - ?b - 1) \<le> x"
  proof -
    have "(2::rat) powi (?a - ?b - 1) * of_int q \<le> 2 powi (?a - ?b - 1) * 2 powi ?b"
      by (rule mult_left_mono) (use ibits_upper [OF q] in auto)
    also have "\<dots> = 2 powi (?a - 1)" by (simp only: powi_add_rat [symmetric]) simp
    also have "\<dots> \<le> of_int p" by (rule ibits_lower [OF p])
    finally show ?thesis using q unfolding x by (simp add: pos_le_divide_eq)
  qed
  have hi: "x < 2 powi (?a - ?b + 1)"
  proof -
    have "of_int p < (2::rat) powi ?a" by (rule ibits_upper [OF p])
    also have "\<dots> = 2 powi (?a - ?b + 1) * 2 powi (?b - 1)" by (simp only: powi_add_rat [symmetric]) simp
    also have "\<dots> \<le> 2 powi (?a - ?b + 1) * of_int q"
      by (rule mult_left_mono) (use ibits_lower [OF q] in auto)
    finally show ?thesis using q unfolding x by (simp add: pos_divide_less_eq)
  qed
  show "2 powi ilog2 x \<le> x" and "x < 2 powi (ilog2 x + 1)"
    using lo hi by (auto simp: ilog2_def pq Let_def)
qed

lemma ilog2_mono: "0 < x \<Longrightarrow> x \<le> y \<Longrightarrow> ilog2 x \<le> ilog2 y"
proof -
  assume "0 < x" "x \<le> y"
  then have "2 powi ilog2 x < (2::rat) powi (ilog2 y + 1)"
    using ilog2_bounds(1) [of x] ilog2_bounds(2) [of y] by linarith
  then show ?thesis by (simp add: powi_strict)
qed

lemma powi_int_exp: "0 \<le> e \<Longrightarrow> (2::rat) powi e = of_int (2 ^ nat e)"
  by (simp add: power_int_def)

lemma rnd_pos_nonneg: "0 \<le> x \<Longrightarrow> 0 \<le> rnd_pos x"
  unfolding rnd_pos_def Let_def
  by (intro mult_nonneg_nonneg) (auto intro: rne_ge_int [of 0, simplified])

text \<open>A number \<open>n * 2 powi e\<close> is kept by rounding whenever \<open>e\<close> reaches its ulp.\<close>

lemma rnd_pos_exact:
  assumes "x = of_int n * 2 powi e" and "ulp_exp x \<le> e"
  shows "rnd_pos x = x"
proof -
  let ?u = "2 powi ulp_exp x :: rat"
  have "x / ?u = of_int n * 2 powi (e - ulp_exp x)"
    by (subst (1) assms(1)) (simp add: power_int_diff)
  also have "\<dots> = of_int (n * 2 ^ nat (e - ulp_exp x))"
    using assms(2) by (simp add: powi_int_exp)
  finally have eq: "x / ?u = of_int (n * 2 ^ nat (e - ulp_exp x))" .
  then have "of_int (rne (x / ?u)) = x / ?u" by (simp only: rne_of_int)
  then show ?thesis by (simp add: rnd_pos_def Let_def)
qed

lemma rnd_pos_mono:
  assumes "0 < x" and "x \<le> y"
  shows "rnd_pos x \<le> rnd_pos y"
proof -
  let ?ux = "2 powi ulp_exp x :: rat" and ?uy = "2 powi ulp_exp y :: rat"
  have le: "ulp_exp x \<le> ulp_exp y"
    using ilog2_mono [OF assms] by (simp add: ulp_exp_def)
  show ?thesis
  proof (cases "ulp_exp x = ulp_exp y")
    case True
    have "rne (x / ?ux) \<le> rne (y / ?ux)"
      by (intro rne_mono divide_right_mono) (use assms in auto)
    with True show ?thesis by (simp add: rnd_pos_def Let_def)
  next
    case False
    let ?e = "ilog2 y"
    from False le have lt: "ulp_exp x < ulp_exp y" by simp
    then have ey: "ulp_exp y = ?e - 52" and ex: "ilog2 x < ?e" and sub: "ulp_exp x \<le> ?e"
      by (auto simp: ulp_exp_def)
    have "x \<le> 2 powi ?e"
      using ilog2_bounds(2) [OF assms(1)] powi_mono [of "ilog2 x + 1" ?e] ex by linarith
    then have "x / ?ux \<le> 2 powi ?e / ?ux" by (intro divide_right_mono) auto
    also have "\<dots> = of_int (2 ^ nat (?e - ulp_exp x))"
      using sub by (simp add: power_int_diff [symmetric] powi_int_exp)
    finally have "rne (x / ?ux) \<le> 2 ^ nat (?e - ulp_exp x)" by (rule rne_le_int)
    then have "rnd_pos x \<le> of_int (2 ^ nat (?e - ulp_exp x)) * ?ux"
      unfolding rnd_pos_def Let_def by (intro mult_right_mono) (simp_all only: of_int_le_iff, simp)
    also have "\<dots> = 2 powi ?e"
      using sub by (simp only: powi_int_exp [symmetric]) (simp add: power_int_add [symmetric])
    also have "\<dots> \<le> rnd_pos y"
    proof -
      have "(2::rat) powi 52 * ?uy = 2 powi ?e"
        unfolding ey powi_add_rat [symmetric] by simp
      then have "(2::rat) powi 52 \<le> y / ?uy"
        using ilog2_bounds(1) [of y] assms by (simp only: pos_le_divide_eq powi_pos)
      then have "of_int (2 ^ 52) \<le> y / ?uy" by (simp add: powi_int_exp)
      then have "2 ^ 52 \<le> rne (y / ?uy)" by (rule rne_ge_int)
      then have "of_int (2 ^ 52) * ?uy \<le> rnd_pos y"
        unfolding rnd_pos_def Let_def by (intro mult_right_mono) (simp_all only: of_int_le_iff, simp)
      then show ?thesis by (simp add: ey power_int_diff field_simps)
    qed
    finally show ?thesis .
  qed
qed

lemma rnd64_mono: "x \<le> y \<Longrightarrow> rnd64 x \<le> rnd64 y"
proof -
  assume xy: "x \<le> y"
  consider "0 < x" | "x \<le> 0" "0 \<le> y" | "y < 0" by linarith
  then show ?thesis
  proof cases
    case 1
    with xy show ?thesis by (simp add: rnd64_def rnd_pos_mono)
  next
    case 2
    then show ?thesis
      using rnd_pos_nonneg [of "- x"] rnd_pos_nonneg [of y] by (auto simp: rnd64_def)
  next
    case 3
    with xy show ?thesis using rnd_pos_mono [of "- y" "- x"] by (simp add: rnd64_def)
  qed
qed

lemma rnd64_0 [simp]: "rnd64 0 = 0"
  by (simp add: rnd64_def)

lemma rnd64_minus: "rnd64 (- x) = - rnd64 x"
  by (simp add: rnd64_def)

lemma rnd64_exact:
  assumes "\<bar>n\<bar> < 2 ^ 53" and "-1074 \<le> e"
  shows "rnd64 (of_int n * 2 powi e) = of_int n * 2 powi e"
proof -
  have pos: "rnd_pos (of_int m * 2 powi e) = of_int m * 2 powi e" if m: "0 < m" "m < 2 ^ 53" for m
  proof (rule rnd_pos_exact [OF refl])
    let ?x = "of_int m * 2 powi e :: rat"
    have x: "0 < ?x" using m by simp
    have "(of_int m :: rat) < of_int (2 ^ 53)" using m by (simp only: of_int_less_iff)
    then have "?x < 2 powi 53 * 2 powi e" by (simp add: powi_int_exp)
    then have "2 powi ilog2 ?x < (2::rat) powi (53 + e)"
      unfolding powi_add_rat by (rule le_less_trans [OF ilog2_bounds(1) [OF x]])
    then have "ilog2 ?x < 53 + e" by (simp only: powi_strict)
    with assms(2) show "ulp_exp ?x \<le> e" by (simp add: ulp_exp_def)
  qed
  show ?thesis
  proof (cases "n = 0")
    case True
    then show ?thesis by simp
  next
    case False
    then show ?thesis
      using pos [of n] pos [of "- n"] assms(1) by (auto simp: rnd64_def mult_less_0_iff zero_less_mult_iff)
  qed
qed

lemma rnd64_of_int: "\<bar>n\<bar> < 2 ^ 53 \<Longrightarrow> rnd64 (of_int n) = of_int n"
  using rnd64_exact [of n 0] by simp


section \<open>The interface: what the program uses of rounding\<close>

text \<open>
  Monotone, and exact on the integers below \<open>2 ^ 53\<close>.  Every bound of the bucket and score
  arithmetic follows from these two laws.
\<close>

locale rounding =
  fixes rnd :: "rat \<Rightarrow> rat"
  assumes rnd_mono: "x \<le> y \<Longrightarrow> rnd x \<le> rnd y"
    and rnd_int: "\<bar>n\<bar> < 2 ^ 53 \<Longrightarrow> rnd (of_int n) = of_int n"
begin

lemma rnd_zero: "rnd 0 = 0"
  using rnd_int [of 0] by simp

lemma rnd_one: "rnd 1 = 1"
  using rnd_int [of 1] by simp

lemma rnd_le: "x \<le> of_int n \<Longrightarrow> \<bar>n\<bar> < 2 ^ 53 \<Longrightarrow> rnd x \<le> of_int n"
  using rnd_mono [of x "of_int n"] rnd_int by simp

lemma rnd_ge: "of_int n \<le> x \<Longrightarrow> \<bar>n\<bar> < 2 ^ 53 \<Longrightarrow> of_int n \<le> rnd x"
  using rnd_mono [of "of_int n" x] rnd_int by simp

lemma rnd_nonneg: "0 \<le> x \<Longrightarrow> 0 \<le> rnd x"
  using rnd_mono [of 0 x] rnd_zero by simp

lemma rnd_nonpos: "x \<le> 0 \<Longrightarrow> rnd x \<le> 0"
  using rnd_mono [of x 0] rnd_zero by simp

text \<open>A share of a whole, in percent, is between 0 and 100 after both roundings.\<close>

lemma rnd_share:
  assumes "0 \<le> x" "x \<le> m" "0 < m"
  shows "0 \<le> rnd (rnd (x / m) * 100)" and "rnd (rnd (x / m) * 100) \<le> 100"
proof -
  have "0 \<le> rnd (x / m)" "rnd (x / m) \<le> 1"
    using rnd_nonneg [of "x / m"] rnd_le [of "x / m" 1] assms by (simp_all add: field_simps)
  then show "0 \<le> rnd (rnd (x / m) * 100)" "rnd (rnd (x / m) * 100) \<le> 100"
    using rnd_nonneg [of "rnd (x / m) * 100"] rnd_le [of "rnd (x / m) * 100" 100] by simp_all
qed

end

interpretation r64: rounding rnd64
  by unfold_locales (simp_all add: rnd64_mono rnd64_of_int)

section \<open>Values and operations\<close>

datatype f64 = Fin rat | PInf | NInf | NaN

definition f64_of :: "rat \<Rightarrow> f64" where
  "f64_of x = (let r = rnd64 x in
     if 2 ^ 1024 \<le> r then PInf else if r \<le> - (2 ^ 1024) then NInf else Fin r)"

definition f64_of_int :: "int \<Rightarrow> f64" where
  "f64_of_int n = f64_of (of_int n)"

fun fsgn :: "f64 \<Rightarrow> int" where
  "fsgn (Fin a) = (if a = 0 then 0 else if a > 0 then 1 else -1)"
| "fsgn PInf = 1"
| "fsgn NInf = -1"
| "fsgn NaN = 0"

definition finf :: "int \<Rightarrow> f64" where
  "finf s = (if s = 0 then NaN else if s > 0 then PInf else NInf)"

fun fneg :: "f64 \<Rightarrow> f64" where
  "fneg (Fin a) = Fin (- a)"
| "fneg PInf = NInf"
| "fneg NInf = PInf"
| "fneg NaN = NaN"

fun fadd :: "f64 \<Rightarrow> f64 \<Rightarrow> f64" where
  "fadd (Fin a) (Fin b) = f64_of (a + b)"
| "fadd NaN b = NaN"
| "fadd a NaN = NaN"
| "fadd PInf NInf = NaN"
| "fadd NInf PInf = NaN"
| "fadd PInf b = PInf"
| "fadd a PInf = PInf"
| "fadd NInf b = NInf"
| "fadd a NInf = NInf"

definition fsub :: "f64 \<Rightarrow> f64 \<Rightarrow> f64" where
  "fsub a b = fadd a (fneg b)"

fun fmul :: "f64 \<Rightarrow> f64 \<Rightarrow> f64" where
  "fmul (Fin a) (Fin b) = f64_of (a * b)"
| "fmul a b = finf (fsgn a * fsgn b)"

fun fdiv :: "f64 \<Rightarrow> f64 \<Rightarrow> f64" where
  "fdiv (Fin a) (Fin b) = (if b = 0 then finf (fsgn (Fin a)) else f64_of (a / b))"
| "fdiv NaN b = NaN"
| "fdiv a NaN = NaN"
| "fdiv (Fin a) b = Fin 0"
| "fdiv a (Fin b) = finf (fsgn a * (if b < 0 then -1 else 1))"
| "fdiv a b = NaN"

text \<open>The comparisons \<open><\<close>, \<open><=\<close> and \<open>==\<close>; with NaN all three are false.\<close>

fun flt :: "f64 \<Rightarrow> f64 \<Rightarrow> bool" where
  "flt (Fin a) (Fin b) = (a < b)"
| "flt NaN b = False"
| "flt a NaN = False"
| "flt a PInf = (a \<noteq> PInf)"
| "flt NInf b = (b \<noteq> NInf)"
| "flt a b = False"

definition feq :: "f64 \<Rightarrow> f64 \<Rightarrow> bool" where
  "feq a b \<longleftrightarrow> a = b \<and> a \<noteq> NaN"

definition fle :: "f64 \<Rightarrow> f64 \<Rightarrow> bool" where
  "fle a b \<longleftrightarrow> flt a b \<or> feq a b"

text \<open>
  \<open>math.Round\<close>: to the nearest integer, halves away from zero.  \<open>int(x)\<close>: towards zero;
  out of the range of \<open>int64\<close> Go leaves the value to the machine, and this is amd64's.
\<close>

fun fround :: "f64 \<Rightarrow> f64" where
  "fround (Fin x) = Fin (if x < 0 then - of_int \<lfloor>- x + 1/2\<rfloor> else of_int \<lfloor>x + 1/2\<rfloor>)"
| "fround x = x"

fun f64_to_int :: "f64 \<Rightarrow> int" where
  "f64_to_int (Fin x) =
     (let n = (if x < 0 then - \<lfloor>- x\<rfloor> else \<lfloor>x\<rfloor>) in if in64 n then n else - (2 ^ 63))"
| "f64_to_int x = - (2 ^ 63)"

section \<open>Facts about the operations\<close>

text \<open>An equation for evaluation that does not build \<open>2 ^ 1024\<close>.\<close>

lemma ilog2_ge_iff: "0 < x \<Longrightarrow> k \<le> ilog2 x \<longleftrightarrow> 2 powi k \<le> x"
proof
  assume x: "0 < x" and "k \<le> ilog2 x"
  then show "2 powi k \<le> x" using ilog2_bounds(1) [OF x] powi_mono [of k "ilog2 x"] by linarith
next
  assume x: "0 < x" and "2 powi k \<le> x"
  then have "(2::rat) powi k < 2 powi (ilog2 x + 1)" using ilog2_bounds(2) [OF x] by linarith
  then show "k \<le> ilog2 x" by (simp add: powi_strict)
qed

lemma f64_of_code [code]:
  "f64_of x = (let r = rnd64 x in
     if r = 0 then Fin r
     else if r > 0 then (if 1024 \<le> ilog2 r then PInf else Fin r)
     else (if 1024 \<le> ilog2 (- r) then NInf else Fin r))"
proof -
  have p: "r > 0 \<Longrightarrow> 1024 \<le> ilog2 r \<longleftrightarrow> 2 ^ 1024 \<le> r" for r
    using ilog2_ge_iff [of r 1024] powi_int_exp [of 1024] by simp
  have q: "r < 0 \<Longrightarrow> r \<le> - (2 ^ 1024) \<longleftrightarrow> 2 ^ 1024 \<le> - r" for r :: rat
    by linarith
  have n: "r < 0 \<Longrightarrow> \<not> 2 ^ 1024 \<le> r" "r > 0 \<Longrightarrow> \<not> r \<le> - (2 ^ 1024)" for r :: rat
    using zero_le_power [of "2::rat" 1024] by linarith+
  have z: "\<not> (2::rat) ^ 1024 \<le> 0" "\<not> (0::rat) \<le> - (2 ^ 1024)"
    using zero_less_power [of "2::rat" 1024] by linarith+
  consider "rnd64 x = 0" | "rnd64 x > 0" | "rnd64 x < 0" by linarith
  then show ?thesis
    by cases (simp_all only: f64_of_def Let_def p n z if_False if_True q less_irrefl
        order.strict_implies_not_eq neg_0_less_iff_less p [of "- rnd64 x"] less_asym not_less_iff_gr_or_eq
        simp_thms split: if_split, auto)
qed

lemma finf_sgn [simp]: "finf 0 = NaN" "finf 1 = PInf" "finf (-1) = NInf"
  by (simp_all add: finf_def)

lemma fle_Fin [simp]: "fle (Fin a) (Fin b) \<longleftrightarrow> a \<le> b"
  by (auto simp: fle_def feq_def)

lemma fle_refl: "a \<noteq> NaN \<Longrightarrow> fle a a"
  by (simp add: fle_def feq_def)

lemma feq_Fin [simp]: "feq (Fin a) (Fin b) \<longleftrightarrow> a = b"
  by (simp add: feq_def)

lemma flt_NaN [simp]: "\<not> flt a NaN"
  by (cases a) simp_all

lemma f64_of_NaN [simp]: "f64_of x \<noteq> NaN"
  by (simp add: f64_of_def Let_def)

lemma f64_of_in_range:
  assumes "\<bar>rnd64 x\<bar> < 2 ^ 1024"
  shows "f64_of x = Fin (rnd64 x)"
  using assms by (auto simp: f64_of_def Let_def abs_less_iff)

lemma rnd64_pow2: "-1074 \<le> e \<Longrightarrow> rnd64 (2 powi e) = 2 powi e"
  using rnd64_exact [of 1 e] by simp

lemma rnd64_abs_le:
  assumes "\<bar>x\<bar> \<le> 2 ^ k"
  shows "\<bar>rnd64 x\<bar> \<le> 2 ^ k"
proof -
  have e: "rnd64 (2 ^ k) = 2 ^ k" using rnd64_pow2 [of "int k"] by simp
  have "rnd64 x \<le> 2 ^ k" using rnd64_mono [of x "2 ^ k"] assms e by (simp add: abs_le_iff)
  moreover have "rnd64 (- x) \<le> 2 ^ k"
    using rnd64_mono [of "- x" "2 ^ k"] assms e by (simp add: abs_le_iff)
  ultimately show ?thesis by (simp add: rnd64_minus abs_le_iff)
qed

lemma f64_of_bounded:
  assumes "\<bar>x\<bar> \<le> 2 ^ k" and "k < 1024"
  shows "f64_of x = Fin (rnd64 x)"
proof -
  have "(2::rat) ^ k < 2 ^ 1024" using assms(2) by (rule power_strict_increasing) simp
  with rnd64_abs_le [OF assms(1)] show ?thesis by (intro f64_of_in_range) linarith
qed

lemma f64_of_int_small: "\<bar>n\<bar> < 2 ^ 53 \<Longrightarrow> f64_of_int n = Fin (of_int n)"
proof -
  assume n: "\<bar>n\<bar> < 2 ^ 53"
  then have "\<bar>of_int n :: rat\<bar> \<le> of_int (2 ^ 53)" by (simp only: of_int_abs [symmetric] of_int_le_iff)
  then show ?thesis
    using f64_of_bounded [of "of_int n" 53] rnd64_of_int [OF n] by (simp add: f64_of_int_def)
qed

lemma f64_of_mono: "x \<le> y \<Longrightarrow> fle (f64_of x) (f64_of y)"
  using rnd64_mono [of x y] by (auto simp: f64_of_def Let_def fle_def feq_def)

lemma fsub_Fin [simp]: "fsub (Fin a) (Fin b) = f64_of (a - b)"
  by (simp add: fsub_def)

lemma fround_Fin_int: "\<exists>n. fround (Fin x) = Fin (of_int n)"
  by (cases "x < 0") (auto intro: exI [of _ "- \<lfloor>- x + 1/2\<rfloor>"])

lemma f64_to_int_of_int [simp]: "in64 n \<Longrightarrow> f64_to_int (Fin (of_int n)) = n"
  by (auto simp: Let_def floor_minus)

end
