(* ===== verification/Buckets.thy ===== *)
theory Buckets
  imports Float64 "HOL-Library.AList" "HOL-Library.Signed_Division" "HOL-Library.Multiset"
begin

text \<open>
  \<open>internal/buckets/buckets.go\<close>: the leaky buckets (GCRA) that hold what a subject took
  away, with the in-memory ledger of a process that has no Redis.

  A bucket is stored as one number, \<open>effective + rate * epoch(now)\<close>: its level at the time
  of the last charge, shifted by what the leak takes away from the epoch to then.  Reading
  subtracts \<open>rate * epoch(now)\<close> again, so the level sinks without a write.  \<open>Apply\<close> charges
  and reads a set of buckets at one instant and returns their levels in the order of the
  sorted references.  The ledger's map is an association list with distinct keys; the order
  in which Go iterates over it, which only the eviction depends on, is a parameter.
\<close>

section \<open>Tiers, references, charges and levels\<close>

record tier =
  t_max :: f64
  t_loss :: f64

definition Enabled :: "tier \<Rightarrow> bool" where
  "Enabled t \<longleftrightarrow> flt (Fin 0) (t_max t) \<and> flt (Fin 0) (t_loss t)"

definition ratePerSec :: "tier \<Rightarrow> f64" where
  "ratePerSec t = fmul (fdiv (t_loss t) (Fin 100)) (t_max t)"

text \<open>\<open>time.Duration\<close> is a number of nanoseconds.\<close>

definition lifetime :: "tier \<Rightarrow> int" where
  "lifetime t =
     (if \<not> Enabled t then 0
      else f64_to_int (fmul (fdiv (Fin 100) (t_loss t)) (f64_of_int 1000000000)))"

datatype bref = BRef (ref_kind: string) (ref_key: string)

text \<open>The order of \<open>sort.Slice\<close> in \<open>refUnion\<close>: by kind, then by key.\<close>

definition ref_less :: "bref \<Rightarrow> bref \<Rightarrow> bool" where
  "ref_less a b \<longleftrightarrow>
     (if ref_kind a \<noteq> ref_kind b then ref_kind a < ref_kind b else ref_key a < ref_key b)"

instantiation bref :: linorder
begin

definition less_bref :: "bref \<Rightarrow> bref \<Rightarrow> bool" where
  "less_bref = ref_less"

definition less_eq_bref :: "bref \<Rightarrow> bref \<Rightarrow> bool" where
  "less_eq_bref a b \<longleftrightarrow> a = b \<or> ref_less a b"

instance
  by standard
    (auto simp: less_bref_def less_eq_bref_def ref_less_def bref.expand split: if_splits)

end

record charge =
  ch_ref :: bref
  ch_add :: f64

record level =
  lv_ref :: bref
  lv_score :: f64
  lv_percent :: f64

text \<open>A lookup in a Go map that has no such key yields the zero value.\<close>

type_synonym tiers = "string \<rightharpoonup> tier"

definition tier_of :: "tiers \<Rightarrow> string \<Rightarrow> tier" where
  "tier_of ts k = (case ts k of None \<Rightarrow> \<lparr>t_max = Fin 0, t_loss = Fin 0\<rparr> | Some t \<Rightarrow> t)"

definition clamp :: "f64 \<Rightarrow> f64 \<Rightarrow> f64 \<Rightarrow> f64" where
  "clamp v lo hi = (if flt v lo then lo else if flt hi v then hi else v)"

definition level_at :: "bref \<Rightarrow> tier \<Rightarrow> f64 \<Rightarrow> level" where
  "level_at r t effective =
     \<lparr>lv_ref = r, lv_score = effective,
      lv_percent = (if flt (Fin 0) (t_max t) then fmul (fdiv effective (t_max t)) (Fin 100) else Fin 0)\<rparr>"

section \<open>Time\<close>

text \<open>
  \<open>now\<close> is the wall clock in nanoseconds of the Unix epoch.  \<open>Time.Sub\<close> saturates at the
  range of \<open>int64\<close>, and \<open>Duration.Seconds\<close> splits off the whole seconds first.
\<close>

definition epochStart :: int where
  "epochStart = 1704067200 * 1000000000"

definition time_sub :: "int \<Rightarrow> int \<Rightarrow> int" where
  "time_sub a b = max (- (2 ^ 63)) (min (2 ^ 63 - 1) (a - b))"

definition duration_seconds :: "int \<Rightarrow> f64" where
  "duration_seconds d =
     fadd (f64_of_int (d sdiv 1000000000))
          (fdiv (f64_of_int (d smod 1000000000)) (f64_of_int 1000000000))"

definition epoch :: "int \<Rightarrow> f64" where
  "epoch now = duration_seconds (time_sub now epochStart)"

section \<open>The store\<close>

record ledger =
  l_max :: int
  l_m :: "(string \<times> f64) list"

definition defaultLocalMax :: int where
  "defaultLocalMax = 100000"

definition newLedger :: "int \<Rightarrow> ledger" where
  "newLedger n = \<lparr>l_max = n, l_m = []\<rparr>"

definition prefix_key :: string where
  "prefix_key = ''cnt:bkt:''"

definition store_key :: "bref \<Rightarrow> string" where
  "store_key r = prefix_key @ ref_kind r @ '':'' @ ref_key r"

text \<open>\<open>refUnion\<close>: what is charged or read, without duplicates, disabled tiers and empty keys.\<close>

definition ref_add :: "tiers \<Rightarrow> bref list \<Rightarrow> bref \<Rightarrow> bref list" where
  "ref_add ts out r =
     (if \<not> Enabled (tier_of ts (ref_kind r)) \<or> ref_key r = [] then out
      else if r \<in> set out then out else out @ [r])"

definition refUnion :: "charge list \<Rightarrow> bref list \<Rightarrow> tiers \<Rightarrow> bref list" where
  "refUnion charges reads ts =
     sort (foldl (ref_add ts) (foldl (ref_add ts) [] (map ch_ref charges)) reads)"

text \<open>\<open>sums[c.Ref] += c.Add\<close>.\<close>

definition sum_add :: "(bref \<rightharpoonup> f64) \<Rightarrow> charge \<Rightarrow> (bref \<rightharpoonup> f64)" where
  "sum_add m c =
     m(ch_ref c \<mapsto> fadd (case m (ch_ref c) of None \<Rightarrow> Fin 0 | Some v \<Rightarrow> v) (ch_add c))"

definition sums_of :: "charge list \<Rightarrow> (bref \<rightharpoonup> f64)" where
  "sums_of cs = foldl sum_add Map.empty cs"

text \<open>One turn of the loop of \<open>applyLocal\<close>.\<close>

definition drained :: "f64 \<Rightarrow> tier \<Rightarrow> int \<Rightarrow> f64" where
  "drained stored t now = clamp (fsub stored (fmul (ratePerSec t) (epoch now))) (Fin 0) (t_max t)"

definition local_step ::
    "tiers \<Rightarrow> (bref \<rightharpoonup> f64) \<Rightarrow> int \<Rightarrow> (string \<times> f64) list \<Rightarrow> bref \<Rightarrow> (string \<times> f64) list \<times> level" where
  "local_step ts csum now m r =
     (let t = tier_of ts (ref_kind r); key = store_key r; rate = ratePerSec t;
          stored = map_of m key;
          effective = (case stored of None \<Rightarrow> Fin 0 | Some v \<Rightarrow> drained v t now)
      in case csum r of
           Some delta \<Rightarrow>
             (let effective = clamp (fadd effective delta) (Fin 0) (t_max t)
              in (AList.update key (fadd effective (fmul rate (epoch now))) m,
                  level_at r t effective))
         | None \<Rightarrow>
             (if stored \<noteq> None \<and> fle effective (Fin 0) then AList.delete key m else m,
              level_at r t effective))"

fun local_loop ::
    "tiers \<Rightarrow> (bref \<rightharpoonup> f64) \<Rightarrow> int \<Rightarrow> (string \<times> f64) list \<Rightarrow> bref list
     \<Rightarrow> (string \<times> f64) list \<times> level list" where
  "local_loop ts csum now m [] = (m, [])"
| "local_loop ts csum now m (r # rs) =
     (let (m1, l) = local_step ts csum now m r; (m2, ls) = local_loop ts csum now m1 rs
      in (m2, l # ls))"

text \<open>The eviction at the end of \<open>applyLocal\<close>, over the keys in iteration order.\<close>

fun evict_loop :: "int \<Rightarrow> (string \<times> f64) list \<Rightarrow> string list \<Rightarrow> (string \<times> f64) list" where
  "evict_loop cap m [] = m"
| "evict_loop cap m (k # ks) =
     (let m' = AList.delete k m
      in if int (length m') \<le> cap sdiv 2 then m' else evict_loop cap m' ks)"

definition evict :: "(string list \<Rightarrow> string list) \<Rightarrow> ledger \<Rightarrow> ledger" where
  "evict iter l =
     (if int (length (l_m l)) > l_max l
      then l\<lparr>l_m := evict_loop (l_max l) (l_m l) (iter (map fst (l_m l)))\<rparr> else l)"

definition applyLocal ::
    "(string list \<Rightarrow> string list) \<Rightarrow> ledger \<Rightarrow> tiers \<Rightarrow> charge list \<Rightarrow> bref list \<Rightarrow> int
     \<Rightarrow> ledger \<times> level list" where
  "applyLocal iter l ts charges refs now =
     (let (m, ls) = local_loop ts (sums_of charges) now (l_m l) refs
      in (evict iter (l\<lparr>l_m := m\<rparr>), ls))"

definition live_charges :: "tiers \<Rightarrow> charge list \<Rightarrow> charge list" where
  "live_charges ts cs =
     filter (\<lambda>c. Enabled (tier_of ts (ref_kind (ch_ref c))) \<and> \<not> feq (ch_add c) (Fin 0)) cs"

text \<open>\<open>Store.Apply\<close> of a store without a Redis client.\<close>

definition Apply ::
    "(string list \<Rightarrow> string list) \<Rightarrow> ledger \<Rightarrow> tiers \<Rightarrow> charge list \<Rightarrow> bref list \<Rightarrow> int
     \<Rightarrow> ledger \<times> level list" where
  "Apply iter l ts charges reads now =
     (let live = live_charges ts charges; refs = refUnion live reads ts
      in if refs = [] then (l, []) else applyLocal iter l ts live refs now)"

definition IPKey :: "string \<Rightarrow> string" where
  "IPKey addr =
     (if addr = [] then [] else if CHR '':'' \<in> set addr then addr @ ''/128'' else addr @ ''/32'')"


section \<open>The key-value store under the ledger, as an interface\<close>

text \<open>
  What the loop and the eviction of \<open>applyLocal\<close> need of a map from keys to numbers.  The
  client's facts are about a run of writes (\<open>Some v\<close> stores, \<open>None\<close> deletes): keys that the
  run does not name are untouched, and an invariant of the stored values is kept.
\<close>

locale key_store =
  fixes get :: "'m \<Rightarrow> 'k \<Rightarrow> 'v option"
    and put :: "'k \<Rightarrow> 'v \<Rightarrow> 'm \<Rightarrow> 'm"
    and drop :: "'k \<Rightarrow> 'm \<Rightarrow> 'm"
    and inv :: "'m \<Rightarrow> bool"
  assumes get_put: "get (put k v m) k' = (if k' = k then Some v else get m k')"
    and get_drop: "get (drop k m) k' = (if k' = k then None else get m k')"
    and inv_put: "inv m \<Longrightarrow> inv (put k v m)"
    and inv_drop: "inv m \<Longrightarrow> inv (drop k m)"
begin

fun writes :: "'m \<Rightarrow> ('k \<times> 'v option) list \<Rightarrow> 'm" where
  "writes m [] = m"
| "writes m ((k, w) # ws) = writes (case w of Some v \<Rightarrow> put k v m | None \<Rightarrow> drop k m) ws"

lemma writes_append: "writes m (us @ ws) = writes (writes m us) ws"
  by (induction m us rule: writes.induct) auto

lemma writes_other: "k \<notin> fst ` set ws \<Longrightarrow> get (writes m ws) k = get m k"
  by (induction m ws rule: writes.induct) (auto simp: get_put get_drop split: option.splits)

lemma writes_inv: "inv m \<Longrightarrow> inv (writes m ws)"
  by (induction m ws rule: writes.induct) (auto simp: inv_put inv_drop split: option.splits)

lemma writes_values:
  assumes "\<And>k v. get m k = Some v \<Longrightarrow> P v" and "\<And>k v. (k, Some v) \<in> set ws \<Longrightarrow> P v"
    and "get (writes m ws) k = Some v"
  shows "P v"
  using assms
proof (induction m ws rule: writes.induct)
  case (1 m)
  then show ?case by simp
next
  case (2 m k' w ws)
  have keep: "P v'" if "get (case w of Some v \<Rightarrow> put k' v m | None \<Rightarrow> drop k' m) j = Some v'" for j v'
    using that "2.prems"(1,2) by (auto simp: get_put get_drop split: option.splits if_splits)
  show ?case by (rule "2.IH") (use keep "2.prems"(2,3) in auto)
qed

end

interpretation al: key_store map_of "AList.update" "AList.delete" "\<lambda>m. distinct (map fst m)"
  by unfold_locales (simp_all add: AList.update_conv' AList.delete_conv' AList.distinct_update AList.distinct_delete)

lemma length_delete_present:
  "distinct (map fst m) \<Longrightarrow> k \<in> fst ` set m \<Longrightarrow> Suc (length (AList.delete k m)) = length m"
proof (induction m)
  case Nil
  then show ?case by simp
next
  case (Cons x m)
  show ?case
  proof (cases "fst x = k")
    case True
    with Cons.prems(1) have "AList.delete k m = m"
      by (auto simp: AList.delete_eq filter_id_conv rev_image_eqI)
    with True show ?thesis by (cases x) (simp add: AList.delete_eq)
  next
    case False
    with Cons show ?thesis by (cases x) (auto simp: AList.delete_eq)
  qed
qed

section \<open>Time moves forward\<close>

definition whole_seconds :: "int \<Rightarrow> int" where
  "whole_seconds d = d sdiv 1000000000"

definition rest_nanos :: "int \<Rightarrow> int" where
  "rest_nanos d = d smod 1000000000"

definition seconds_val :: "int \<Rightarrow> rat" where
  "seconds_val d = rnd64 (of_int (whole_seconds d) + rnd64 (of_int (rest_nanos d) / 1000000000))"

definition epoch_val :: "int \<Rightarrow> rat" where
  "epoch_val now = seconds_val (time_sub now epochStart)"

lemma split_nonneg:
  "0 \<le> d \<Longrightarrow> whole_seconds d = d div 1000000000 \<and> rest_nanos d = d mod 1000000000"
  by (cases "d = 0") (simp_all add: whole_seconds_def rest_nanos_def signed_divide_int_def
      signed_modulo_int_def minus_div_mult_eq_mod)

lemma split_neg: "whole_seconds (- d) = - whole_seconds d \<and> rest_nanos (- d) = - rest_nanos d"
  by (simp add: whole_seconds_def rest_nanos_def signed_divide_int_def signed_modulo_int_def)

lemma split_cases:
  obtains (pos) "0 \<le> d" "whole_seconds d = d div 1000000000" "rest_nanos d = d mod 1000000000"
  | (neg) "d < 0" "whole_seconds d = - ((- d) div 1000000000)" "rest_nanos d = - ((- d) mod 1000000000)"
proof (cases "0 \<le> d")
  case True
  with split_nonneg [of d] show ?thesis using pos by simp
next
  case False
  with split_nonneg [of "- d"] split_neg [of "- d"] show ?thesis using neg by simp
qed

lemma split_eq: "d = whole_seconds d * 1000000000 + rest_nanos d"
proof (cases d rule: split_cases)
  case pos
  then show ?thesis by (simp add: div_mult_mod_eq)
next
  case neg
  have "- d = (- d) div 1000000000 * 1000000000 + (- d) mod 1000000000"
    by (simp only: div_mult_mod_eq)
  with neg(2,3) show ?thesis by linarith
qed

lemma split_gap:
  fixes d d' :: int
  assumes "d \<le> d'" and "d = w * 1000000000 + r" and "d' = w' * 1000000000 + r'" and "w' + 1 \<le> w"
  shows "1000000000 \<le> r' - r"
  using assms by linarith

lemma split_signs:
  "0 \<le> d \<Longrightarrow> 0 \<le> whole_seconds d \<and> 0 \<le> rest_nanos d"
  "d < 0 \<Longrightarrow> whole_seconds d \<le> 0 \<and> rest_nanos d \<le> 0"
  by (cases d rule: split_cases; simp add: pos_imp_zdiv_nonneg_iff)+

lemma rest_bounds: "\<bar>rest_nanos d\<bar> < 1000000000"
  by (cases d rule: split_cases) (auto simp: abs_if)

lemma whole_bounds: "\<bar>d\<bar> \<le> 2 ^ 63 \<Longrightarrow> \<bar>whole_seconds d\<bar> \<le> 2 ^ 34"
  by (cases d rule: split_cases) auto

lemma frac_bounds: "\<bar>rnd64 (of_int (rest_nanos d) / 1000000000)\<bar> \<le> 1"
proof -
  have "\<bar>of_int (rest_nanos d) :: rat\<bar> \<le> of_int 1000000000"
    using rest_bounds [of d] by (simp only: of_int_abs [symmetric] of_int_le_iff) 
  then have "\<bar>of_int (rest_nanos d) / 1000000000 :: rat\<bar> \<le> 2 ^ 0" by (simp add: abs_divide)
  from rnd64_abs_le [OF this] show ?thesis by simp
qed

lemma seconds_val_bound:
  assumes "\<bar>d\<bar> \<le> 2 ^ 63"
  shows "\<bar>of_int (whole_seconds d) + rnd64 (of_int (rest_nanos d) / 1000000000)\<bar> \<le> 2 ^ 35"
proof -
  have "\<bar>of_int (whole_seconds d) :: rat\<bar> \<le> of_int (2 ^ 34)"
    using whole_bounds [OF assms] by (simp only: of_int_abs [symmetric] of_int_le_iff)
  with frac_bounds [of d] show ?thesis by (simp add: abs_le_iff)
qed

lemma duration_seconds_val: "\<bar>d\<bar> \<le> 2 ^ 63 \<Longrightarrow> duration_seconds d = Fin (seconds_val d)"
proof -
  assume d: "\<bar>d\<bar> \<le> 2 ^ 63"
  have "f64_of_int (d sdiv 1000000000) = Fin (of_int (whole_seconds d))"
    using whole_bounds [OF d] by (simp add: f64_of_int_small whole_seconds_def)
  moreover have "f64_of_int (d smod 1000000000) = Fin (of_int (rest_nanos d))"
    using rest_bounds [of d] by (simp add: f64_of_int_small rest_nanos_def)
  moreover have "f64_of_int 1000000000 = Fin 1000000000"
    using f64_of_int_small [of 1000000000] by simp
  moreover have "f64_of (of_int (rest_nanos d) / 1000000000) =
      Fin (rnd64 (of_int (rest_nanos d) / 1000000000))"
    using frac_bounds [of d] one_less_power [of "2::rat" 1024]
    by (intro f64_of_in_range) linarith
  ultimately show ?thesis
    using f64_of_bounded [OF seconds_val_bound [OF d]]
    by (simp add: duration_seconds_def seconds_val_def)
qed

lemma time_sub_bound: "\<bar>time_sub a b\<bar> \<le> 2 ^ 63"
  by (auto simp: time_sub_def)

lemma epoch_Fin: "epoch now = Fin (epoch_val now)"
  by (simp only: epoch_def epoch_val_def duration_seconds_val [OF time_sub_bound])

lemma epoch_val_bound: "\<bar>epoch_val now\<bar> \<le> 2 ^ 35"
  unfolding epoch_val_def seconds_val_def
  by (rule rnd64_abs_le [OF seconds_val_bound [OF time_sub_bound]])

lemma seconds_val_mono:
  assumes "d \<le> d'"
  shows "seconds_val d \<le> seconds_val d'"
  unfolding seconds_val_def
proof (rule rnd64_mono)
  let ?f = "\<lambda>d. rnd64 (of_int (rest_nanos d) / 1000000000)"
  have sgn: "0 \<le> d \<Longrightarrow> 0 \<le> ?f d" "d < 0 \<Longrightarrow> ?f d \<le> 0" for d
    using split_signs [of d] by (auto intro!: r64.rnd_nonneg r64.rnd_nonpos divide_nonpos_nonneg)
  have mono: "whole_seconds d \<le> whole_seconds d'"
  proof (rule ccontr)
    let ?w = "whole_seconds d" and ?w' = "whole_seconds d'"
    let ?r = "rest_nanos d" and ?r' = "rest_nanos d'"
    assume "\<not> ?w \<le> ?w'"
    then have w: "?w' + 1 \<le> ?w" by simp
    then have r: "1000000000 \<le> ?r' - ?r" by (rule split_gap [OF assms split_eq split_eq])
    have b: "- 1000000000 < ?r" "?r' < 1000000000"
      using rest_bounds [of d] rest_bounds [of d'] by (auto simp: abs_less_iff)
    consider "0 \<le> d" "0 \<le> d'" | "d < 0" "d' < 0" | "d < 0" "0 \<le> d'" using assms by linarith
    then show False
    proof cases
      case 1
      then have "0 \<le> ?r" using split_signs(1) [of d] by simp
      with r b show False by simp
    next
      case 2
      then have "?r' \<le> 0" using split_signs(2) [of d'] by simp
      with r b show False by simp
    next
      case 3
      then have "?w \<le> 0" "0 \<le> ?w'" using split_signs(2) [of d] split_signs(1) [of d'] by simp_all
      with w show False by simp
    qed
  qed
  show "of_int (whole_seconds d) + ?f d \<le> of_int (whole_seconds d') + ?f d'"
  proof (cases "whole_seconds d = whole_seconds d'")
    case True
    have "rest_nanos d \<le> rest_nanos d'"
      using assms True split_eq [of d] split_eq [of d']
      by (metis add_le_cancel_left)
    then have "?f d \<le> ?f d'" by (intro rnd64_mono divide_right_mono) auto
    with True show ?thesis by simp
  next
    case False
    with mono have "whole_seconds d + 1 \<le> whole_seconds d'" by simp
    then have w: "of_int (whole_seconds d) + 1 \<le> (of_int (whole_seconds d') :: rat)"
      by (metis of_int_1 of_int_add of_int_le_iff)
    consider "0 \<le> d" | "d' < 0" | "d < 0" "0 \<le> d'" by linarith
    then show ?thesis
      using w sgn [of d] sgn [of d'] frac_bounds [of d] frac_bounds [of d'] assms
      by cases (auto simp: abs_le_iff)
  qed
qed

lemma epoch_val_mono: "now \<le> now' \<Longrightarrow> epoch_val now \<le> epoch_val now'"
  unfolding epoch_val_def by (rule seconds_val_mono) (auto simp: time_sub_def)

end
