(* ===== verification/Bucket_Laws.thy ===== *)
theory Bucket_Laws
  imports Buckets
begin

text \<open>
  What the buckets promise: the references of a call, the levels it returns, the ledger it
  leaves, and how a level moves in time.  A tier is sane when the configuration validator
  accepted it and its capacity is below \<open>2 ^ 900\<close>, which no counter of objects or kilobytes
  reaches; then no level is an infinity or not-a-number.
\<close>

section \<open>The references of a call\<close>

lemma ref_add_set: "set (ref_add ts out r) =
    set out \<union> {x. x = r \<and> Enabled (tier_of ts (ref_kind x)) \<and> ref_key x \<noteq> []}"
  by (auto simp: ref_add_def)

lemma ref_add_distinct: "distinct out \<Longrightarrow> distinct (ref_add ts out r)"
  by (auto simp: ref_add_def)

lemma foldl_ref_add_set: "set (foldl (ref_add ts) out rs) =
    set out \<union> {x \<in> set rs. Enabled (tier_of ts (ref_kind x)) \<and> ref_key x \<noteq> []}"
  by (induction rs arbitrary: out) (auto simp: ref_add_set)

lemma foldl_ref_add_distinct: "distinct out \<Longrightarrow> distinct (foldl (ref_add ts) out rs)"
  by (induction rs arbitrary: out) (auto simp: ref_add_distinct)

lemma set_refUnion: "set (refUnion cs rs ts) =
    {x \<in> ch_ref ` set cs \<union> set rs. Enabled (tier_of ts (ref_kind x)) \<and> ref_key x \<noteq> []}"
  by (auto simp: refUnion_def foldl_ref_add_set)

lemma sorted_refUnion: "sorted (refUnion cs rs ts)"
  by (simp add: refUnion_def)

lemma distinct_refUnion: "distinct (refUnion cs rs ts)"
  by (simp add: refUnion_def foldl_ref_add_distinct)

section \<open>Sane tiers, charges and ledgers\<close>

fun tier_ok :: "tier \<Rightarrow> bool" where
  "tier_ok t = (case (t_max t, t_loss t) of
      (Fin m, Fin l) \<Rightarrow> 0 < m \<and> m \<le> 2 ^ 900 \<and> 0 < l \<and> l \<le> 100
    | _ \<Rightarrow> False)"

declare tier_ok.simps [simp del]

definition tiers_ok :: "tiers \<Rightarrow> bool" where
  "tiers_ok ts \<longleftrightarrow> (\<forall>t \<in> ran ts. tier_ok t)"

definition stored_ok :: "f64 \<Rightarrow> bool" where
  "stored_ok v = (case v of Fin s \<Rightarrow> \<bar>s\<bar> \<le> 2 ^ 940 | _ \<Rightarrow> False)"

definition ledger_ok :: "(string \<times> f64) list \<Rightarrow> bool" where
  "ledger_ok m \<longleftrightarrow> distinct (map fst m) \<and> list_all (\<lambda>kv. stored_ok (snd kv)) m"

definition charges_ok :: "charge list \<Rightarrow> bool" where
  "charges_ok cs \<longleftrightarrow> list_all (\<lambda>c. case ch_add c of Fin _ \<Rightarrow> True | _ \<Rightarrow> False) cs"

definition level_ok :: "tiers \<Rightarrow> level \<Rightarrow> bool" where
  "level_ok ts l \<longleftrightarrow>
     fle (Fin 0) (lv_score l) \<and> fle (lv_score l) (t_max (tier_of ts (ref_kind (lv_ref l)))) \<and>
     fle (Fin 0) (lv_percent l) \<and> fle (lv_percent l) (Fin 100)"

lemma tier_okE:
  assumes "tier_ok t"
  obtains m l where "t_max t = Fin m" "t_loss t = Fin l" "0 < m" "m \<le> 2 ^ 900" "0 < l" "l \<le> 100"
  using assms by (auto simp: tier_ok.simps split: f64.splits)

lemma tiers_ok_Enabled: "tiers_ok ts \<Longrightarrow> Enabled (tier_of ts k) \<Longrightarrow> tier_ok (tier_of ts k)"
  by (auto simp: tiers_ok_def tier_of_def Enabled_def ran_def split: option.splits)

lemma stored_okE:
  assumes "stored_ok v"
  obtains s where "v = Fin s" "\<bar>s\<bar> \<le> 2 ^ 940"
  using assms by (auto simp: stored_ok_def split: f64.splits)

lemma ledger_ok_get: "ledger_ok m \<Longrightarrow> map_of m k = Some v \<Longrightarrow> stored_ok v"
  by (auto simp: ledger_ok_def list_all_iff dest: map_of_SomeD)

lemma ledger_ok_delete: "ledger_ok m \<Longrightarrow> ledger_ok (AList.delete k m)"
  using al.inv_drop by (auto simp: ledger_ok_def list_all_iff AList.delete_eq)

lemma ledger_ok_update: "ledger_ok m \<Longrightarrow> stored_ok v \<Longrightarrow> ledger_ok (AList.update k v m)"
proof -
  have "list_all (\<lambda>kv. stored_ok (snd kv)) m \<Longrightarrow> stored_ok v \<Longrightarrow>
      list_all (\<lambda>kv. stored_ok (snd kv)) (AList.update k v m)"
    by (induction m) auto
  then show "ledger_ok m \<Longrightarrow> stored_ok v \<Longrightarrow> ledger_ok (AList.update k v m)"
    using al.inv_put by (auto simp: ledger_ok_def)
qed

section \<open>The leak\<close>

lemma rate_ok:
  assumes "tier_ok t"
  shows "\<exists>r. ratePerSec t = Fin r \<and> 0 \<le> r \<and> r \<le> 2 ^ 900"
proof -
  obtain m l where t: "t_max t = Fin m" "t_loss t = Fin l" and m: "0 < m" "m \<le> 2 ^ 900"
      and l: "0 < l" "l \<le> 100"
    using assms by (rule tier_okE)
  let ?q = "rnd64 (l / 100)"
  have q: "0 \<le> ?q" "?q \<le> 1"
    using l r64.rnd_nonneg [of "l / 100"] r64.rnd_le [of "l / 100" 1] by simp_all
  have "f64_of (l / 100) = Fin ?q"
    using l by (intro f64_of_bounded [where k = 0]) simp_all
  moreover have p: "0 \<le> ?q * m" "?q * m \<le> 2 ^ 900"
    using q m mult_mono [of ?q 1 m "2 ^ 900"] by simp_all
  moreover have "f64_of (?q * m) = Fin (rnd64 (?q * m))"
    using p by (intro f64_of_bounded [where k = 900]) simp_all
  moreover have "0 \<le> rnd64 (?q * m)" "rnd64 (?q * m) \<le> 2 ^ 900"
    using p r64.rnd_nonneg [of "?q * m"] rnd64_abs_le [of "?q * m" 900] by simp_all
  ultimately show ?thesis by (simp add: ratePerSec_def t)
qed

definition leak_val :: "tier \<Rightarrow> int \<Rightarrow> rat" where
  "leak_val t now = (case ratePerSec t of Fin r \<Rightarrow> rnd64 (r * epoch_val now) | _ \<Rightarrow> 0)"

lemma leak_Fin:
  assumes "tier_ok t"
  shows "fmul (ratePerSec t) (epoch now) = Fin (leak_val t now)" and "\<bar>leak_val t now\<bar> \<le> 2 ^ 935"
proof -
  obtain r where r: "ratePerSec t = Fin r" "0 \<le> r" "r \<le> 2 ^ 900"
    using rate_ok [OF assms] by blast
  have "\<bar>r * epoch_val now\<bar> \<le> 2 ^ 900 * 2 ^ 35"
    unfolding abs_mult using r epoch_val_bound [of now] by (intro mult_mono) simp_all
  then have b: "\<bar>r * epoch_val now\<bar> \<le> 2 ^ 935" by (simp only: power_add [symmetric]) simp
  show "fmul (ratePerSec t) (epoch now) = Fin (leak_val t now)"
    using f64_of_bounded [OF b] r(1) by (simp add: epoch_Fin leak_val_def)
  show "\<bar>leak_val t now\<bar> \<le> 2 ^ 935"
    using rnd64_abs_le [OF b] r(1) by (simp add: leak_val_def)
qed

lemma leak_mono:
  assumes "tier_ok t" and "now \<le> now'"
  shows "leak_val t now \<le> leak_val t now'"
proof -
  obtain r where r: "ratePerSec t = Fin r" "0 \<le> r" using rate_ok [OF assms(1)] by blast
  with epoch_val_mono [OF assms(2)] show ?thesis
    by (simp add: leak_val_def rnd64_mono mult_left_mono)
qed

definition clampq :: "rat \<Rightarrow> rat \<Rightarrow> rat" where
  "clampq m x = max 0 (min m x)"

lemma clamp_Fin: "0 < m \<Longrightarrow> clamp (Fin x) (Fin 0) (Fin m) = Fin (clampq m x)"
  by (auto simp: clamp_def clampq_def)

lemma clampq_range: "0 < m \<Longrightarrow> 0 \<le> clampq m x \<and> clampq m x \<le> m"
  by (auto simp: clampq_def)

lemma clampq_mono: "x \<le> y \<Longrightarrow> clampq m x \<le> clampq m y"
  by (auto simp: clampq_def)

lemma clamp_range:
  assumes "0 < m" and "v \<noteq> NaN"
  shows "\<exists>x. clamp v (Fin 0) (Fin m) = Fin x \<and> 0 \<le> x \<and> x \<le> m"
  using assms by (cases v) (auto simp: clamp_Fin clampq_range, auto simp: clamp_def)

lemma fadd_Fin_nonNaN: "v \<noteq> NaN \<Longrightarrow> fadd (Fin x) v \<noteq> NaN"
  by (cases v) simp_all

lemma drained_Fin:
  assumes "tier_ok t" and "t_max t = Fin m" and "\<bar>s\<bar> \<le> 2 ^ 940"
  shows "drained (Fin s) t now = Fin (clampq m (rnd64 (s - leak_val t now)))"
proof -
  have m: "0 < m" using assms(1,2) by (auto elim: tier_okE)
  have "\<bar>s - leak_val t now\<bar> \<le> 2 ^ 940 + 2 ^ 935"
    using leak_Fin(2) [OF assms(1), of now] assms(3) by linarith
  also have "\<dots> \<le> 2 ^ 941" by simp
  finally have "f64_of (s - leak_val t now) = Fin (rnd64 (s - leak_val t now))"
    by (intro f64_of_bounded [where k = 941]) simp_all
  then show ?thesis
    using m by (simp add: drained_def leak_Fin(1) [OF assms(1)] assms(2) clamp_Fin)
qed

lemma drained_range:
  assumes "tier_ok t" and "stored_ok v" and "t_max t = Fin m"
  shows "\<exists>x. drained v t now = Fin x \<and> 0 \<le> x \<and> x \<le> m"
proof -
  obtain s where s: "v = Fin s" "\<bar>s\<bar> \<le> 2 ^ 940" using assms(2) by (rule stored_okE)
  have m: "0 < m" using assms(1,3) by (auto elim: tier_okE)
  show ?thesis unfolding s(1) drained_Fin [OF assms(1,3) s(2)] using clampq_range [OF m] by simp
qed

lemma drained_antimono:
  assumes "tier_ok t" and "stored_ok v" and "now \<le> now'"
  shows "fle (drained v t now') (drained v t now)"
proof -
  obtain s where s: "v = Fin s" "\<bar>s\<bar> \<le> 2 ^ 940" using assms(2) by (rule stored_okE)
  obtain m where m: "t_max t = Fin m" using assms(1) by (auto elim: tier_okE)
  have "rnd64 (s - leak_val t now') \<le> rnd64 (s - leak_val t now)"
    using leak_mono [OF assms(1,3)] by (intro rnd64_mono) simp
  then show ?thesis
    unfolding s(1) drained_Fin [OF assms(1) m s(2)] by (simp add: clampq_mono)
qed

section \<open>One turn of the loop\<close>

lemma level_at_ok:
  assumes "t_max (tier_of ts (ref_kind r)) = Fin m" "0 < m" "0 \<le> x" "x \<le> m"
  shows "level_ok ts (level_at r (tier_of ts (ref_kind r)) (Fin x))"
proof -
  have q: "0 \<le> x / m" "x / m \<le> 1" using assms by simp_all
  then have "f64_of (x / m) = Fin (rnd64 (x / m))" by (intro f64_of_bounded [where k = 0]) simp_all
  moreover have "0 \<le> rnd64 (x / m)" "rnd64 (x / m) \<le> 1"
    using q r64.rnd_nonneg [of "x / m"] r64.rnd_le [of "x / m" 1] by simp_all
  then have "f64_of (rnd64 (x / m) * 100) = Fin (rnd64 (rnd64 (x / m) * 100))"
    by (intro f64_of_bounded [where k = 10]) (simp_all add: abs_mult)
  ultimately show ?thesis
    using assms r64.rnd_share [OF assms(3,4,2)] by (simp add: level_ok_def level_at_def)
qed

lemma store_back_ok:
  assumes "tier_ok t" and "t_max t = Fin m" and "0 \<le> x" "x \<le> m"
  shows "stored_ok (fadd (Fin x) (fmul (ratePerSec t) (epoch now)))"
proof -
  have "m \<le> 2 ^ 900" using assms(1,2) by (auto elim: tier_okE)
  then have "\<bar>x + leak_val t now\<bar> \<le> 2 ^ 900 + 2 ^ 935"
    using assms(3,4) leak_Fin(2) [OF assms(1), of now] by linarith
  also have "\<dots> \<le> 2 ^ 940" by simp
  finally have b: "\<bar>x + leak_val t now\<bar> \<le> 2 ^ 940" .
  have "f64_of (x + leak_val t now) = Fin (rnd64 (x + leak_val t now))"
    by (rule f64_of_bounded [OF b]) simp
  then show ?thesis
    using rnd64_abs_le [OF b] by (simp add: leak_Fin(1) [OF assms(1)] stored_ok_def)
qed

lemma sum_add_NaN_free:
  assumes "NaN \<notin> ran m" and "ch_add c = Fin a"
  shows "NaN \<notin> ran (sum_add m c)"
proof -
  have "fadd (case m (ch_ref c) of None \<Rightarrow> Fin 0 | Some v \<Rightarrow> v) (Fin a) \<noteq> NaN"
  proof (cases "m (ch_ref c)")
    case None
    then show ?thesis by simp
  next
    case (Some v)
    with assms(1) have "v \<noteq> NaN" by (auto simp: ran_def)
    with Some show ?thesis by (cases v) simp_all
  qed
  with assms show ?thesis by (auto simp: sum_add_def ran_def split: if_splits)
qed

lemma sums_NaN_free:
  assumes "charges_ok cs" and "sums_of cs r = Some d"
  shows "d \<noteq> NaN"
proof -
  have "NaN \<notin> ran (foldl sum_add m cs)" if "NaN \<notin> ran m" "charges_ok cs" for m
    using that
  proof (induction cs arbitrary: m)
    case Nil
    then show ?case by simp
  next
    case (Cons c cs)
    then obtain a where "ch_add c = Fin a" by (auto simp: charges_ok_def split: f64.splits)
    with Cons.prems(1) have "NaN \<notin> ran (sum_add m c)" by (rule sum_add_NaN_free)
    with Cons show ?case by (simp add: charges_ok_def)
  qed
  from this [of Map.empty] assms show ?thesis by (auto simp: sums_of_def ran_def)
qed

lemma local_step_ok:
  assumes "ledger_ok m" and "tier_ok (tier_of ts (ref_kind r))"
    and "\<And>d. csum r = Some d \<Longrightarrow> d \<noteq> NaN" and "local_step ts csum now m r = (m', l)"
  shows "ledger_ok m' \<and> level_ok ts l \<and> lv_ref l = r"
proof -
  let ?t = "tier_of ts (ref_kind r)" and ?v = "map_of m (store_key r)"
  obtain mx where mx: "t_max ?t = Fin mx" "0 < mx" using assms(2) by (auto elim: tier_okE)
  let ?e = "case ?v of None \<Rightarrow> Fin 0 | Some v \<Rightarrow> drained v ?t now"
  obtain e where e: "?e = Fin e" "0 \<le> e" "e \<le> mx"
  proof (cases ?v)
    case None
    then show ?thesis using that [of 0] mx by simp
  next
    case (Some v)
    from drained_range [OF assms(2) ledger_ok_get [OF assms(1) Some] mx(1)] Some
    show ?thesis using that by auto
  qed
  have ref: "lv_ref (level_at r t x) = r" for t x by (simp add: level_at_def)
  show ?thesis
  proof (cases "csum r")
    case None
    then show ?thesis
      using assms(1,4) e level_at_ok [OF mx(1,2) e(2,3)]
      by (auto simp: local_step_def Let_def ref ledger_ok_delete)
  next
    case (Some d)
    obtain x where x: "clamp (fadd (Fin e) d) (Fin 0) (Fin mx) = Fin x" "0 \<le> x" "x \<le> mx"
      using clamp_range [OF mx(2) fadd_Fin_nonNaN [OF assms(3) [OF Some]]] by blast
    show ?thesis
      using assms(1,4) Some e(1) x(1) level_at_ok [OF mx(1,2) x(2,3)]
        store_back_ok [OF assms(2) mx(1) x(2,3)]
      by (auto simp: local_step_def Let_def ref mx(1) ledger_ok_update)
  qed
qed

lemma local_loop_ok:
  assumes "ledger_ok m" and "\<And>r. r \<in> set rs \<Longrightarrow> tier_ok (tier_of ts (ref_kind r))"
    and "\<And>r d. csum r = Some d \<Longrightarrow> d \<noteq> NaN" and "local_loop ts csum now m rs = (m', ls)"
  shows "ledger_ok m' \<and> list_all (level_ok ts) ls \<and> map lv_ref ls = rs"
  using assms
proof (induction rs arbitrary: m m' ls)
  case Nil
  then show ?case by simp
next
  case (Cons r rs)
  obtain m1 l where s: "local_step ts csum now m r = (m1, l)" by (cases "local_step ts csum now m r")
  obtain m2 ls2 where lp: "local_loop ts csum now m1 rs = (m2, ls2)"
    by (cases "local_loop ts csum now m1 rs")
  have "ledger_ok m1 \<and> level_ok ts l \<and> lv_ref l = r"
    using local_step_ok [OF Cons.prems(1) _ Cons.prems(3) s] Cons.prems(2) by simp
  moreover have "ledger_ok m2 \<and> list_all (level_ok ts) ls2 \<and> map lv_ref ls2 = rs"
    using Cons.IH [OF _ _ Cons.prems(3) lp] Cons.prems(2) calculation by simp
  ultimately show ?case using Cons.prems(4) s lp by auto
qed


section \<open>Eviction\<close>

lemma evict_loop_ok: "ledger_ok m \<Longrightarrow> ledger_ok (evict_loop cap m ks)"
  by (induction cap m ks rule: evict_loop.induct) (simp_all add: Let_def ledger_ok_delete)

lemma evict_loop_bound:
  assumes "fst ` set m \<subseteq> set ks" and "ks \<noteq> []" and "0 \<le> cap"
  shows "int (length (evict_loop cap m ks)) \<le> cap sdiv 2"
  using assms
proof (induction cap m ks rule: evict_loop.induct)
  case (1 cap m)
  then show ?case by simp
next
  case (2 cap m k ks)
  have sub: "fst ` set (AList.delete k m) \<subseteq> set ks"
    using "2.prems"(1) by (auto simp: AList.delete_eq)
  have cap: "0 \<le> cap sdiv 2" using "2.prems"(3)
    by (cases "cap = 0") (simp_all add: signed_divide_int_def pos_imp_zdiv_nonneg_iff)
  show ?case
  proof (cases "ks = []")
    case True
    with sub have "AList.delete k m = []" by simp
    with True cap show ?thesis by simp
  next
    case False
    with "2.IH" [OF refl _ sub False "2.prems"(3)] show ?thesis by (simp add: Let_def)
  qed
qed

lemma evict_loop_sub: "map_of (evict_loop cap m ks) k = Some v \<Longrightarrow> map_of m k = Some v"
  by (induction cap m ks rule: evict_loop.induct)
     (auto simp: Let_def AList.delete_conv' split: if_splits)

lemma evict_ok: "ledger_ok (l_m l) \<Longrightarrow> ledger_ok (l_m (evict iter l))"
  by (simp add: evict_def evict_loop_ok)

lemma evict_max [simp]: "l_max (evict iter l) = l_max l"
  by (simp add: evict_def)

lemma sdiv2_le: "0 \<le> (c::int) \<Longrightarrow> c sdiv 2 \<le> c"
  by (cases "c = 0") (simp_all add: signed_divide_int_def)

lemma evict_bound:
  assumes "0 \<le> l_max l" and "\<And>ks. mset (iter ks) = mset ks"
  shows "int (length (l_m (evict iter l))) \<le> l_max l"
proof (cases "int (length (l_m l)) > l_max l")
  case True
  let ?ks = "iter (map fst (l_m l))"
  have m: "mset ?ks = mset (map fst (l_m l))" by (rule assms(2))
  have "length ?ks = length (l_m l)" using mset_eq_length [OF m] by simp
  with True assms(1) have ne: "?ks \<noteq> []" by auto
  have "fst ` set (l_m l) \<subseteq> set ?ks" using mset_eq_setD [OF m] by simp
  from evict_loop_bound [OF this ne assms(1)] sdiv2_le [OF assms(1)] True
  show ?thesis by (simp add: evict_def)
next
  case False
  then show ?thesis by (simp add: evict_def)
qed

lemma evict_none: "int (length (l_m l)) \<le> l_max l \<Longrightarrow> evict iter l = l"
  by (simp add: evict_def)

section \<open>Keys\<close>

text \<open>
  A kind is \<open>counter + ":" + axis\<close>, where neither part has a colon; a key may have many
  (an IPv6 address has).  Then no two buckets share a Redis key.
\<close>

definition wf_kind :: "string \<Rightarrow> bool" where
  "wf_kind k \<longleftrightarrow> count_list k (CHR '':'') = 1"

definition kinds_ok :: "tiers \<Rightarrow> bool" where
  "kinds_ok ts \<longleftrightarrow> (\<forall>k \<in> dom ts. wf_kind k)"

lemma colon_split:
  assumes "count_list k c = count_list k' c" and "k @ c # x = k' @ c # x'"
  shows "k = k' \<and> x = x'"
proof -
  have aux: "us = []" if "k1 @ us = k2" "us @ c # x1 = c # x2" "count_list k1 c = count_list k2 c"
    for k1 k2 us x1 x2
    using that by (cases us) auto
  from assms(2) consider us where "k @ us = k'" "c # x = us @ c # x'"
    | us where "k = k' @ us" "us @ c # x = c # x'"
    unfolding append_eq_append_conv2 by blast
  then show ?thesis
  proof cases
    case (1 us)
    have "us = []" using aux [OF 1(1) 1(2) [symmetric]] assms(1) by simp
    with 1 show ?thesis by simp
  next
    case (2 us)
    have "us = []" using aux [OF 2(1) [symmetric] 2(2)] assms(1) by simp
    with 2 show ?thesis by simp
  qed
qed

lemma store_key_inj:
  "wf_kind (ref_kind a) \<Longrightarrow> wf_kind (ref_kind b) \<Longrightarrow> store_key a = store_key b \<Longrightarrow> a = b"
  by (cases a; cases b) (auto simp: store_key_def wf_kind_def dest: colon_split [rotated])

lemma Enabled_dom: "Enabled (tier_of ts k) \<Longrightarrow> k \<in> dom ts"
  by (auto simp: Enabled_def tier_of_def split: option.splits)

section \<open>The writes of a call\<close>

lemma local_step_writes:
  "\<exists>ws. fst (local_step ts csum now m r) = al.writes m ws \<and> fst ` set ws \<subseteq> {store_key r}"
proof (cases "csum r")
  case (Some d)
  then show ?thesis
    by (intro exI [of _ "[(store_key r, Some (fadd (clamp (fadd (case map_of m (store_key r) of None \<Rightarrow> Fin 0
      | Some v \<Rightarrow> drained v (tier_of ts (ref_kind r)) now) d) (Fin 0) (t_max (tier_of ts (ref_kind r))))
      (fmul (ratePerSec (tier_of ts (ref_kind r))) (epoch now))))]"])
      (simp add: local_step_def Let_def)
next
  case None
  let ?del = "AList.delete (store_key r) m"
  have "fst (local_step ts csum now m r) \<in> {m, ?del}"
    using None by (auto simp: local_step_def Let_def)
  then consider "fst (local_step ts csum now m r) = al.writes m []"
    | "fst (local_step ts csum now m r) = al.writes m [(store_key r, None)]" by auto
  then show ?thesis
  proof cases
    case 1
    then show ?thesis by (intro exI [of _ "[]"]) simp
  next
    case 2
    then show ?thesis by (intro exI [of _ "[(store_key r, None)]"]) simp
  qed
qed

lemma local_loop_writes:
  "\<exists>ws. fst (local_loop ts csum now m rs) = al.writes m ws \<and> fst ` set ws \<subseteq> store_key ` set rs"
proof (induction rs arbitrary: m)
  case Nil
  show ?case by (intro exI [of _ "[]"]) simp
next
  case (Cons r rs)
  obtain ws where w: "fst (local_step ts csum now m r) = al.writes m ws"
      "fst ` set ws \<subseteq> {store_key r}" using local_step_writes by blast
  obtain vs where v: "fst (local_loop ts csum now (al.writes m ws) rs) = al.writes (al.writes m ws) vs"
      "fst ` set vs \<subseteq> store_key ` set rs" using Cons.IH by blast
  show ?case
    using w v by (intro exI [of _ "ws @ vs"])
      (auto simp: Let_def case_prod_unfold al.writes_append)
qed

lemma local_loop_other:
  "k \<notin> store_key ` set rs \<Longrightarrow> map_of (fst (local_loop ts csum now m rs)) k = map_of m k"
  using local_loop_writes [of ts csum now m rs] al.writes_other by (metis subsetD)

lemma local_step_other:
  "k \<noteq> store_key r \<Longrightarrow> map_of (fst (local_step ts csum now m r)) k = map_of m k"
  using local_step_writes [of ts csum now m r] al.writes_other by (metis singletonD subsetD)

section \<open>What a call returns\<close>

text \<open>
  The level of a bucket at an instant, as a reader sees it: the specification the loop is
  compared with.
\<close>

definition peek :: "tiers \<Rightarrow> (string \<times> f64) list \<Rightarrow> int \<Rightarrow> bref \<Rightarrow> f64" where
  "peek ts m now r =
     (case map_of m (store_key r) of None \<Rightarrow> Fin 0 | Some v \<Rightarrow> drained v (tier_of ts (ref_kind r)) now)"

definition charged :: "tiers \<Rightarrow> (string \<times> f64) list \<Rightarrow> (bref \<rightharpoonup> f64) \<Rightarrow> int \<Rightarrow> bref \<Rightarrow> f64" where
  "charged ts m csum now r =
     (case csum r of None \<Rightarrow> peek ts m now r
      | Some d \<Rightarrow> clamp (fadd (peek ts m now r) d) (Fin 0) (t_max (tier_of ts (ref_kind r))))"

lemma local_step_level:
  "snd (local_step ts csum now m r) = level_at r (tier_of ts (ref_kind r)) (charged ts m csum now r)"
  by (simp add: local_step_def Let_def charged_def peek_def split: option.split)

lemma peek_cong: "map_of m (store_key r) = map_of m' (store_key r) \<Longrightarrow> peek ts m now r = peek ts m' now r"
  by (simp add: peek_def)

lemma local_loop_levels:
  assumes "distinct rs" and "inj_on store_key (set rs)"
  shows "snd (local_loop ts csum now m rs) =
         map (\<lambda>r. level_at r (tier_of ts (ref_kind r)) (charged ts m csum now r)) rs"
  using assms
proof (induction rs arbitrary: m)
  case Nil
  then show ?case by simp
next
  case (Cons r rs)
  let ?m = "fst (local_step ts csum now m r)"
  have "charged ts ?m csum now x = charged ts m csum now x" if "x \<in> set rs" for x
  proof -
    have "store_key r \<notin> store_key ` set rs" using Cons.prems by auto
    with that have "store_key x \<noteq> store_key r" by (metis imageI)
    then have "peek ts ?m now x = peek ts m now x" by (intro peek_cong local_step_other)
    then show ?thesis by (simp add: charged_def split: option.split)
  qed
  moreover have "snd (local_loop ts csum now ?m rs) =
      map (\<lambda>r. level_at r (tier_of ts (ref_kind r)) (charged ts ?m csum now r)) rs"
    using Cons by (simp add: inj_on_def)
  ultimately show ?case by (simp add: Let_def case_prod_unfold local_step_level)
qed

lemma refUnion_inj: "kinds_ok ts \<Longrightarrow> inj_on store_key (set (refUnion cs rs ts))"
  by (auto simp: inj_on_def kinds_ok_def set_refUnion dest!: Enabled_dom intro: store_key_inj)

lemma charges_ok_live: "charges_ok cs \<Longrightarrow> charges_ok (live_charges ts cs)"
  by (auto simp: charges_ok_def live_charges_def list_all_iff)


section \<open>A whole call\<close>

lemma Apply_cases:
  obtains (none) "refUnion (live_charges ts cs) rs ts = []" "Apply iter l ts cs rs now = (l, [])"
  | (some) m where "refUnion (live_charges ts cs) rs ts \<noteq> []"
      "m = fst (local_loop ts (sums_of (live_charges ts cs)) now (l_m l) (refUnion (live_charges ts cs) rs ts))"
      "Apply iter l ts cs rs now = (evict iter (l\<lparr>l_m := m\<rparr>),
         snd (local_loop ts (sums_of (live_charges ts cs)) now (l_m l) (refUnion (live_charges ts cs) rs ts)))"
  by (cases "refUnion (live_charges ts cs) rs ts = []")
     (auto simp: Apply_def applyLocal_def Let_def case_prod_unfold)

lemma peek_range:
  assumes "tier_ok (tier_of ts (ref_kind r))" and "ledger_ok m"
    and "t_max (tier_of ts (ref_kind r)) = Fin mx"
  shows "\<exists>x. peek ts m now r = Fin x \<and> 0 \<le> x \<and> x \<le> mx"
proof (cases "map_of m (store_key r)")
  case None
  with assms(1,3) show ?thesis by (auto simp: peek_def elim!: tier_okE)
next
  case (Some v)
  with drained_range [OF assms(1) ledger_ok_get [OF assms(2) Some] assms(3)]
  show ?thesis by (simp add: peek_def)
qed

lemma peek_antimono:
  assumes "tier_ok (tier_of ts (ref_kind r))" and "ledger_ok m" and "now \<le> now'"
  shows "fle (peek ts m now' r) (peek ts m now r)"
proof (cases "map_of m (store_key r)")
  case None
  then show ?thesis by (simp add: peek_def)
next
  case (Some v)
  with drained_antimono [OF assms(1) ledger_ok_get [OF assms(2) Some] assms(3)]
  show ?thesis by (simp add: peek_def)
qed

text \<open>Reading a bucket changes no level, now or later: what it deletes has drained.\<close>

lemma local_step_read:
  assumes "csum r = None" and "tier_ok (tier_of ts (ref_kind x))" and "ledger_ok m"
    and "now \<le> now'" and "x = r \<or> store_key x \<noteq> store_key r"
  shows "peek ts (fst (local_step ts csum now m r)) now' x = peek ts m now' x"
proof (cases "store_key x = store_key r")
  case False
  then show ?thesis by (intro peek_cong local_step_other)
next
  case True
  with assms(5) have x: "x = r" by simp
  show ?thesis
  proof (cases "map_of m (store_key r) \<noteq> None \<and> fle (peek ts m now r) (Fin 0)")
    case True
    obtain mx where mx: "t_max (tier_of ts (ref_kind r)) = Fin mx"
      using assms(2) x by (auto elim: tier_okE)
    obtain a where a: "peek ts m now r = Fin a"
      using peek_range [of ts r m mx now] assms(2,3) mx x by auto
    obtain b where b: "peek ts m now' r = Fin b" "0 \<le> b"
      using peek_range [of ts r m mx now'] assms(2,3) mx x by auto
    have "b \<le> a" using peek_antimono [of ts r m now now'] assms(2-4) x a b by simp
    with True a b have "peek ts m now' r = Fin 0" by simp
    moreover have "fst (local_step ts csum now m r) = AList.delete (store_key r) m"
      using True assms(1) by (simp add: local_step_def Let_def peek_def split: option.splits)
    ultimately show ?thesis by (simp add: x peek_def AList.delete_conv')
  next
    case False
    then have "fst (local_step ts csum now m r) = m"
      using assms(1) by (auto simp: local_step_def Let_def peek_def split: option.splits)
    then show ?thesis by simp
  qed
qed

lemma local_step_read_ok:
  "csum r = None \<Longrightarrow> ledger_ok m \<Longrightarrow> ledger_ok (fst (local_step ts csum now m r))"
  by (simp add: local_step_def Let_def ledger_ok_delete)

lemma local_step_read_length:
  "csum r = None \<Longrightarrow> length (fst (local_step ts csum now m r)) \<le> length m"
  by (simp add: local_step_def Let_def AList.length_delete_le)

lemma local_loop_read:
  assumes "\<And>r. csum r = None" and "tier_ok (tier_of ts (ref_kind x))" and "ledger_ok m"
    and "now \<le> now'" and "\<And>r. r \<in> set rs \<Longrightarrow> x = r \<or> store_key x \<noteq> store_key r"
  shows "peek ts (fst (local_loop ts csum now m rs)) now' x = peek ts m now' x \<and>
         length (fst (local_loop ts csum now m rs)) \<le> length m"
  using assms(3,5)
proof (induction rs arbitrary: m)
  case Nil
  then show ?case by simp
next
  case (Cons r rs)
  let ?m = "fst (local_step ts csum now m r)"
  have "peek ts ?m now' x = peek ts m now' x"
    using Cons.prems(2) [of r] by (intro local_step_read assms(1,2,4) Cons.prems(1)) auto
  moreover have "length ?m \<le> length m" using assms(1) by (rule local_step_read_length)
  moreover have "ledger_ok ?m" using assms(1) Cons.prems(1) by (rule local_step_read_ok)
  ultimately show ?case using Cons.IH [of ?m] Cons.prems(2)
    by (auto simp: Let_def case_prod_unfold)
qed

lemma length_update:
  "length (AList.update k v m) = (if k \<in> fst ` set m then length m else Suc (length m))"
  by (induction m) auto


lemma local_step_length: "length (fst (local_step ts csum now m r)) \<le> Suc (length m)"
  by (auto simp: local_step_def Let_def length_update split: option.split
      intro: le_SucI AList.length_delete_le)

lemma local_loop_length: "length (fst (local_loop ts csum now m rs)) \<le> length m + length rs"
proof (induction rs arbitrary: m)
  case Nil
  then show ?case by simp
next
  case (Cons r rs)
  from Cons [of "fst (local_step ts csum now m r)"] local_step_length [of ts csum now m r]
  show ?case by (simp add: Let_def case_prod_unfold)
qed

section \<open>A concrete configuration\<close>

text \<open>The \<open>ip\<close> axis of \<open>api_objects\<close> in \<open>profiles/_shared/counters.yaml\<close>.\<close>

definition api_tiers :: tiers where
  "api_tiers = [''api_objects:ip'' \<mapsto> \<lparr>t_max = Fin 1000, t_loss = Fin 2\<rparr>]"

definition api_ref :: bref where
  "api_ref = BRef ''api_objects:ip'' ''192.0.2.7/32''"

definition api_ledger :: ledger where
  "api_ledger = \<lparr>l_max = 100000, l_m = [(store_key api_ref, Fin 400000600)]\<rparr>"

lemma api_tiers_ok: "tiers_ok api_tiers" "kinds_ok api_tiers" "Enabled (tier_of api_tiers (ref_kind api_ref))"
  by (auto simp: tiers_ok_def kinds_ok_def api_tiers_def api_ref_def tier_ok.simps wf_kind_def tier_of_def Enabled_def)

lemma api_ledger_ok: "ledger_ok (l_m api_ledger)"
  by (simp add: api_ledger_def ledger_ok_def stored_ok_def)

lemma Apply_ok:
  assumes "tiers_ok ts" and "ledger_ok (l_m l)" and "charges_ok cs"
    and "Apply iter l ts cs rs now = (l', ls)"
  shows "list_all (level_ok ts) ls \<and> ledger_ok (l_m l')"
proof (cases rule: Apply_cases [where ts = ts and cs = cs and rs = rs and iter = iter and l = l and now = now])
  case none
  with assms show ?thesis by simp
next
  case (some m)
  let ?cs = "live_charges ts cs" and ?rs = "refUnion (live_charges ts cs) rs ts"
  have tier: "tier_ok (tier_of ts (ref_kind r))" if "r \<in> set ?rs" for r
    using that tiers_ok_Enabled [OF assms(1)] by (auto simp: set_refUnion)
  have "ledger_ok m \<and> list_all (level_ok ts) (snd (local_loop ts (sums_of ?cs) now (l_m l) ?rs))"
    using local_loop_ok [OF assms(2) tier, where csum = "sums_of ?cs" and now = now]
      sums_NaN_free [OF charges_ok_live [OF assms(3)]] some(2)
    by (metis prod.collapse)
  with some(3) assms(4) show ?thesis by (auto intro: evict_ok)
qed

section \<open>Properties\<close>

text \<open>
  C8 (bounds): from a sane ledger and a validated configuration, every level that a call
  returns lies between 0 and the capacity of its tier and every fill between 0 and 100
  percent, in float64 arithmetic with all its roundings; no infinity and no NaN appears.
\<close>

theorem apply_levels_bounded:
  assumes "tiers_ok ts" and "ledger_ok (l_m l)" and "charges_ok cs"
    and "Apply iter l ts cs rs now = (l', ls)"
  shows "list_all (level_ok ts) ls \<and> ledger_ok (l_m l')"
  by (rule Apply_ok [OF assms])

theorem apply_levels_bounded_witness:
  "list_all (level_ok api_tiers)
     (snd (Apply id api_ledger api_tiers [\<lparr>ch_ref = api_ref, ch_add = Fin 900\<rparr>] [api_ref] (epochStart + 5)))"
  using apply_levels_bounded [OF api_tiers_ok(1) api_ledger_ok, where cs = "[\<lparr>ch_ref = api_ref, ch_add = Fin 900\<rparr>]"
      and iter = id and rs = "[api_ref]" and now = "epochStart + 5", OF _ surjective_pairing]
  by (simp add: charges_ok_def)

text \<open>
  C18 (invariant): the process-local ledger never outgrows its bound of entries, in whatever
  order Go walks the map when it evicts.
\<close>

theorem ledger_never_outgrows:
  assumes "\<And>ks. mset (iter ks) = mset ks" and "0 \<le> l_max l" and "int (length (l_m l)) \<le> l_max l"
  shows "int (length (l_m (fst (Apply iter l ts cs rs now)))) \<le> l_max (fst (Apply iter l ts cs rs now))"
  by (cases rule: Apply_cases [where ts = ts and cs = cs and rs = rs and iter = iter and l = l and now = now])
     (use assms evict_bound [of "l\<lparr>l_m := m\<rparr>" iter for m] in auto)

theorem ledger_never_outgrows_witness:
  "int (length (l_m (fst (Apply rev api_ledger api_tiers [\<lparr>ch_ref = api_ref, ch_add = Fin 900\<rparr>] [] 0)))) \<le>
   l_max (fst (Apply rev api_ledger api_tiers [\<lparr>ch_ref = api_ref, ch_add = Fin 900\<rparr>] [] 0))"
  by (rule ledger_never_outgrows) (simp_all add: api_ledger_def)

text \<open>
  The loop over one shared map returns, for the sorted references of the
  call, exactly the levels of the buckets as they were before the call, each with its own
  summed charge: no bucket of the call disturbs another.
\<close>

theorem apply_refines_levels:
  assumes "kinds_ok ts"
  shows "snd (Apply iter l ts cs rs now) =
    map (\<lambda>r. level_at r (tier_of ts (ref_kind r)) (charged ts (l_m l) (sums_of (live_charges ts cs)) now r))
        (refUnion (live_charges ts cs) rs ts)"
  by (cases rule: Apply_cases [where ts = ts and cs = cs and rs = rs and iter = iter and l = l and now = now])
     (use local_loop_levels [OF distinct_refUnion refUnion_inj [OF assms]] in auto)

theorem apply_refines_levels_witness:
  "map lv_ref (snd (Apply id api_ledger api_tiers [\<lparr>ch_ref = api_ref, ch_add = Fin 900\<rparr>] [api_ref] 0)) = [api_ref]"
  unfolding apply_refines_levels [OF api_tiers_ok(2)]
  using api_tiers_ok(3)
  by (simp add: refUnion_def ref_add_def live_charges_def level_at_def)
     (simp add: api_ref_def)

text \<open>
  Two buckets of kinds \<open>counter:axis\<close> never share a key of the store, although
  a subject's key may itself contain colons.
\<close>

theorem store_keys_disjoint:
  "wf_kind (ref_kind a) \<Longrightarrow> wf_kind (ref_kind b) \<Longrightarrow> store_key a = store_key b \<longleftrightarrow> a = b"
  using store_key_inj by blast

theorem store_keys_disjoint_witness:
  "store_key (BRef ''api_objects:ip'' ''2001:db8::1/128'') \<noteq> store_key (BRef ''api_objects:ip'' ''2001:db8::2/128'')"
  using store_keys_disjoint [of "BRef ''api_objects:ip'' ''2001:db8::1/128''"
      "BRef ''api_objects:ip'' ''2001:db8::2/128''"]
  by (simp add: wf_kind_def)

text \<open>
  A bucket only drains between charges.  Reading it later never shows more
  than reading it now.
\<close>

theorem level_only_drains:
  assumes "tiers_ok ts" and "Enabled (tier_of ts (ref_kind r))" and "ledger_ok (l_m l)" and "now \<le> now'"
  shows "fle (peek ts (l_m l) now' r) (peek ts (l_m l) now r)"
  using peek_antimono [OF tiers_ok_Enabled [OF assms(1,2)] assms(3,4)] .

theorem level_only_drains_witness:
  "fle (peek api_tiers (l_m api_ledger) (epochStart + 60000000000) api_ref)
       (peek api_tiers (l_m api_ledger) epochStart api_ref)"
  by (rule level_only_drains [OF api_tiers_ok(1,3) api_ledger_ok]) simp

text \<open>
  A call without charges is unobservable.  It may delete a drained entry,
  but no bucket shows another level afterwards, at that instant or at any later one.
\<close>

theorem reading_is_unobservable:
  assumes "tiers_ok ts" and "kinds_ok ts" and "ledger_ok (l_m l)" and "int (length (l_m l)) \<le> l_max l"
    and "Enabled (tier_of ts (ref_kind x))" and "now \<le> now'"
  shows "peek ts (l_m (fst (Apply iter l ts [] rs now))) now' x = peek ts (l_m l) now' x"
proof (cases rule: Apply_cases [where ts = ts and cs = "[]" and rs = rs and iter = iter and l = l and now = now])
  case none
  then show ?thesis by simp
next
  case (some m)
  have no: "sums_of (live_charges ts []) r = None" for r by (simp add: sums_of_def live_charges_def)
  have apart: "x = r \<or> store_key x \<noteq> store_key r" if "r \<in> set (refUnion (live_charges ts []) rs ts)" for r
  proof -
    have "wf_kind (ref_kind r)" "wf_kind (ref_kind x)"
      using that assms(2,5) Enabled_dom unfolding kinds_ok_def set_refUnion by blast+
    then show ?thesis using store_key_inj [of x r] by blast
  qed
  have "peek ts m now' x = peek ts (l_m l) now' x \<and> length m \<le> length (l_m l)"
    unfolding some(2)
    by (rule local_loop_read [OF no tiers_ok_Enabled [OF assms(1,5)] assms(3,6) apart])
  with some(3) assms(4) show ?thesis by (simp add: evict_none)
qed

theorem reading_is_unobservable_witness:
  "peek api_tiers (l_m (fst (Apply id api_ledger api_tiers [] [api_ref] epochStart))) (epochStart + 5) api_ref =
   peek api_tiers (l_m api_ledger) (epochStart + 5) api_ref"
  by (rule reading_is_unobservable [OF api_tiers_ok(1,2) api_ledger_ok _ api_tiers_ok(3)])
     (simp_all add: api_ledger_def)

text \<open>
  A call touches only the buckets it names.  While the ledger has room for
  what the call may add, every other entry keeps its value.
\<close>

theorem other_buckets_untouched:
  assumes "int (length (l_m l) + length (refUnion (live_charges ts cs) rs ts)) \<le> l_max l"
    and "k \<notin> store_key ` set (refUnion (live_charges ts cs) rs ts)"
  shows "map_of (l_m (fst (Apply iter l ts cs rs now))) k = map_of (l_m l) k"
proof (cases rule: Apply_cases [where ts = ts and cs = cs and rs = rs and iter = iter and l = l and now = now])
  case none
  then show ?thesis by simp
next
  case (some m)
  have "int (length m) \<le> l_max l"
    using local_loop_length [of ts _ now "l_m l" "refUnion (live_charges ts cs) rs ts"] assms(1)
    unfolding some(2) by (meson of_nat_le_iff order_trans)
  then have "evict iter (l\<lparr>l_m := m\<rparr>) = l\<lparr>l_m := m\<rparr>" by (intro evict_none) simp
  with some(3) show ?thesis using local_loop_other [OF assms(2)] by (simp add: some(2))
qed

theorem other_buckets_untouched_witness:
  "map_of (l_m (fst (Apply id api_ledger api_tiers [] [BRef ''api_objects:ip'' ''k''] 0))) (store_key api_ref) =
   map_of (l_m api_ledger) (store_key api_ref)"
  by (rule other_buckets_untouched)
     (auto simp: api_ledger_def refUnion_def ref_add_def live_charges_def api_ref_def store_key_def)

end
