(* ===== verification/Gcra.thy ===== *)
theory Gcra
  imports Bucket_Laws
begin

text \<open>
  The abstract contract of one bucket and the refinement of it: a leaky bucket is a level at
  a second, it loses \<open>rate\<close> units per second down to zero, and a charge adds to it up to its
  capacity.  Where capacity, rate, charges and times are integers of a size that float64
  holds, the ledger's shifted single number computes exactly this.
\<close>

type_synonym gcra = "int \<times> int"

fun gcra_level :: "int \<Rightarrow> gcra \<Rightarrow> int \<Rightarrow> int" where
  "gcra_level r (n, s) t = max 0 (n - r * (t - s))"

definition gcra_charge :: "int \<Rightarrow> int \<Rightarrow> gcra \<Rightarrow> int \<Rightarrow> int \<Rightarrow> gcra" where
  "gcra_charge m r b t d = (max 0 (min m (gcra_level r b t + d)), t)"

fun gcra_run :: "int \<Rightarrow> int \<Rightarrow> gcra \<Rightarrow> (int \<times> int) list \<Rightarrow> int list" where
  "gcra_run m r b [] = []"
| "gcra_run m r b ((t, d) # ops) =
     (let b' = gcra_charge m r b t d in fst b' # gcra_run m r b' ops)"

text \<open>The same run on the store: one charge and one read of the bucket per entry.\<close>

definition at_second :: "int \<Rightarrow> int" where
  "at_second t = epochStart + t * 1000000000"

fun bucket_run ::
    "(string list \<Rightarrow> string list) \<Rightarrow> ledger \<Rightarrow> tiers \<Rightarrow> bref \<Rightarrow> (int \<times> int) list \<Rightarrow> f64 list" where
  "bucket_run iter l ts x [] = []"
| "bucket_run iter l ts x ((t, d) # ops) =
     (let (l', ls) = Apply iter l ts [\<lparr>ch_ref = x, ch_add = f64_of_int d\<rparr>] [x] (at_second t)
      in map lv_score ls @ bucket_run iter l' ts x ops)"

definition times_ok :: "int \<Rightarrow> int \<Rightarrow> int \<Rightarrow> (int \<times> int) list \<Rightarrow> bool" where
  "times_ok m r s ops \<longleftrightarrow> sorted (s # map fst ops) \<and>
     list_all (\<lambda>(t, d). t < 2 ^ 33 \<and> r * t + m < 2 ^ 52 \<and> \<bar>d\<bar> < 2 ^ 52) ops"

definition exact_tier :: "int \<Rightarrow> int \<Rightarrow> tier \<Rightarrow> bool" where
  "exact_tier m r t \<longleftrightarrow>
     tier_ok t \<and> t_max t = Fin (of_int m) \<and> ratePerSec t = Fin (of_int r) \<and> 0 \<le> r \<and> 0 < m"

text \<open>The abstraction relation: the stored number is the level of some earlier second, shifted.\<close>

definition holds :: "int \<Rightarrow> int \<Rightarrow> f64 option \<Rightarrow> gcra \<Rightarrow> bool" where
  "holds m r v b \<longleftrightarrow> (case v of
      None \<Rightarrow> fst b = 0
    | Some v \<Rightarrow> \<exists>n s. v = Fin (of_int (n + r * s)) \<and> 0 \<le> n \<and> n \<le> m \<and> 0 \<le> s \<and> s \<le> snd b \<and>
                   fst b = gcra_level r (n, s) (snd b))"

lemma gcra_level_trans:
  "0 \<le> r \<Longrightarrow> s \<le> t \<Longrightarrow> t \<le> u \<Longrightarrow> gcra_level r (gcra_level r (n, s) t, t) u = gcra_level r (n, s) u"
proof -
  assume "0 \<le> r" "s \<le> t" "t \<le> u"
  then have "0 \<le> r * (u - t)" by simp
  moreover have "r * (u - s) = r * (t - s) + r * (u - t)" by (simp add: algebra_simps)
  ultimately show ?thesis by (simp add: max_def)
qed

lemma gcra_level_bounds: "0 \<le> r \<Longrightarrow> s \<le> t \<Longrightarrow> n \<le> m \<Longrightarrow> 0 \<le> m \<Longrightarrow>
    0 \<le> gcra_level r (n, s) t \<and> gcra_level r (n, s) t \<le> m"
proof -
  assume h: "0 \<le> r" "s \<le> t" "n \<le> m" "0 \<le> m"
  then have "0 \<le> r * (t - s)" by simp
  with h(3) have "n - r * (t - s) \<le> m" by linarith
  with h(4) show ?thesis by simp
qed

lemma holds_later:
  assumes "holds m r v b" and "snd b \<le> u" and "0 \<le> r"
  shows "holds m r v (gcra_level r b u, u)"
proof (cases v)
  case None
  with assms have "0 \<le> r * (u - snd b)" "fst b = 0" by (simp_all add: holds_def)
  with None show ?thesis by (cases b) (simp add: holds_def)
next
  case (Some w)
  with assms(1) obtain n s where w: "w = Fin (of_int (n + r * s))" "0 \<le> n" "n \<le> m" "0 \<le> s"
      "s \<le> snd b" "fst b = gcra_level r (n, s) (snd b)" by (auto simp: holds_def)
  have "gcra_level r b u = gcra_level r (n, s) u"
    using gcra_level_trans [OF assms(3) w(5) assms(2)] w(6) by (cases b) (simp del: gcra_level.simps)
  with w assms(2) have "w = Fin (of_int (n + r * s)) \<and> 0 \<le> n \<and> n \<le> m \<and> 0 \<le> s \<and> s \<le> u \<and>
      gcra_level r b u = gcra_level r (n, s) u" by simp
  then show ?thesis unfolding holds_def Some option.case fst_conv snd_conv by blast
qed

lemma holds_now:
  assumes "0 \<le> n" and "n \<le> m" and "0 \<le> s"
  shows "holds m r (Some (Fin (of_int (n + r * s)))) (n, s)"
proof -
  have "Fin (of_int (n + r * s)) = Fin (of_int (n + r * s)) \<and> 0 \<le> n \<and> n \<le> m \<and> 0 \<le> s \<and> s \<le> s \<and>
      n = gcra_level r (n, s) s" using assms by simp
  then show ?thesis unfolding holds_def option.case fst_conv snd_conv by blast
qed

lemma epoch_at_second:
  assumes "0 \<le> t" and "t < 2 ^ 33"
  shows "epoch_val (at_second t) = of_int t"
proof -
  have "time_sub (at_second t) epochStart = t * 1000000000"
    using assms by (simp add: time_sub_def at_second_def)
  moreover have "whole_seconds (t * 1000000000) = t \<and> rest_nanos (t * 1000000000) = 0"
    using split_nonneg [of "t * 1000000000"] assms(1) by simp
  ultimately show ?thesis
    using assms rnd64_of_int [of t] by (simp add: epoch_val_def seconds_val_def)
qed

lemma leak_exact:
  assumes "exact_tier m r t" and "0 \<le> u" "u < 2 ^ 33" "r * u + m < 2 ^ 52"
  shows "leak_val t (at_second u) = of_int (r * u)"
proof -
  have "0 \<le> r * u" "r * u < 2 ^ 52" using assms by (auto simp: exact_tier_def)
  then have "rnd64 (of_int (r * u)) = of_int (r * u)" by (intro rnd64_of_int) simp
  with assms show ?thesis by (simp add: leak_val_def exact_tier_def epoch_at_second)
qed

lemma clampq_int: "clampq (of_int m) (of_int x) = of_int (max 0 (min m x))"
  by (auto simp: clampq_def max_def min_def)

lemma drained_exact:
  assumes "exact_tier m r t" and "0 \<le> n" "n \<le> m" "0 \<le> s" "s \<le> u" "u < 2 ^ 33" "r * u + m < 2 ^ 52"
  shows "drained (Fin (of_int (n + r * s))) t (at_second u) = Fin (of_int (gcra_level r (n, s) u))"
proof -
  have r: "0 \<le> r" and tok: "tier_ok t" and mx: "t_max t = Fin (of_int m)"
    using assms(1) by (auto simp: exact_tier_def)
  have rs: "0 \<le> r * s" "r * s \<le> r * u" using r assms(4,5) by (auto intro: mult_left_mono)
  have "\<bar>n + r * s\<bar> \<le> 2 ^ 52" using rs assms by simp
  then have "\<bar>of_int (n + r * s) :: rat\<bar> \<le> of_int (2 ^ 52)"
    by (simp only: of_int_abs [symmetric] of_int_le_iff)
  also have "\<dots> \<le> 2 ^ 940" by simp
  finally have "drained (Fin (of_int (n + r * s))) t (at_second u) =
      Fin (clampq (of_int m) (rnd64 (of_int (n + r * s) - of_int (r * u))))"
    using drained_Fin [OF tok mx] leak_exact [OF assms(1)] assms by simp
  moreover have "rnd64 (of_int (n + r * s) - of_int (r * u)) = of_int (n + r * s - r * u)"
    using rs assms rnd64_of_int [of "n + r * s - r * u"] by (simp only: of_int_diff [symmetric]) simp
  moreover have "max 0 (min m (n + r * s - r * u)) = gcra_level r (n, s) u"
    using rs assms by (simp add: algebra_simps)
  ultimately show ?thesis by (simp only: clampq_int)
qed

lemma peek_exact:
  assumes "exact_tier m r (tier_of ts (ref_kind x))" and "holds m r (map_of mp (store_key x)) b"
    and "snd b \<le> u" "0 \<le> snd b" "u < 2 ^ 33" "r * u + m < 2 ^ 52"
  shows "peek ts mp (at_second u) x = Fin (of_int (gcra_level r b u))"
proof -
  obtain n' s' where b: "b = (n', s')" by (cases b)
  have r: "0 \<le> r" using assms(1) by (simp add: exact_tier_def)
  show ?thesis
  proof (cases "map_of mp (store_key x)")
    case None
    with assms(2,3) r b show ?thesis by (simp add: peek_def holds_def)
  next
    case (Some v)
    with assms(2) obtain n s where v: "v = Fin (of_int (n + r * s))" "0 \<le> n" "n \<le> m" "0 \<le> s"
        "s \<le> snd b" "fst b = gcra_level r (n, s) (snd b)" by (auto simp: holds_def)
    have "drained v (tier_of ts (ref_kind x)) (at_second u) = Fin (of_int (gcra_level r (n, s) u))"
      unfolding v(1) by (rule drained_exact [OF assms(1)]) (use v assms in auto)
    moreover have "gcra_level r b u = gcra_level r (n, s) u"
      using gcra_level_trans [OF r v(5) assms(3)] v(6) b by simp
    ultimately show ?thesis using Some by (simp add: peek_def)
  qed
qed

definition room :: "ledger \<Rightarrow> bref \<Rightarrow> bool" where
  "room l x \<longleftrightarrow> int (length (l_m l)) \<le> l_max l \<and>
     (store_key x \<in> fst ` set (l_m l) \<or> int (length (l_m l)) < l_max l)"

lemma Apply_one:
  assumes "Enabled (tier_of ts (ref_kind x))" and "ref_key x \<noteq> []"
  shows "Apply iter l ts [\<lparr>ch_ref = x, ch_add = a\<rparr>] [x] now =
    (let csum = (if feq a (Fin 0) then Map.empty else [x \<mapsto> fadd (Fin 0) a]);
         (mp, lv) = local_step ts csum now (l_m l) x
     in (evict iter (l\<lparr>l_m := mp\<rparr>), [lv]))"
  using assms
  by (simp add: Apply_def applyLocal_def live_charges_def refUnion_def ref_add_def sums_of_def
      sum_add_def Let_def case_prod_unfold)

lemma step_exact:
  assumes "exact_tier m r (tier_of ts (ref_kind x))" and "ref_key x \<noteq> []" and "room l x"
    and "holds m r (map_of (l_m l) (store_key x)) b"
    and "0 \<le> snd b" "snd b \<le> u" "u < 2 ^ 33" "r * u + m < 2 ^ 52" "\<bar>d\<bar> < 2 ^ 52"
    and "Apply iter l ts [\<lparr>ch_ref = x, ch_add = f64_of_int d\<rparr>] [x] (at_second u) = (l', ls)"
  shows "map lv_score ls = [Fin (of_int (fst (gcra_charge m r b u d)))] \<and> room l' x \<and>
         holds m r (map_of (l_m l') (store_key x)) (gcra_charge m r b u d)"
proof -
  let ?t = "tier_of ts (ref_kind x)" and ?k = "store_key x"
  have tok: "tier_ok ?t" and mx: "t_max ?t = Fin (of_int m)" and r: "0 \<le> r" and m: "0 < m"
    using assms(1) by (auto simp: exact_tier_def)
  have en: "Enabled ?t" using tok by (auto simp: Enabled_def elim!: tier_okE)
  have fd: "f64_of_int d = Fin (of_int d)" using assms(9) by (intro f64_of_int_small) simp
  let ?g = "gcra_level r b u"
  have pk: "peek ts (l_m l) (at_second u) x = Fin (of_int ?g)"
    by (rule peek_exact [OF assms(1,4)]) (use assms in auto)
  have fst_b: "0 \<le> fst b \<and> fst b \<le> m"
    using assms(4) m gcra_level_bounds [OF r] by (auto simp: holds_def split: option.splits)
  have g: "0 \<le> ?g" "?g \<le> m"
    using gcra_level_bounds [OF r assms(6), of "fst b" m] fst_b m by (simp_all del: gcra_level.simps)
  show ?thesis
  proof (cases "d = 0")
    case True
    define mp where "mp = (if map_of (l_m l) ?k \<noteq> None \<and> ?g \<le> 0 then AList.delete ?k (l_m l) else l_m l)"
    have "local_step ts Map.empty (at_second u) (l_m l) x = (mp, level_at x ?t (Fin (of_int ?g)))"
      using pk by (simp add: local_step_def Let_def peek_def mp_def split: option.splits)
    moreover have "int (length mp) \<le> l_max l"
      using assms(3) AList.length_delete_le [of ?k "l_m l"] by (auto simp: room_def mp_def)
    ultimately have l': "l' = l\<lparr>l_m := mp\<rparr>" and ls: "map lv_score ls = [Fin (of_int ?g)]"
      using assms(10) en assms(2) fd True
      by (auto simp: Apply_one evict_none level_at_def)
    have ch: "gcra_charge m r b u d = (?g, u)" using g True by (simp add: gcra_charge_def)
    have "room l' x"
    proof (cases "map_of (l_m l) ?k \<noteq> None \<and> ?g \<le> 0")
      case True
      then have "?k \<in> fst ` set (l_m l)" by (simp add: map_of_eq_None_iff)
      then have "length (AList.delete ?k (l_m l)) < length (l_m l)"
        by (simp add: AList.delete_eq length_filter_less image_iff) (metis (mono_tags, lifting) case_prodE' fst_conv length_filter_less prod.case_eq_if)
      with True assms(3) show ?thesis by (simp add: room_def l' mp_def)
    next
      case False
      then have "mp = l_m l" by (auto simp: mp_def)
      with assms(3) show ?thesis by (simp add: room_def l')
    qed
    moreover have "holds m r (map_of mp ?k) (?g, u)"
      using holds_later [OF assms(4,6) r] g
      by (auto simp: holds_def mp_def AList.delete_conv' simp del: gcra_level.simps)
    ultimately show ?thesis using ls ch by (simp add: l')
  next
    case False
    let ?n = "max 0 (min m (?g + d))"
    have ru: "0 \<le> r * u" "m < 2 ^ 52" using r assms(5,6,8)
      using mult_nonneg_nonneg [of r u] by linarith+
    have sm: "fadd (Fin 0) (f64_of_int d) = Fin (of_int d)"
      using fd by (metis add_0 f64_of_int_def fadd.simps(1))
    have "f64_of (of_int ?g + of_int d) = Fin (of_int (?g + d))"
      using f64_of_int_small [of "?g + d"] g assms(9) ru(2)
      by (simp add: f64_of_int_def)
    then have eff: "clamp (fadd (Fin (of_int ?g)) (Fin (of_int d))) (Fin 0) (t_max ?t) = Fin (of_int ?n)"
      using m clamp_Fin [of "of_int m" "of_int (?g + d)"] clampq_int [of m "?g + d"]
      by (simp del: gcra_level.simps add: mx)
    have "f64_of (of_int ?n + of_int (r * u)) = Fin (of_int (?n + r * u))"
      using f64_of_int_small [of "?n + r * u"] m assms(8) ru by (simp add: f64_of_int_def)
    then have shifted: "fadd (Fin (of_int ?n)) (fmul (ratePerSec ?t) (epoch (at_second u))) = Fin (of_int (?n + r * u))"
      using leak_exact [OF assms(1), of u] assms(5-8) by (simp add: leak_Fin(1) [OF tok])
    let ?mp = "AList.update ?k (Fin (of_int (?n + r * u))) (l_m l)"
    have st: "local_step ts [x \<mapsto> fadd (Fin 0) (f64_of_int d)] (at_second u) (l_m l) x =
        (?mp, level_at x ?t (Fin (of_int ?n)))"
      using pk eff shifted by (simp add: local_step_def Let_def peek_def sm split: option.splits)
    have len: "int (length ?mp) \<le> l_max l" using assms(3) by (auto simp: room_def length_update)
    have "\<not> feq (f64_of_int d) (Fin 0)" using fd False by simp
    with st len assms(10) en assms(2) have l': "l' = l\<lparr>l_m := ?mp\<rparr>" and ls: "map lv_score ls = [Fin (of_int ?n)]"
      by (auto simp: Apply_one evict_none level_at_def simp del: fadd.simps)
    have "?k \<in> fst ` set ?mp" by (metis al.get_put map_of_eq_None_iff option.distinct(1))
    then have "room l' x" using len by (simp add: room_def l')
    moreover have "holds m r (map_of ?mp ?k) (?n, u)"
    proof -
      have "map_of ?mp ?k = Some (Fin (of_int (?n + r * u)))" by (simp add: AList.update_conv')
      moreover have "holds m r (Some (Fin (of_int (?n + r * u)))) (?n, u)"
        by (rule holds_now) (use m assms(5,6) in simp_all)
      ultimately show ?thesis by (simp only:)
    qed
    ultimately show ?thesis using ls by (simp add: l' gcra_charge_def)
  qed
qed

lemma run_exact:
  assumes "exact_tier m r (tier_of ts (ref_kind x))" and "ref_key x \<noteq> []" and "room l x"
    and "holds m r (map_of (l_m l) (store_key x)) b" and "0 \<le> snd b" and "times_ok m r (snd b) ops"
  shows "bucket_run iter l ts x ops = map (\<lambda>n. Fin (of_int n)) (gcra_run m r b ops)"
  using assms(3-6)
proof (induction ops arbitrary: l b)
  case Nil
  then show ?case by simp
next
  case (Cons op ops)
  obtain u d where op: "op = (u, d)" by (cases op)
  obtain l' ls where a: "Apply iter l ts [\<lparr>ch_ref = x, ch_add = f64_of_int d\<rparr>] [x] (at_second u) = (l', ls)"
    by (cases "Apply iter l ts [\<lparr>ch_ref = x, ch_add = f64_of_int d\<rparr>] [x] (at_second u)")
  have t: "snd b \<le> u" "u < 2 ^ 33" "r * u + m < 2 ^ 52" "\<bar>d\<bar> < 2 ^ 52" "times_ok m r u ops"
    using Cons.prems(4) by (auto simp: times_ok_def op)
  note st = step_exact [OF assms(1,2) Cons.prems(1,2,3) t(1-4) a]
  have "bucket_run iter l' ts x ops =
      map (\<lambda>n. Fin (of_int n)) (gcra_run m r (gcra_charge m r b u d) ops)"
    by (rule Cons.IH) (use st t Cons.prems(3) in \<open>auto simp: gcra_charge_def\<close>)
  with st a show ?case by (simp add: op Let_def)
qed

text \<open>
  C27 (refinement): a bucket that starts empty is the ideal leaky bucket.  For integer
  capacity, rate, charges and whole seconds that float64 holds, every level the store
  reports over a whole run of charges and reads is the one of the abstract bucket, with no
  rounding error at all.
\<close>

theorem ledger_refines_gcra:
  assumes "exact_tier m r (tier_of ts (ref_kind x))" and "ref_key x \<noteq> []" and "1 \<le> cap"
    and "times_ok m r 0 ops"
  shows "bucket_run iter (newLedger cap) ts x ops = map (\<lambda>n. Fin (of_int n)) (gcra_run m r (0, 0) ops)"
  by (rule run_exact [OF assms(1,2)])
     (use assms(3,4) in \<open>auto simp: room_def newLedger_def holds_def\<close>)

lemma api_rate: "ratePerSec \<lparr>t_max = Fin 1000, t_loss = Fin 2\<rparr> = Fin 20"
  by code_simp

theorem ledger_refines_gcra_witness:
  "bucket_run id (newLedger 10) api_tiers api_ref [(100, 600), (110, 0), (120, 700)] = [Fin 600, Fin 400, Fin 900]"
  by (subst ledger_refines_gcra [where m = 1000 and r = 20])
     (simp_all add: exact_tier_def api_tiers_def api_ref_def tier_of_def tier_ok.simps api_rate times_ok_def
        gcra_charge_def)

end
