(* ===== verification/Protocol.thy ===== *)
theory Protocol
  imports Prelude
begin

text \<open>
  \<open>internal/protocol/protocol.go\<close>: the message a node sends to the inspector and the reply it
  gets, with the checks of \<open>Parse\<close> and of the fields an action carries.  A pointer is an
  option.  Decoding JSON into the structure is the parameter \<open>unmarshal\<close> of \<open>Parse\<close>; the
  two loops over a Go map of three locators are written in a fixed order, which only the
  text of the error depends on.
\<close>

section \<open>Messages\<close>

abbreviation Version :: int where "Version \<equiv> 2"

record tls =
  tls_version :: string
  tls_sni :: string
  tls_ja4 :: string

record conn =
  client_ip :: string
  client_port :: int
  server_ip :: string
  server_port :: int
  conn_tls :: "tls option"

text \<open>\<open>type Header [2]string\<close>, with \<open>Name\<close> and \<open>Value\<close>.\<close>

type_synonym header = "string \<times> string"

abbreviation header_name :: "header \<Rightarrow> string" where "header_name \<equiv> fst"
abbreviation header_value :: "header \<Rightarrow> string" where "header_value \<equiv> snd"

record http =
  http_method :: string
  http_scheme :: string
  http_host :: string
  http_uri :: string
  http_args_size :: int
  http_version :: string

record response =
  rsp_status :: int
  rsp_headers :: "header list"
  rsp_upstream_ms :: int

record enc =
  enc_alg :: string
  enc_kid :: string
  enc_nonce :: string

record locator =
  lo_store :: string
  lo_driver :: string
  lo_key :: string
  lo_unavailable :: string
  lo_size :: int
  lo_declared_size :: int
  lo_sha256 :: string
  lo_processed_sha256 :: string
  lo_transformed :: bool
  lo_complete :: bool
  lo_truncated :: bool
  lo_encoding :: string
  lo_expires_at :: int
  lo_hint :: string
  lo_enc :: "enc option"

fun Placed :: "locator option \<Rightarrow> bool" where
  "Placed None = False"
| "Placed (Some l) = (lo_unavailable l = [] \<and> lo_driver l \<noteq> [] \<and> lo_key l \<noteq> [])"

record obj_store =
  st_headers :: "locator option"
  st_args :: "locator option"
  st_body :: "locator option"

record route =
  rt_server_name :: string
  rt_location :: string
  rt_profile :: string

record score_state =
  sc_total :: int
  sc_deny_at :: int

record session =
  se_inspector :: string
  se_source :: string
  se_kind :: string
  se_user :: string
  se_id :: string
  se_verified :: bool
  se_groups :: "string list"
  se_issued :: int
  se_expires :: int

abbreviation DoChallenge :: string where "DoChallenge \<equiv> ''challenge''"
abbreviation DoThreshold :: string where "DoThreshold \<equiv> ''threshold''"
abbreviation DoSkip :: string where "DoSkip \<equiv> ''skip''"
abbreviation DoReauth :: string where "DoReauth \<equiv> ''reauth''"
abbreviation DoNote :: string where "DoNote \<equiv> ''note''"
abbreviation DoMutate :: string where "DoMutate \<equiv> ''mutate''"
abbreviation DoActive :: string where "DoActive \<equiv> ''active''"
abbreviation DoPassive :: string where "DoPassive \<equiv> ''passive''"
abbreviation DoOff :: string where "DoOff \<equiv> ''off''"
abbreviation DoVote :: string where "DoVote \<equiv> ''vote''"
abbreviation DoAudit :: string where "DoAudit \<equiv> ''audit''"
abbreviation DoArchive :: string where "DoArchive \<equiv> ''archive''"
abbreviation DoMark :: string where "DoMark \<equiv> ''mark''"
abbreviation DoScore :: string where "DoScore \<equiv> ''score''"

abbreviation ApplyRequest :: string where "ApplyRequest \<equiv> ''request''"
abbreviation ApplyIP :: string where "ApplyIP \<equiv> ''ip''"
abbreviation ApplyASN :: string where "ApplyASN \<equiv> ''asn''"
abbreviation ApplySession :: string where "ApplySession \<equiv> ''session''"
abbreviation ApplyConn :: string where "ApplyConn \<equiv> ''conn''"
abbreviation ApplyResponse :: string where "ApplyResponse \<equiv> ''response''"

record object_spec =
  os_set :: string
  os_limit :: int
  os_source :: string

record action =
  ac_to :: string
  ac_do :: string
  ac_apply :: string
  ac_phase :: string
  ac_code :: string
  ac_delta :: int
  ac_value :: int
  ac_counter :: string
  ac_marker :: string
  ac_group :: string
  ac_set :: string
  ac_ttl :: "int option"
  ac_when :: "string list"
  ac_headers :: "object_spec option"
  ac_args :: "object_spec option"
  ac_body :: "object_spec option"

record prior_verdict =
  pv_phase :: string
  pv_inspector :: string
  pv_verdict :: string
  pv_score :: int
  pv_actions :: "action list"

text \<open>\<open>Action.Scope\<close>.\<close>

definition Scope :: "action \<Rightarrow> string" where
  "Scope a = (if ac_apply a = [] then ApplyRequest else ac_apply a)"

record stream =
  sm_protocol :: string
  sm_direction :: string
  sm_opcode :: string
  sm_fin :: bool
  sm_subprotocol :: string

record release =
  rl_token :: string
  rl_reason :: string

record resume =
  rs_want :: bool
  rs_token :: string
  rs_require :: bool

record request =
  rq_v :: int
  rq_rid :: string
  rq_ray :: string
  rq_phase :: string
  rq_wave :: int
  rq_inspector :: string
  rq_deadline_ms :: int
  rq_audit_subject :: "string option"
  rq_node :: string
  rq_conn :: conn
  rq_http :: http
  rq_vars :: "(string \<times> string) list"
  rq_needs :: "string list"
  rq_store :: obj_store
  rq_route :: route
  rq_score :: score_state
  rq_prior :: "prior_verdict list"
  rq_sessions :: "session list"
  rq_response :: "response option"
  rq_request_store :: obj_store
  rq_resume :: "resume option"
  rq_release :: "release option"
  rq_conn_id :: string
  rq_seq :: int
  rq_stream :: "stream option"

abbreviation PhaseRequest :: string where "PhaseRequest \<equiv> ''request''"
abbreviation PhaseResponse :: string where "PhaseResponse \<equiv> ''response''"
abbreviation PhaseFrame :: string where "PhaseFrame \<equiv> ''frame''"

abbreviation NeedHeaders :: string where "NeedHeaders \<equiv> ''headers''"
abbreviation NeedArgs :: string where "NeedArgs \<equiv> ''args''"
abbreviation NeedBody :: string where "NeedBody \<equiv> ''body''"

definition Needed :: "request \<Rightarrow> string \<Rightarrow> bool" where
  "Needed r obj \<longleftrightarrow> list_ex (\<lambda>n. n = obj) (rq_needs r)"

abbreviation VerdictAllow :: string where "VerdictAllow \<equiv> ''allow''"
abbreviation VerdictScore :: string where "VerdictScore \<equiv> ''score''"
abbreviation VerdictRedirect :: string where "VerdictRedirect \<equiv> ''redirect''"
abbreviation VerdictDeny :: string where "VerdictDeny \<equiv> ''deny''"
abbreviation VerdictError :: string where "VerdictError \<equiv> ''error''"

section \<open>Checks of the fields of an action\<close>

abbreviation ArchiveWhen :: "string list" where "ArchiveWhen \<equiv> [''allow'', ''deny'']"

fun archive_words :: "string list \<Rightarrow> string list \<Rightarrow> err + string list" where
  "archive_words seen [] = Inr seen"
| "archive_words seen (w # ws) =
     (let name = to_lower (trim_space w)
      in if name \<noteq> ''allow'' \<and> name \<noteq> ''deny'' then Inl (Err ''when'' ''accepts only allow and deny'')
         else if name \<in> set seen then Inl (Err ''when'' ''lists a word twice'')
         else archive_words (name # seen) ws)"

definition CheckArchiveWhen :: "string list \<Rightarrow> err + string list" where
  "CheckArchiveWhen words =
     (case archive_words [] words of
        Inl e \<Rightarrow> Inl e
      | Inr seen \<Rightarrow> Inr (filter (\<lambda>n. n \<in> set seen) ArchiveWhen))"

definition CheckObjectSpec :: "string \<Rightarrow> object_spec option \<Rightarrow> err option" where
  "CheckObjectSpec name spec =
     (case spec of None \<Rightarrow> None
      | Some s \<Rightarrow> guards
          [(os_set s \<noteq> [] \<and> os_set s \<noteq> ''on'' \<and> os_set s \<noteq> ''off'', Err name ''set must be on or off''),
           (os_limit s < 0, Err name ''limit must not be negative''),
           (os_source s \<noteq> [] \<and> os_source s \<noteq> ''store'' \<and> os_source s \<noteq> ''original'',
            Err name ''source must be store or original'')])"

abbreviation MarkerMax :: nat where "MarkerMax \<equiv> 128"

definition is_control :: "char \<Rightarrow> bool" where
  "is_control c \<longleftrightarrow> c < CHR 0x20 \<or> c = CHR 0x7F"

definition CheckMarker :: "string \<Rightarrow> err option" where
  "CheckMarker marker = guards
     [(marker = [], Err ''marker'' ''mark needs a marker''),
      (length marker > MarkerMax, Err ''marker'' ''is longer than 128 bytes''),
      (list_ex is_control marker, Err ''marker'' ''has a control character''),
      (marker \<noteq> [] \<and> (hd marker = CHR '' '' \<or> last marker = CHR '' ''),
       Err ''marker'' ''has a leading or trailing space'')]"

section \<open>\<open>Parse\<close>\<close>

datatype parse_error = ParseError (pe_rid: string) (pe_err: err)

definition validate_locator :: "string \<Rightarrow> locator option \<Rightarrow> err option" where
  "validate_locator obj l =
     (case l of None \<Rightarrow> None
      | Some l \<Rightarrow> guards
          [(lo_unavailable l \<noteq> [] \<and> (lo_driver l \<noteq> [] \<or> lo_key l \<noteq> []),
            Err obj ''mixes unavailable with an address''),
           ((lo_driver l = []) \<noteq> (lo_key l = []), Err obj ''names a store without driver or key'')])"

definition validate_store :: "string \<Rightarrow> obj_store \<Rightarrow> err option" where
  "validate_store p s =
     and_then (validate_locator (p @ NeedHeaders) (st_headers s))
       (and_then (validate_locator (p @ NeedArgs) (st_args s))
         (validate_locator (p @ NeedBody) (st_body s)))"

text \<open>
  The regular expression \<open>"rid"\s*:\s*"([0-9a-fA-F]{1,32})"\<close>: its first match in the payload.
\<close>

definition is_hex :: "char \<Rightarrow> bool" where
  "is_hex c \<longleftrightarrow> is_digit c \<or> (CHR ''a'' \<le> c \<and> c \<le> CHR ''f'') \<or> (CHR ''A'' \<le> c \<and> c \<le> CHR ''F'')"

definition skip_ws :: "string \<Rightarrow> string" where
  "skip_ws s = dropWhile (\<lambda>c. c \<in> {CHR 0x09, CHR 0x0A, CHR 0x0C, CHR 0x0D, CHR 0x20}) s"

definition rid_label :: string where
  "rid_label = [CHR 0x22, CHR ''r'', CHR ''i'', CHR ''d'', CHR 0x22]"

definition rid_at :: "string \<Rightarrow> string option" where
  "rid_at s =
     (if \<not> has_prefix s rid_label then None
      else case skip_ws (drop 5 s) of
        [] \<Rightarrow> None
      | c # s1 \<Rightarrow> if c \<noteq> CHR '':'' then None else case skip_ws s1 of
          [] \<Rightarrow> None
        | q # s2 \<Rightarrow> if q \<noteq> CHR 0x22 then None else
            (let h = takeWhile is_hex s2
             in if h \<noteq> [] \<and> length h \<le> 32 \<and> has_prefix (drop (length h) s2) [CHR 0x22]
                then Some h else None))"

fun sniffRID :: "string \<Rightarrow> string" where
  "sniffRID [] = []"
| "sniffRID (c # s) = (case rid_at (c # s) of Some h \<Rightarrow> h | None \<Rightarrow> sniffRID s)"

definition Parse :: "(string \<Rightarrow> request option) \<Rightarrow> string \<Rightarrow> parse_error + request" where
  "Parse unmarshal payload =
     (case unmarshal payload of
        None \<Rightarrow> Inl (ParseError (sniffRID payload) (Err ''json'' ''invalid json''))
      | Some req \<Rightarrow>
          if rq_rid req = [] then Inl (ParseError [] (Err ''rid'' ''is missing or empty''))
          else if rq_v req = 0 then Inl (ParseError (rq_rid req) (Err ''v'' ''is missing''))
          else if rq_inspector req = [] then
            Inl (ParseError (rq_rid req) (Err ''inspector'' ''is missing or empty''))
          else if rq_phase req \<notin> {PhaseRequest, PhaseResponse, PhaseFrame} then
            Inl (ParseError (rq_rid req) (Err ''phase'' ''is invalid''))
          else (case rq_release req of
              Some rl \<Rightarrow>
                if rl_token rl = [] then Inl (ParseError (rq_rid req) (Err ''release'' ''has no token''))
                else Inr req
            | None \<Rightarrow>
                if http_method (rq_http req) = [] \<or> http_uri (rq_http req) = [] then
                  Inl (ParseError (rq_rid req) (Err ''http'' ''has no method or uri''))
                else (case and_then (validate_store [] (rq_store req))
                             (validate_store ''request_'' (rq_request_store req)) of
                    Some e \<Rightarrow> Inl (ParseError (rq_rid req) e)
                  | None \<Rightarrow> Inr req)))"

section \<open>Replies\<close>

record reason =
  re_code :: string
  re_class :: string

record reply =
  rp_v :: int
  rp_rid :: string
  rp_inspector :: string
  rp_verdict :: string
  rp_score :: "int option"
  rp_reason :: "reason option"
  rp_response :: "string option"
  rp_redirect :: "(string \<times> int) option"
  rp_headers :: "((string \<times> string) list \<times> string list) option"
  rp_continue :: "(string \<times> int) option"
  rp_actions :: "action list"
  rp_cache :: "bool option"

abbreviation Reason :: "string \<Rightarrow> reason" where
  "Reason code \<equiv> \<lparr>re_code = code, re_class = []\<rparr>"

definition mkReply :: "int \<Rightarrow> string \<Rightarrow> string \<Rightarrow> string \<Rightarrow> reply" where
  "mkReply v rid insp verdict =
     \<lparr>rp_v = v, rp_rid = rid, rp_inspector = insp, rp_verdict = verdict, rp_score = None,
      rp_reason = None, rp_response = None, rp_redirect = None, rp_headers = None,
      rp_continue = None, rp_actions = [], rp_cache = None\<rparr>"

definition NewReply :: "request \<Rightarrow> string \<Rightarrow> reply" where
  "NewReply req verdict = mkReply (rq_v req) (rq_rid req) (rq_inspector req) verdict"

definition ErrorReply :: "request \<Rightarrow> string \<Rightarrow> reply" where
  "ErrorReply req code = (NewReply req VerdictError)\<lparr>rp_reason := Some (Reason code)\<rparr>"

abbreviation ClassOverload :: string where "ClassOverload \<equiv> ''overload''"

definition ShedReply :: "request \<Rightarrow> string \<Rightarrow> reply" where
  "ShedReply req code =
     (ErrorReply req code)\<lparr>rp_reason := Some \<lparr>re_code = code, re_class = ClassOverload\<rparr>\<rparr>"

definition FallbackReply :: "string \<Rightarrow> string \<Rightarrow> string \<Rightarrow> reply" where
  "FallbackReply rid insp code =
     (mkReply Version rid insp VerdictError)\<lparr>rp_reason := Some (Reason code)\<rparr>"

text \<open>\<open>WithScore\<close> leaves the reply alone when it returns the error.\<close>

definition ErrScoreRange :: err where
  "ErrScoreRange = Err ''score'' ''is out of the 0..100 range''"

definition WithScore :: "reply \<Rightarrow> int \<Rightarrow> reply \<times> err option" where
  "WithScore r score =
     (if score < 0 \<or> score > 100 then (r, Some ErrScoreRange)
      else (r\<lparr>rp_verdict := VerdictScore, rp_score := Some score\<rparr>, None))"

definition Marshal :: "(reply \<Rightarrow> string) \<Rightarrow> reply \<Rightarrow> err + string" where
  "Marshal encode r =
     (case rp_score r of
        Some s \<Rightarrow> if s < 0 \<or> s > 100 then Inl ErrScoreRange else Inr (encode r)
      | None \<Rightarrow> Inr (encode r))"

lemmas reply_defs = mkReply_def NewReply_def ErrorReply_def ShedReply_def FallbackReply_def

end
