(* ===== verification/Protocol_Laws.thy ===== *)
theory Protocol_Laws
  imports Protocol
begin

text \<open>
  What \<open>internal/protocol/protocol.go\<close> promises: which requests \<open>Parse\<close> lets through, what
  an error reply is addressed to, and the canonical form of an archive action's verdicts.
\<close>

section \<open>What the checks guarantee\<close>

fun locator_ok :: "locator option \<Rightarrow> bool" where
  "locator_ok None = True"
| "locator_ok (Some l) =
     (Placed (Some l) \<or> (lo_driver l = [] \<and> lo_key l = []))"

definition store_ok :: "obj_store \<Rightarrow> bool" where
  "store_ok s \<longleftrightarrow> locator_ok (st_headers s) \<and> locator_ok (st_args s) \<and> locator_ok (st_body s)"

definition request_ok :: "request \<Rightarrow> bool" where
  "request_ok r \<longleftrightarrow>
     rq_rid r \<noteq> [] \<and> rq_v r \<noteq> 0 \<and> rq_inspector r \<noteq> [] \<and>
     rq_phase r \<in> {PhaseRequest, PhaseResponse, PhaseFrame} \<and>
     (case rq_release r of
        Some rl \<Rightarrow> rl_token rl \<noteq> []
      | None \<Rightarrow> http_method (rq_http r) \<noteq> [] \<and> http_uri (rq_http r) \<noteq> [] \<and>
                store_ok (rq_store r) \<and> store_ok (rq_request_store r))"

lemma validate_locator_None: "validate_locator obj l = None \<longleftrightarrow> locator_ok l"
  by (cases l) (auto simp: validate_locator_def)

lemma validate_store_None: "validate_store p s = None \<longleftrightarrow> store_ok s"
  by (simp add: validate_store_def store_ok_def validate_locator_None)

lemma skip_ws_all:
  assumes "skip_ws w = []" and "skip_ws [c] = [c]"
  shows "skip_ws (w @ c # s) = c # s"
proof -
  have "\<And>x. x \<in> set w \<Longrightarrow> x \<in> {CHR 0x09, CHR 0x0A, CHR 0x0C, CHR 0x0D, CHR 0x20}"
    using assms(1) unfolding skip_ws_def dropWhile_eq_Nil_conv by blast
  then show ?thesis using assms(2) unfolding skip_ws_def
    by (subst dropWhile_append2) (auto split: if_splits)
qed

lemma takeWhile_hex: "list_all is_hex h \<Longrightarrow> \<not> is_hex c \<Longrightarrow> takeWhile is_hex (h @ c # s) = h"
  by (induction h) auto

lemma rid_at_match:
  assumes "skip_ws wa = []" "skip_ws wb = []" "list_all is_hex h" "h \<noteq> []" "length h \<le> 32"
  shows "rid_at (rid_label @ wa @ CHR '':'' # wb @ CHR 0x22 # h @ CHR 0x22 # rest) = Some h"
proof -
  have 1: "skip_ws (wa @ CHR '':'' # s) = CHR '':'' # s" for s
    by (rule skip_ws_all [OF assms(1)]) (simp add: skip_ws_def)
  have 2: "skip_ws (wb @ CHR 0x22 # s) = CHR 0x22 # s" for s
    by (rule skip_ws_all [OF assms(2)]) (simp add: skip_ws_def)
  have 3: "takeWhile is_hex (h @ CHR 0x22 # rest) = h"
    by (rule takeWhile_hex [OF assms(3)]) (simp add: is_hex_def is_digit_def)
  have 4: "drop 5 (rid_label @ s) = s" "has_prefix (rid_label @ s) rid_label" for s
    by (simp_all add: rid_label_def has_prefix_def)
  show ?thesis
    unfolding rid_at_def 4 1 using assms(4,5) by (simp add: 2 3 has_prefix_def)
qed

lemma rid_at_hex: "rid_at s = Some h \<Longrightarrow> h \<noteq> [] \<and> length h \<le> 32 \<and> list_all is_hex h"
  by (auto simp: rid_at_def Let_def list_all_iff dest: set_takeWhileD split: if_splits list.splits)

lemma sniffRID_first:
  assumes "\<forall>k < length pre. rid_at (drop k (pre @ s)) = None"
  shows "sniffRID (pre @ s) = sniffRID s"
  using assms
proof (induction pre)
  case Nil
  then show ?case by simp
next
  case (Cons c pre)
  have "rid_at (c # pre @ s) = None" using Cons.prems by force
  moreover have "sniffRID (pre @ s) = sniffRID s"
    by (rule Cons.IH) (use Cons.prems in force)
  ultimately show ?case by simp
qed

lemma archive_words_ok:
  "archive_words seen ws = Inr r \<Longrightarrow> distinct seen \<Longrightarrow>
   distinct (map (\<lambda>w. to_lower (trim_space w)) ws) \<and>
   set r = set seen \<union> set (map (\<lambda>w. to_lower (trim_space w)) ws) \<and>
   set seen \<inter> set (map (\<lambda>w. to_lower (trim_space w)) ws) = {} \<and>
   (\<forall>w \<in> set ws. to_lower (trim_space w) \<in> set ArchiveWhen)"
  by (induction seen ws rule: archive_words.induct)
     (auto simp: Let_def split: if_splits)

lemma archive_words_complete:
  "distinct (map (\<lambda>w. to_lower (trim_space w)) ws) \<Longrightarrow>
   set seen \<inter> set (map (\<lambda>w. to_lower (trim_space w)) ws) = {} \<Longrightarrow>
   \<forall>w \<in> set ws. to_lower (trim_space w) \<in> set ArchiveWhen \<Longrightarrow>
   \<exists>r. archive_words seen ws = Inr r"
proof (induction seen ws rule: archive_words.induct)
  case (1 seen)
  then show ?case by simp
next
  case (2 seen w ws)
  have w: "to_lower (trim_space w) \<in> {''allow'', ''deny''}" "to_lower (trim_space w) \<notin> set seen"
    using 2(4,3) by auto
  have "\<exists>r. archive_words (to_lower (trim_space w) # seen) ws = Inr r"
    by (rule 2(1) [OF refl]) (use 2(2-4) w in auto)
  with w show ?case by auto
qed

text \<open>
  The guards of \<open>Parse\<close> in one condition: a payload is accepted when it decodes to a request that
  names the request, the protocol version, the inspector and a known phase, and either releases a
  token or carries a method, a URI and object locators each of which is a full address or none.
\<close>

theorem parse_accepts_exactly:
  "Parse u p = Inr r \<longleftrightarrow> u p = Some r \<and> request_ok r"
proof (cases "u p")
  case None
  then show ?thesis by (simp add: Parse_def)
next
  case (Some q)
  have "and_then (validate_store [] (rq_store q)) (validate_store ''request_'' (rq_request_store q)) = None
      \<longleftrightarrow> store_ok (rq_store q) \<and> store_ok (rq_request_store q)"
    by (simp add: validate_store_None)
  then show ?thesis
    unfolding Parse_def request_ok_def Some
    by (cases "rq_release q"; cases "rq_phase q \<in> {PhaseRequest, PhaseResponse, PhaseFrame}";
        cases "and_then (validate_store [] (rq_store q)) (validate_store ''request_'' (rq_request_store q))";
        cases "r = q"; simp)
qed

text \<open>
  A payload that \<open>Parse\<close> refuses still lets the handler address its error reply:
  once it decodes, the error carries the request's own id; while it does not, the id is
  sniffed, which is never longer than 32 hexadecimal digits.
\<close>

theorem parse_error_addressable:
  "Parse u p = Inl e \<Longrightarrow>
   (case u p of Some r \<Rightarrow> pe_rid e = rq_rid r
    | None \<Rightarrow> pe_rid e = sniffRID p \<and> length (pe_rid e) \<le> 32 \<and> list_all is_hex (pe_rid e))"
proof -
  assume h: "Parse u p = Inl e"
  have s: "length (sniffRID x) \<le> 32 \<and> list_all is_hex (sniffRID x)" for x
    by (induction x rule: sniffRID.induct) (auto split: option.splits dest: rid_at_hex)
  show ?thesis
  proof (cases "u p")
    case None
    then show ?thesis using h s by (auto simp: Parse_def)
  next
    case (Some r)
    then show ?thesis using h by (auto simp: Parse_def split: if_splits option.splits)
  qed
qed

theorem parse_error_addressable_witness:
  "pe_rid (projl (Parse (\<lambda>_. None) ([CHR 0x22] @ ''rid'' @ [CHR 0x22] @ '': '' @ [CHR 0x22] @ ''a1'' @ [CHR 0x22]))) = ''a1''"
proof -
  let ?p = "[CHR 0x22] @ ''rid'' @ [CHR 0x22] @ '': '' @ [CHR 0x22] @ ''a1'' @ [CHR 0x22]"
  have "Parse (\<lambda>_. None) ?p = Inl (projl (Parse (\<lambda>_. None) ?p))" by (simp add: Parse_def)
  from parse_error_addressable [OF this] have "pe_rid (projl (Parse (\<lambda>_. None) ?p)) = sniffRID ?p" by simp
  also have "sniffRID ?p = ''a1''" by code_simp
  finally show ?thesis .
qed

text \<open>
  Whatever surrounds it and however it is spaced, the first id field of a
  payload that is not JSON any more is the id that the error reply carries.
\<close>

theorem sniff_finds_rid:
  assumes "\<forall>k < length pre. \<not> has_prefix (drop k s) rid_label"
    and "s = pre @ rid_label @ wa @ CHR '':'' # wb @ CHR 0x22 # h @ CHR 0x22 # rest"
    and "skip_ws wa = []" "skip_ws wb = []" "list_all is_hex h" "h \<noteq> []" "length h \<le> 32"
  shows "sniffRID s = h"
proof -
  let ?t = "rid_label @ wa @ CHR '':'' # wb @ CHR 0x22 # h @ CHR 0x22 # rest"
  have "sniffRID (pre @ ?t) = sniffRID ?t"
    by (rule sniffRID_first) (use assms(1,2) in \<open>auto simp: rid_at_def\<close>)
  moreover have "sniffRID ?t = h"
    using rid_at_match [OF assms(3-7), of rest] by (simp add: rid_label_def)
  ultimately show ?thesis by (simp add: assms(2))
qed

theorem sniff_finds_rid_witness:
  "sniffRID ([CHR ''{''] @ rid_label @ '' '' @ '':'' @ [CHR 0x22] @ ''00ff'' @ [CHR 0x22]) = ''00ff''"
  by (rule sniff_finds_rid [where pre = "[CHR ''{'']" and wa = "'' ''" and wb = "[]" and rest = "[]"])
     (simp_all add: rid_label_def has_prefix_def skip_ws_def is_hex_def is_digit_def)

text \<open>
  The verdicts of an archive action are accepted exactly when each is
  \<open>allow\<close> or \<open>deny\<close> up to case and spaces and none is named twice; the result lists them in
  the fixed order, whatever order the profile had.
\<close>

theorem archive_when_canonical:
  fixes ws :: "string list"
  defines "ns \<equiv> map (\<lambda>w. to_lower (trim_space w)) ws"
  shows "CheckArchiveWhen ws = Inr r \<longleftrightarrow>
    distinct ns \<and> set ns \<subseteq> {''allow'', ''deny''} \<and> r = filter (\<lambda>n. n \<in> set ns) [''allow'', ''deny'']"
proof
  assume "CheckArchiveWhen ws = Inr r"
  then obtain seen where "archive_words [] ws = Inr seen"
      and r: "r = filter (\<lambda>n. n \<in> set seen) ArchiveWhen"
    by (auto simp: CheckArchiveWhen_def split: sum.splits)
  from archive_words_ok [OF this(1)]
  show "distinct ns \<and> set ns \<subseteq> {''allow'', ''deny''} \<and> r = filter (\<lambda>n. n \<in> set ns) [''allow'', ''deny'']"
    unfolding ns_def r by auto
next
  assume h: "distinct ns \<and> set ns \<subseteq> {''allow'', ''deny''} \<and> r = filter (\<lambda>n. n \<in> set ns) [''allow'', ''deny'']"
  then obtain seen where s: "archive_words [] ws = Inr seen"
    using archive_words_complete [of ws "[]"] unfolding ns_def by auto
  from archive_words_ok [OF s] have "set seen = set ns" unfolding ns_def by simp
  with s h show "CheckArchiveWhen ws = Inr r" by (simp add: CheckArchiveWhen_def)
qed

end
