(* ===== verification/Counters.thy ===== *)
theory Counters
  imports Protocol Bucket_Laws
begin

text \<open>
  \<open>internal/config/counters.go\<close>: the counters an inspector declares, each a family of buckets
  with one tier per axis, and where the keys of the configurable axes come from.  A Go map is
  an association list in the order Go happens to walk it; only the choice among several
  errors depends on that order.  YAML decoding is outside: \<open>ParseCounters\<close> starts from the
  decoded structure.
\<close>

section \<open>Names\<close>

abbreviation AxisIP :: string where "AxisIP \<equiv> ''ip''"
abbreviation AxisNet :: string where "AxisNet \<equiv> ''asn_net''"
abbreviation AxisRouter :: string where "AxisRouter \<equiv> ''asn_router''"
abbreviation AxisSess :: string where "AxisSess \<equiv> ''sess''"
abbreviation AxisUser :: string where "AxisUser \<equiv> ''user''"
abbreviation AxisConn :: string where "AxisConn \<equiv> ''conn''"

definition knownAxes :: "string list" where
  "knownAxes = [AxisIP, AxisNet, AxisRouter, AxisSess, AxisUser, AxisConn]"

abbreviation FillMeasure :: string where "FillMeasure \<equiv> ''measure''"
abbreviation FillNote :: string where "FillNote \<equiv> ''note''"

abbreviation FromCookie :: string where "FromCookie \<equiv> ''cookie''"
abbreviation FromHeader :: string where "FromHeader \<equiv> ''header''"
abbreviation FromSession :: string where "FromSession \<equiv> ''session''"
abbreviation SubjectUser :: string where "SubjectUser \<equiv> ''user''"
abbreviation SubjectSID :: string where "SubjectSID \<equiv> ''sid''"
abbreviation DefaultSessCookie :: string where "DefaultSessCookie \<equiv> ''waf_cid''"

text \<open>\<open>nameRe\<close>: \<open>^[A-Za-z0-9][A-Za-z0-9._-]*$\<close>.\<close>

definition is_alnum :: "char \<Rightarrow> bool" where
  "is_alnum c \<longleftrightarrow> is_upper c \<or> is_lower c \<or> is_digit c"

definition nameRe :: "string \<Rightarrow> bool" where
  "nameRe s = (case s of [] \<Rightarrow> False
     | c # r \<Rightarrow> is_alnum c \<and> list_all (\<lambda>x. is_alnum x \<or> x \<in> {CHR ''.'', CHR ''_'', CHR ''-''}) r)"

definition hasString :: "string list \<Rightarrow> string \<Rightarrow> bool" where
  "hasString xs want = list_ex (\<lambda>v. v = want) xs"

lemma hasString_set [simp]: "hasString xs w \<longleftrightarrow> w \<in> set xs"
  by (auto simp: hasString_def list_ex_iff)

section \<open>Declarations\<close>

record axis_tier =
  at_max :: f64
  at_loss :: f64

record subjects =
  sess_cookie :: string
  user_from :: string

record counter =
  cn_unit :: string
  cn_axes :: "(string \<times> axis_tier) list"
  cn_fill :: string
  cn_subjects :: "subjects option"

record counters =
  cs_counters :: "(string \<times> counter) list"
  cs_subjects :: subjects

definition SplitFrom :: "string \<Rightarrow> string \<times> string \<times> bool" where
  "SplitFrom from =
     (case cut from (CHR '':'') of (kind, name, ok) \<Rightarrow>
        if \<not> ok \<or> name = [] then ([], [], False)
        else if kind = FromCookie \<or> kind = FromHeader then (kind, name, True)
        else if kind = FromSession \<and> (name = SubjectUser \<or> name = SubjectSID) then (kind, name, True)
        else ([], [], False))"

definition WantsHeaders :: "string \<Rightarrow> bool" where
  "WantsHeaders from =
     (case SplitFrom from of (kind, _, ok) \<Rightarrow> ok \<and> (kind = FromCookie \<or> kind = FromHeader))"

definition Kind :: "string \<Rightarrow> string \<Rightarrow> string" where
  "Kind counter axis = counter @ '':'' @ axis"

definition own_subjects :: "counters \<Rightarrow> string \<Rightarrow> subjects option" where
  "own_subjects c name =
     (case map_of (cs_counters c) name of None \<Rightarrow> None | Some cnt \<Rightarrow> cn_subjects cnt)"

definition SessCookie :: "counters \<Rightarrow> string \<Rightarrow> string" where
  "SessCookie c name =
     (case own_subjects c name of
        Some s \<Rightarrow> if sess_cookie s \<noteq> [] then sess_cookie s else sess_cookie (cs_subjects c)
      | None \<Rightarrow> sess_cookie (cs_subjects c))"

definition UserFrom :: "counters \<Rightarrow> string \<Rightarrow> string" where
  "UserFrom c name =
     (case own_subjects c name of
        Some s \<Rightarrow> if user_from s \<noteq> [] then user_from s else user_from (cs_subjects c)
      | None \<Rightarrow> user_from (cs_subjects c))"

definition add_tier :: "string \<Rightarrow> tiers \<Rightarrow> string \<times> axis_tier \<Rightarrow> tiers" where
  "add_tier name out ax =
     out(Kind name (fst ax) \<mapsto> \<lparr>t_max = at_max (snd ax), t_loss = at_loss (snd ax)\<rparr>)"

definition Tiers :: "counters \<Rightarrow> tiers" where
  "Tiers c = foldl (\<lambda>out nc. foldl (add_tier (fst nc)) out (cn_axes (snd nc))) Map.empty (cs_counters c)"

definition axes_of_counter :: "counters \<Rightarrow> string \<Rightarrow> (string \<times> axis_tier) list" where
  "axes_of_counter c name = (case map_of (cs_counters c) name of None \<Rightarrow> [] | Some cnt \<Rightarrow> cn_axes cnt)"

definition AxesOf :: "counters \<Rightarrow> string \<Rightarrow> string list" where
  "AxesOf c name =
     (case map_of (cs_counters c) name of None \<Rightarrow> []
      | Some cnt \<Rightarrow> filter (\<lambda>axis. map_of (cn_axes cnt) axis \<noteq> None) knownAxes)"

definition HasAxis :: "counters \<Rightarrow> string \<Rightarrow> string \<Rightarrow> bool" where
  "HasAxis c name axis =
     (case map_of (cs_counters c) name of None \<Rightarrow> False
      | Some cnt \<Rightarrow> map_of (cn_axes cnt) axis \<noteq> None)"

definition FillOf :: "counters \<Rightarrow> string \<Rightarrow> string" where
  "FillOf c name =
     (case map_of (cs_counters c) name of None \<Rightarrow> FillMeasure
      | Some cnt \<Rightarrow> if cn_fill cnt = [] then FillMeasure else cn_fill cnt)"

definition note_wants :: "string \<Rightarrow> string list" where
  "note_wants wire =
     (if wire = ApplyIP then [AxisIP]
      else if wire = ApplyASN then [AxisNet, AxisRouter]
      else if wire = ApplySession then [AxisSess] else [])"

definition NoteAxes :: "counters \<Rightarrow> string \<Rightarrow> string \<Rightarrow> string list" where
  "NoteAxes c name wire = filter (HasAxis c name) (note_wants wire)"

section \<open>Validation\<close>

definition validate_subjects :: "subjects \<Rightarrow> err option" where
  "validate_subjects s =
     (if user_from s = [] then None
      else if \<not> snd (snd (SplitFrom (user_from s)))
      then Some (Err ''subjects.user.from'' ''must be cookie:, header:, session:user or session:sid'')
      else None)"

definition validate_axis :: "counters \<Rightarrow> string \<Rightarrow> string \<times> axis_tier \<Rightarrow> err option" where
  "validate_axis c name ax = guards
     [(\<not> hasString knownAxes (fst ax), Err name ''unknown axis''),
      (fle (at_max (snd ax)) (Fin 0), Err name ''max must be positive''),
      (fle (at_loss (snd ax)) (Fin 0) \<or> flt (Fin 100) (at_loss (snd ax)),
       Err name ''loss must be within (0..100] percent per second''),
      (fst ax = AxisUser \<and> UserFrom c name = [], Err name ''axis user needs subjects.user.from'')]"

definition validate_counter :: "counters \<Rightarrow> string \<times> counter \<Rightarrow> err option" where
  "validate_counter c nc =
     (let name = fst nc; cnt = snd nc in
      and_then
        (guards
          [(\<not> nameRe name, Err name ''bad counter name''),
           (cn_fill cnt \<notin> {[], FillMeasure, FillNote}, Err name ''fill must be measure or note''),
           (cn_axes cnt = [], Err name ''no axes: a counter without axes counts nobody'')])
        (and_then (first_err (\<lambda>_. validate_axis c name) 0 (cn_axes cnt))
          (case cn_subjects cnt of None \<Rightarrow> None | Some s \<Rightarrow> validate_subjects s)))"

definition validate_counters :: "counters \<Rightarrow> err option" where
  "validate_counters c =
     (if cs_counters c = [] then Some (Err ''counters.yaml'' ''no counters declared'')
      else and_then (first_err (\<lambda>_. validate_counter c) 0 (cs_counters c))
             (validate_subjects (cs_subjects c)))"

text \<open>\<open>ParseCounters\<close> after the decoder: the default cookie, then the validation.\<close>

definition ParseCounters :: "counters option \<Rightarrow> err + counters" where
  "ParseCounters decoded =
     (case decoded of None \<Rightarrow> Inl (Err ''counters.yaml'' ''decode'')
      | Some c0 \<Rightarrow>
          let c = (if sess_cookie (cs_subjects c0) = []
                   then c0\<lparr>cs_subjects := (cs_subjects c0)\<lparr>sess_cookie := DefaultSessCookie\<rparr>\<rparr> else c0)
          in case validate_counters c of Some e \<Rightarrow> Inl e | None \<Rightarrow> Inr c)"

section \<open>Names and kinds\<close>

lemma nameRe_no_colon: "nameRe s \<Longrightarrow> CHR '':'' \<notin> set s"
  by (auto simp: nameRe_def is_alnum_def is_upper_def is_lower_def is_digit_def list_all_iff
      split: list.splits)

lemma knownAxes_no_colon: "a \<in> set knownAxes \<Longrightarrow> CHR '':'' \<notin> set a"
  by (auto simp: knownAxes_def)

lemma count_list_zero: "c \<notin> set s \<Longrightarrow> count_list s c = 0"
  by (simp add: count_list_0_iff)

lemma wf_kind_Kind: "CHR '':'' \<notin> set n \<Longrightarrow> CHR '':'' \<notin> set a \<Longrightarrow> wf_kind (Kind n a)"
  by (simp add: wf_kind_def Kind_def count_list_zero)

lemma Kind_inj:
  "CHR '':'' \<notin> set n \<Longrightarrow> CHR '':'' \<notin> set n' \<Longrightarrow> Kind n a = Kind n' a' \<Longrightarrow> n = n' \<and> a = a'"
  using colon_split [of n "CHR '':''" n' a a'] by (simp add: Kind_def count_list_zero)

section \<open>What an accepted declaration guarantees\<close>

lemma first_err_const: "first_err (\<lambda>_. f) i xs = None \<longleftrightarrow> (\<forall>x \<in> set xs. f x = None)"
  by (induction xs arbitrary: i) (auto split: option.splits)

lemma accepted_counter:
  "validate_counters c = None \<Longrightarrow> nc \<in> set (cs_counters c) \<Longrightarrow> validate_counter c nc = None"
  by (auto simp: validate_counters_def first_err_const split: if_splits)

lemma accepted_name: "validate_counter c nc = None \<Longrightarrow> nameRe (fst nc)"
  by (auto simp: validate_counter_def Let_def)

lemma accepted_axis:
  assumes "validate_counter c nc = None" and "ax \<in> set (cn_axes (snd nc))"
  shows "fst ax \<in> set knownAxes" and "\<not> fle (at_max (snd ax)) (Fin 0)"
    and "\<not> fle (at_loss (snd ax)) (Fin 0)" and "\<not> flt (Fin 100) (at_loss (snd ax))"
    and "fst ax = AxisUser \<Longrightarrow> UserFrom c (fst nc) \<noteq> []"
proof -
  have "validate_axis c (fst nc) ax = None"
    using assms by (auto simp: validate_counter_def Let_def first_err_const)
  then show "fst ax \<in> set knownAxes" and "\<not> fle (at_max (snd ax)) (Fin 0)"
    and "\<not> fle (at_loss (snd ax)) (Fin 0)" and "\<not> flt (Fin 100) (at_loss (snd ax))"
    and "fst ax = AxisUser \<Longrightarrow> UserFrom c (fst nc) \<noteq> []"
    by (auto simp: validate_axis_def)
qed

lemma foldl_add_tier_dom:
  "dom (foldl (add_tier n) out axes) = dom out \<union> Kind n ` fst ` set axes"
  by (induction axes arbitrary: out) (auto simp: add_tier_def)

lemma foldl_add_tier_ran:
  "foldl (add_tier n) out axes k = Some t \<Longrightarrow>
   out k = Some t \<or> (\<exists>ax \<in> set axes. k = Kind n (fst ax) \<and>
       t = \<lparr>t_max = at_max (snd ax), t_loss = at_loss (snd ax)\<rparr>)"
proof (induction axes arbitrary: out)
  case Nil
  then show ?case by simp
next
  case (Cons ax axes)
  from Cons.IH [of "add_tier n out ax"] Cons.prems show ?case
    by (auto simp: add_tier_def split: if_splits)
qed

lemma Tiers_gen:
  fixes cs :: "(string \<times> counter) list"
  shows "dom (foldl (\<lambda>out nc. foldl (add_tier (fst nc)) out (cn_axes (snd nc))) m cs) =
     dom m \<union> (\<Union>nc \<in> set cs. Kind (fst nc) ` fst ` set (cn_axes (snd nc)))"
  by (induction cs arbitrary: m) (auto simp: foldl_add_tier_dom)

lemma dom_Tiers: "dom (Tiers c) = (\<Union>nc \<in> set (cs_counters c). Kind (fst nc) ` fst ` set (cn_axes (snd nc)))"
  by (simp add: Tiers_def Tiers_gen)

lemma Tiers_Some:
  assumes "Tiers c k = Some t"
  shows "\<exists>nc \<in> set (cs_counters c). \<exists>ax \<in> set (cn_axes (snd nc)). k = Kind (fst nc) (fst ax) \<and>
           t = \<lparr>t_max = at_max (snd ax), t_loss = at_loss (snd ax)\<rparr>"
proof -
  have "m k = Some t \<or> (\<exists>nc \<in> set cs. \<exists>ax \<in> set (cn_axes (snd nc)). k = Kind (fst nc) (fst ax) \<and>
           t = \<lparr>t_max = at_max (snd ax), t_loss = at_loss (snd ax)\<rparr>)"
    if "foldl (\<lambda>out nc. foldl (add_tier (fst nc)) out (cn_axes (snd nc))) m cs k = Some t"
    for m and cs :: "(string \<times> counter) list"
    using that
  proof (induction cs arbitrary: m)
    case Nil
    then show ?case by simp
  next
    case (Cons nc cs)
    from Cons.IH [OF Cons.prems [unfolded foldl_Cons]] show ?case
      using foldl_add_tier_ran [of "fst nc" m "cn_axes (snd nc)" k t] by auto
  qed
  from this [OF assms [unfolded Tiers_def]] show ?thesis by simp
qed

lemma HasAxis_iff:
  "HasAxis c n a \<longleftrightarrow> (\<exists>cnt. map_of (cs_counters c) n = Some cnt \<and> a \<in> fst ` set (cn_axes cnt))"
proof (cases "map_of (cs_counters c) n")
  case None
  then show ?thesis by (simp add: HasAxis_def del: map_of_eq_None_iff)
next
  case (Some cnt)
  then show ?thesis by (auto simp: HasAxis_def map_of_eq_None_iff)
qed

lemma HasAxis_Tiers: "HasAxis c n a \<Longrightarrow> Kind n a \<in> dom (Tiers c)"
  unfolding HasAxis_iff dom_Tiers by (auto dest!: map_of_SomeD) force

text \<open>Every number of the declaration is a finite one, below the bound of a sane tier.\<close>

definition small_number :: "f64 \<Rightarrow> bool" where
  "small_number v = (case v of Fin m \<Rightarrow> m \<le> 2 ^ 900 | _ \<Rightarrow> False)"

definition finite_numbers :: "counters \<Rightarrow> bool" where
  "finite_numbers c \<longleftrightarrow>
     (\<forall>nc \<in> set (cs_counters c). \<forall>ax \<in> set (cn_axes (snd nc)).
        small_number (at_max (snd ax)) \<and> small_number (at_loss (snd ax)))"

lemma small_numberE:
  assumes "small_number v"
  obtains m where "v = Fin m" "m \<le> 2 ^ 900"
  using assms by (auto simp: small_number_def split: f64.splits)

lemma accepted_tiers:
  assumes "validate_counters c = None" and "finite_numbers c"
  shows "tiers_ok (Tiers c)"
  unfolding tiers_ok_def
proof
  fix t assume "t \<in> ran (Tiers c)"
  then obtain k where "Tiers c k = Some t" by (auto simp: ran_def)
  from Tiers_Some [OF this] obtain nc ax where nc: "nc \<in> set (cs_counters c)"
      and ax: "ax \<in> set (cn_axes (snd nc))"
      and t: "t = \<lparr>t_max = at_max (snd ax), t_loss = at_loss (snd ax)\<rparr>" by blast
  note v = accepted_axis [OF accepted_counter [OF assms(1) nc] ax]
  from assms(2) nc ax have "small_number (at_max (snd ax))" "small_number (at_loss (snd ax))"
    by (auto simp: finite_numbers_def)
  then obtain m l where "at_max (snd ax) = Fin m" "at_loss (snd ax) = Fin l" "m \<le> 2 ^ 900"
    by (auto elim!: small_numberE)
  with v t show "tier_ok t" by (simp add: tier_ok.simps not_le not_less)
qed

lemma accepted_kind:
  assumes "validate_counters c = None" and "nc \<in> set (cs_counters c)" and "ax \<in> set (cn_axes (snd nc))"
  shows "wf_kind (Kind (fst nc) (fst ax))"
proof -
  note v = accepted_counter [OF assms(1,2)]
  from accepted_name [OF v] accepted_axis(1) [OF v assms(3)] show ?thesis
    by (intro wf_kind_Kind nameRe_no_colon knownAxes_no_colon)
qed

lemma accepted_kinds: "validate_counters c = None \<Longrightarrow> kinds_ok (Tiers c)"
  unfolding kinds_ok_def dom_Tiers by (intro ballI) (auto dest: accepted_kind [of c])

end
