(* ===== verification/Overload.thy ===== *)
theory Overload
  imports Prelude
begin

text \<open>
  \<open>internal/overload/overload.go\<close>: when an outcome of the kind \<open>overload\<close> fires.  Below 100
  the threshold is a fill of the queue; at 100 (the default) it is only the shedding itself.
\<close>

abbreviation OvOn :: string where "OvOn \<equiv> ''overload''"
abbreviation AtMin :: int where "AtMin \<equiv> 25"
abbreviation AtMax :: int where "AtMax \<equiv> 100"

definition At :: "int option \<Rightarrow> int" where
  "At at = (case at of None \<Rightarrow> AtMax | Some v \<Rightarrow> v)"

definition Check :: "int option \<Rightarrow> err option" where
  "Check at = (case at of None \<Rightarrow> None
     | Some v \<Rightarrow> if v < AtMin \<or> v > AtMax then Some (Err ''at'' ''is out of 25..100 percent of the queue'') else None)"

definition Fires :: "int \<Rightarrow> int \<Rightarrow> bool \<Rightarrow> bool" where
  "Fires at fill shed \<longleftrightarrow> (if shed then True else at < AtMax \<and> fill \<ge> at)"

lemma Check_None: "Check at = None \<longleftrightarrow> AtMin \<le> At at \<and> At at \<le> AtMax"
  by (auto simp: Check_def At_def split: option.split)

lemma Fires_shed [simp]: "Fires at fill True"
  by (simp add: Fires_def)

lemma Fires_default: "Fires (At None) fill False = False"
  by (simp add: Fires_def At_def)

end
