(* ===== verification/Profile.thy ===== *)
theory Profile
  imports Counters Overload
begin

text \<open>
  \<open>internal/config/profile.go\<close>: the profiles, that is the rules that judge a request or a
  frame, measure an answer, act on an outcome and listen to other inspectors, with their
  validation.  YAML decoding is outside: \<open>ParseProfile\<close> starts from a decoded profile.  A
  regular expression is the pattern it was compiled from; which patterns compile is a
  parameter of the validation.
\<close>

section \<open>Names\<close>

abbreviation ModeEnforce :: string where "ModeEnforce \<equiv> ''enforce''"
abbreviation ModeObserve :: string where "ModeObserve \<equiv> ''observe''"
abbreviation ModeOff :: string where "ModeOff \<equiv> ''off''"
abbreviation ActionDeny :: string where "ActionDeny \<equiv> ''deny''"
abbreviation ActionScore :: string where "ActionScore \<equiv> ''score''"
abbreviation SourceConst :: string where "SourceConst \<equiv> ''const''"
abbreviation SourceRegexCount :: string where "SourceRegexCount \<equiv> ''regex_count''"
abbreviation SourceSizeKB :: string where "SourceSizeKB \<equiv> ''size_kb''"
abbreviation SourceBytes :: string where "SourceBytes \<equiv> ''bytes''"
abbreviation DirectionC2S :: string where "DirectionC2S \<equiv> ''c2s''"
abbreviation DirectionS2C :: string where "DirectionS2C \<equiv> ''s2c''"
abbreviation OpcodeText :: string where "OpcodeText \<equiv> ''text''"
abbreviation OpcodeBinary :: string where "OpcodeBinary \<equiv> ''binary''"
abbreviation OpcodeContinuation :: string where "OpcodeContinuation \<equiv> ''continuation''"
abbreviation OnDeny :: string where "OnDeny \<equiv> ''deny''"
abbreviation OnAllow :: string where "OnAllow \<equiv> ''allow''"
abbreviation OnScore :: string where "OnScore \<equiv> ''score''"
abbreviation OnLevel :: string where "OnLevel \<equiv> ''level''"
abbreviation OnOverload :: string where "OnOverload \<equiv> ''overload''"
abbreviation WriteAddr :: string where "WriteAddr \<equiv> ''addr''"
abbreviation WriteNet :: string where "WriteNet \<equiv> ''net''"
abbreviation WriteNetAll :: string where "WriteNetAll \<equiv> ''net_all''"
abbreviation WriteASN :: string where "WriteASN \<equiv> ''asn''"
abbreviation DefaultName :: string where "DefaultName \<equiv> ''default''"
abbreviation ProbeName :: string where "ProbeName \<equiv> ''_probe''"
abbreviation DefaultDenyResponse :: string where "DefaultDenyResponse \<equiv> ''counter_limit''"
abbreviation DefaultFrameDenyResponse :: string where "DefaultFrameDenyResponse \<equiv> ''ws_policy''"
abbreviation AnyInspector :: string where "AnyInspector \<equiv> ''*''"

text \<open>\<open>methodRe\<close> \<open>^[A-Z]+$\<close> and \<open>codeRe\<close> \<open>^[A-Z][A-Z0-9_]{0,63}$\<close>.\<close>

definition methodRe :: "string \<Rightarrow> bool" where
  "methodRe s \<longleftrightarrow> s \<noteq> [] \<and> list_all is_upper s"

definition codeRe :: "string \<Rightarrow> bool" where
  "codeRe s = (case s of [] \<Rightarrow> False
     | c # r \<Rightarrow> is_upper c \<and> length r \<le> 63 \<and> list_all (\<lambda>x. is_upper x \<or> is_digit x \<or> x = CHR ''_'') r)"

section \<open>Durations\<close>

text \<open>Whole seconds in an \<open>int\<close>; the product with the unit wraps around at 64 bits.\<close>

definition duration_unit :: "string \<Rightarrow> int \<times> string" where
  "duration_unit raw =
     (if has_suffix raw ''s'' then (1, trim_suffix raw ''s'')
      else if has_suffix raw ''m'' then (60, trim_suffix raw ''m'')
      else if has_suffix raw ''h'' then (3600, trim_suffix raw ''h'')
      else if has_suffix raw ''d'' then (86400, trim_suffix raw ''d'')
      else (1, raw))"

definition ParseDuration :: "string \<Rightarrow> err + int" where
  "ParseDuration raw0 =
     (let raw = trim_space (to_lower raw0) in
      if raw = [] then Inr 0
      else case duration_unit raw of (secs, rest) \<Rightarrow>
        (case atoi (trim_space rest) of
           None \<Rightarrow> Inl (Err ''duration'' ''atoi'')
         | Some n \<Rightarrow> if n < 0 then Inl (Err ''duration'' ''must not be negative'')
                     else Inr (wrap64 (n * secs))))"

section \<open>Rules\<close>

record judge_rule =
  jr_counter :: string
  jr_axis :: string
  jr_at :: f64
  jr_action :: string
  jr_score :: int
  jr_code :: string

record match =
  mt_status :: "int list"
  mt_content_type :: "string list"
  mt_methods :: "string list"
  mt_direction :: "string list"
  mt_opcode :: "string list"

record measure_rule =
  mr_if :: match
  mr_source :: string
  mr_regex :: string
  mr_per :: "f64 option"
  mr_counter :: string
  mr_axes :: "string list"
  mr_re :: "string option"

definition Weight :: "measure_rule \<Rightarrow> f64" where
  "Weight m = (case mr_per m of None \<Rightarrow> Fin 1 | Some v \<Rightarrow> v)"

definition hasFold :: "string list \<Rightarrow> string \<Rightarrow> bool" where
  "hasFold xs want = list_ex (\<lambda>v. equal_fold v want) xs"

definition hasInt :: "int list \<Rightarrow> int \<Rightarrow> bool" where
  "hasInt xs want = list_ex (\<lambda>v. v = want) xs"

definition MatchesFrame :: "match \<Rightarrow> string \<Rightarrow> string \<Rightarrow> bool" where
  "MatchesFrame m direction opcode =
     (if mt_direction m \<noteq> [] \<and> \<not> hasFold (mt_direction m) direction then False
      else mt_opcode m = [] \<or> hasFold (mt_opcode m) opcode)"

text \<open>The media type of a \<open>Content-Type\<close>, without its parameters.\<close>

definition media_type :: "string \<Rightarrow> string" where
  "media_type contentType =
     (let ct = to_lower (trim_space contentType)
      in case cut ct (CHR '';'') of (a, _, found) \<Rightarrow> if found then trim_space a else ct)"

fun type_listed :: "string \<Rightarrow> string list \<Rightarrow> bool" where
  "type_listed ct [] = False"
| "type_listed ct (w # ws) =
     (let w' = to_lower (trim_space w) in
      if has_prefix w' ''+'' then (if has_suffix ct w' then True else type_listed ct ws)
      else if ct = w' then True else type_listed ct ws)"

definition typeAllowed :: "string list \<Rightarrow> string \<Rightarrow> bool" where
  "typeAllowed want contentType =
     (if want = [] then True else type_listed (media_type contentType) want)"

definition Matches :: "match \<Rightarrow> string \<Rightarrow> int \<Rightarrow> string \<Rightarrow> bool" where
  "Matches m method status contentType =
     (if mt_status m \<noteq> [] \<and> \<not> hasInt (mt_status m) status then False
      else if mt_methods m \<noteq> [] \<and> \<not> hasFold (mt_methods m) method then False
      else typeAllowed (mt_content_type m) contentType)"

section \<open>Outcomes\<close>

record outcome_if =
  oi_counter :: string
  oi_axis :: string

record outcome =
  oc_on :: string
  oc_at :: "int option"
  oc_below :: bool
  oc_eq :: bool
  oc_if :: "outcome_if option"
  oc_to :: string
  oc_do :: string
  oc_apply :: string
  oc_phase :: string
  oc_delta :: "int option"
  oc_value :: "int option"
  oc_counter :: string
  oc_group :: string
  oc_set :: string
  oc_headers :: "object_spec option"
  oc_args :: "object_spec option"
  oc_body :: "object_spec option"
  oc_when :: "string list"
  oc_marker :: string
  oc_list :: string
  oc_write :: string
  oc_ttl :: int
  oc_code :: string

definition outcomeVerbs :: "string \<rightharpoonup> string list" where
  "outcomeVerbs = map_of
     [(DoChallenge, [ApplyRequest]), (DoThreshold, [ApplyRequest]), (DoSkip, [ApplyRequest]),
      (DoMutate, [ApplyRequest]), (DoReauth, [ApplySession]),
      (DoNote, [ApplyRequest, ApplyIP, ApplyASN, ApplySession]),
      (DoActive, [ApplyRequest, ApplyConn]), (DoPassive, [ApplyRequest, ApplyConn]),
      (DoOff, [ApplyRequest, ApplyConn]), (DoVote, [ApplyRequest, ApplyConn]),
      (DoAudit, [ApplyRequest, ApplyResponse]), (DoArchive, [ApplyRequest, ApplyResponse]),
      (DoMark, [ApplyRequest]), (DoScore, [ApplyRequest])]"

definition auditVerb :: "string \<Rightarrow> bool" where
  "auditVerb v \<longleftrightarrow> v = DoAudit \<or> v = DoArchive"

definition recordVerb :: "string \<Rightarrow> bool" where
  "recordVerb v \<longleftrightarrow> auditVerb v \<or> v = DoMark \<or> v = DoScore"

definition controlVerb :: "string \<Rightarrow> bool" where
  "controlVerb v \<longleftrightarrow> v = DoActive \<or> v = DoPassive \<or> v = DoOff \<or> v = DoVote"

definition checkPhaseAsk :: "string \<Rightarrow> string \<Rightarrow> string \<Rightarrow> err option" where
  "checkPhaseAsk v phase apply' =
     (if phase = [] then None else guards
        [(\<not> controlVerb v, Err ''phase'' ''is only for active, passive, vote and off''),
         (phase \<noteq> PhaseRequest \<and> phase \<noteq> PhaseResponse \<and> phase \<noteq> PhaseFrame,
          Err ''phase'' ''must be request, response or frame''),
         (apply' = ApplyConn \<and> phase \<noteq> PhaseFrame, Err ''phase'' ''apply conn needs phase frame'')])"

definition Asks :: "outcome \<Rightarrow> bool" where
  "Asks x \<longleftrightarrow> oc_do x \<noteq> []"

definition OnBucket :: "outcome \<Rightarrow> bool" where
  "OnBucket x \<longleftrightarrow> oc_on x = OnLevel \<and> oc_if x \<noteq> None"

definition Subject :: "outcome \<Rightarrow> string" where
  "Subject x = (if oc_write x = [] then WriteAddr else oc_write x)"

definition MatchesLevel :: "outcome \<Rightarrow> f64 \<Rightarrow> bool \<Rightarrow> bool" where
  "MatchesLevel x percent ok =
     (case oc_at x of
        None \<Rightarrow> False
      | Some a \<Rightarrow> if \<not> OnBucket x \<or> \<not> ok then False
          else if oc_below x then flt percent (f64_of_int a) else fle (f64_of_int a) percent)"

definition OutcomeMatches :: "outcome \<Rightarrow> string \<Rightarrow> int \<Rightarrow> bool" where
  "OutcomeMatches x verdict score =
     (if oc_on x = OnAllow then verdict = VerdictAllow
      else if oc_on x = OnDeny then verdict = VerdictDeny
      else if oc_on x = OnScore then
        (case oc_at x of None \<Rightarrow> False
         | Some a \<Rightarrow> if verdict \<noteq> VerdictScore then False
             else if oc_eq x then score = a
             else if oc_below x then score < a else score \<ge> a)
      else False)"

definition Axis :: "outcome \<Rightarrow> string" where
  "Axis x =
     (if oc_apply x \<noteq> [] then oc_apply x
      else case outcomeVerbs (oc_do x) of
             None \<Rightarrow> []
           | Some axes \<Rightarrow> if length axes = 1 \<or> auditVerb (oc_do x) then hd axes else [])"

definition checkCode :: "string \<Rightarrow> err option" where
  "checkCode code =
     (if code = [] then None else if \<not> codeRe code then Some (Err ''code'' ''is not a code'') else None)"

section \<open>Validation of an outcome\<close>

text \<open>\<open>*p == 0\<close> or \<open>p == nil\<close>; and a value present outside its range.\<close>

definition zero_or_nil :: "int option \<Rightarrow> bool" where
  "zero_or_nil v = (case v of None \<Rightarrow> True | Some n \<Rightarrow> n = 0)"

definition outside :: "int option \<Rightarrow> int \<Rightarrow> int \<Rightarrow> bool" where
  "outside v lo hi = (case v of None \<Rightarrow> False | Some n \<Rightarrow> n < lo \<or> n > hi)"

definition validate_audit :: "string \<Rightarrow> outcome \<Rightarrow> err option" where
  "validate_audit w x =
     and_then
       (guards
         [(oc_to x \<noteq> [] \<and> oc_to x \<noteq> ''*'', Err w ''takes no to: the module writes its own record''),
          (oc_set x \<noteq> ''on'' \<and> oc_set x \<noteq> ''off'', Err w ''needs set: on or off''),
          (oc_set x = ''off'' \<and> (oc_ttl x \<noteq> 0 \<or> oc_when x \<noteq> [] \<or> oc_headers x \<noteq> None \<or>
             oc_args x \<noteq> None \<or> oc_body x \<noteq> None), Err w ''ttl, when and objects are only for set on''),
          (oc_do x = DoAudit \<and> (oc_ttl x \<noteq> 0 \<or> oc_when x \<noteq> []), Err w ''ttl and when are only for archive'')])
     (and_then (case CheckArchiveWhen (oc_when x) of Inl e \<Rightarrow> Some e | Inr _ \<Rightarrow> None)
     (and_then
       (guards [(oc_apply x = ApplyResponse \<and> oc_args x \<noteq> None,
                 Err w ''args has no meaning for the response record'')])
     (and_then (CheckObjectSpec ''headers'' (oc_headers x))
     (and_then (CheckObjectSpec ''args'' (oc_args x))
               (CheckObjectSpec ''body'' (oc_body x))))))"

definition validateOutcomeAsk :: "string \<Rightarrow> outcome \<Rightarrow> err option" where
  "validateOutcomeAsk w x =
     (if oc_on x = OnDeny \<and> \<not> recordVerb (oc_do x)
      then Some (Err w ''deny ends the phase, an ask has nowhere to go'')
      else case outcomeVerbs (oc_do x) of
        None \<Rightarrow> Some (Err w ''unknown verb'')
      | Some axes \<Rightarrow>
          and_then
            (guards
              [(oc_apply x \<noteq> [] \<and> \<not> hasString axes (oc_apply x), Err w ''verb does not take apply''),
               (oc_apply x = [] \<and> length axes \<noteq> 1 \<and> \<not> auditVerb (oc_do x), Err w ''needs apply''),
               (controlVerb (oc_do x) \<and> oc_to x = [], Err w ''needs to'')])
          (and_then (checkPhaseAsk (oc_do x) (oc_phase x) (Axis x))
          (and_then
            (guards
              [(outside (oc_delta x) (- 100) 900, Err w ''delta is out of -100..900 percent''),
               (outside (oc_value x) (- 100) 100, Err w ''value is out of -100..100 percent''),
               (oc_do x = DoThreshold \<and> zero_or_nil (oc_delta x), Err w ''threshold needs a non-zero delta''),
               (oc_do x = DoNote \<and> zero_or_nil (oc_value x), Err w ''note needs a non-zero value''),
               (oc_do x = DoScore \<and> oc_to x \<noteq> [] \<and> oc_to x \<noteq> ''*'',
                Err w ''takes no to: the module adds to its own sum''),
               (oc_do x = DoScore \<and> zero_or_nil (oc_value x), Err w ''score needs a non-zero value''),
               (oc_counter x \<noteq> [] \<and> oc_do x \<noteq> DoNote, Err w ''counter is only for note''),
               (oc_counter x \<noteq> [] \<and> \<not> nameRe (oc_counter x), Err w ''bad counter name'')])
          (and_then
            (if oc_do x = DoMutate then guards
               [(oc_group x = [], Err w ''mutate needs a group''),
                (\<not> nameRe (oc_group x), Err w ''bad group name''),
                (oc_set x \<noteq> ''on'' \<and> oc_set x \<noteq> ''off'', Err w ''mutate needs set: on or off'')]
             else guards
               [(oc_group x \<noteq> [] \<or> (oc_set x \<noteq> [] \<and> \<not> auditVerb (oc_do x)),
                 Err w ''group and set are only for mutate'')])
          (and_then
            (if oc_do x = DoMark
             then and_then (guards [(oc_to x \<noteq> [] \<and> oc_to x \<noteq> ''*'',
                                     Err w ''takes no to: the module marks its own record'')])
                           (CheckMarker (oc_marker x))
             else guards [(oc_marker x \<noteq> [], Err w ''marker is only for mark'')])
          (and_then (if auditVerb (oc_do x) then validate_audit w x else None)
            (guards [(\<not> auditVerb (oc_do x) \<and> (oc_when x \<noteq> [] \<or> oc_headers x \<noteq> None \<or>
                        oc_args x \<noteq> None \<or> oc_body x \<noteq> None),
                      Err w ''when, headers, args and body are only for audit and archive'')])))))))"

definition outcome_on_check :: "string \<Rightarrow> outcome \<Rightarrow> err option" where
  "outcome_on_check section x =
     (let w = section @ ''.outcomes'' in
      if oc_on x = OnDeny \<or> oc_on x = OnAllow then guards
        [(oc_at x \<noteq> None, Err w ''at is only for on: score or level''),
         (oc_below x \<or> oc_eq x, Err w ''below and eq are only for on: score or level'')]
      else if oc_on x = OnScore then guards
        [(oc_at x = None, Err w ''on: score needs at''),
         (outside (oc_at x) 0 100, Err w ''at is out of 0..100''),
         (oc_below x \<and> oc_eq x, Err w ''below and eq are mutually exclusive'')]
      else if oc_on x = OnLevel then
        (case oc_if x of
           None \<Rightarrow> Some (Err w ''on: level needs if.counter'')
         | Some i \<Rightarrow> guards
             [(oi_counter i = [], Err w ''on: level needs if.counter''),
              (\<not> hasString knownAxes (oi_axis i), Err w ''if.axis must be a known axis''),
              (oc_at x = None, Err w ''on: level needs at''),
              (outside (oc_at x) 0 100, Err w ''at is out of 0..100 percent''),
              (oc_eq x, Err w ''eq is only for on: score'')])
      else if oc_on x = OnOverload then
        and_then (guards [(section \<noteq> ''request'', Err w ''on: overload is only for the request section'')])
        (and_then (Check (oc_at x))
          (guards [(oc_below x \<or> oc_eq x, Err w ''below and eq are only for on: score or level'')]))
      else Some (Err w ''unknown on''))"

definition validateOutcome :: "string \<Rightarrow> outcome \<Rightarrow> err option" where
  "validateOutcome section x =
     (let w = section @ ''.outcomes'' in
      and_then (outcome_on_check section x)
      (and_then (guards [(oc_if x \<noteq> None \<and> oc_on x \<noteq> OnLevel, Err w ''if is only for on: level'')])
      (and_then (checkCode (oc_code x))
      (and_then (guards [(Asks x \<and> oc_list x \<noteq> [], Err w ''do and list are mutually exclusive'')])
        (if Asks x then
           and_then (validateOutcomeAsk w x)
             (guards
               [(oc_apply x = ApplyConn \<and> section \<noteq> ''frame'', Err w ''apply conn is only for the frame section''),
                (oc_apply x = ApplyResponse \<and> section = ''frame'', Err w ''apply response is not for the frame section'')])
         else guards
           [(oc_list x = [], Err w ''neither do nor list''),
            (\<not> nameRe (oc_list x), Err w ''bad dataset name''),
            (oc_write x \<noteq> [] \<and> oc_write x \<noteq> WriteAddr \<and> oc_write x \<noteq> WriteNet \<and>
               oc_write x \<noteq> WriteNetAll \<and> oc_write x \<noteq> WriteASN, Err w ''write must be addr, net, net_all or asn''),
            (oc_ttl x \<le> 0, Err w ''list needs ttl'')])))))"

section \<open>Listening to other inspectors\<close>

record prior_rule =
  pr_from :: string
  pr_accept :: "string list"
  pr_apply :: "string list"
  pr_codes :: "string list"
  pr_counter :: string

definition Accepts :: "prior_rule \<Rightarrow> string \<Rightarrow> bool" where
  "Accepts r verb = list_ex (\<lambda>v. v = verb) (pr_accept r)"

definition WantsAxis :: "prior_rule \<Rightarrow> string \<Rightarrow> bool" where
  "WantsAxis r axis = (if pr_apply r = [] then True else list_ex (\<lambda>a. a = axis) (pr_apply r))"

definition WantsCode :: "prior_rule \<Rightarrow> string \<Rightarrow> bool" where
  "WantsCode r code = (if pr_codes r = [] then True else list_ex (\<lambda>c. c = code) (pr_codes r))"

definition check_verb :: "string \<Rightarrow> err option" where
  "check_verb verb =
     (if verb = ''threshold'' \<or> verb = ''skip'' \<or> verb = ''note'' then None
      else if verb = ''challenge'' \<or> verb = ''reauth'' then Some (Err ''trigger.prior'' ''is not ours to apply'')
      else Some (Err ''trigger.prior'' ''unknown verb''))"

definition check_prior_axis :: "prior_rule \<Rightarrow> string \<Rightarrow> err option" where
  "check_prior_axis r axis =
     (if axis = ''request'' then
        (if \<not> Accepts r ''threshold'' \<and> \<not> Accepts r ''skip''
         then Some (Err ''trigger.prior'' ''axis never hits a bucket'') else None)
      else if axis = ''ip'' \<or> axis = ''asn'' \<or> axis = ''session'' then
        (if \<not> Accepts r ''note'' then Some (Err ''trigger.prior'' ''axis never occurs'') else None)
      else Some (Err ''trigger.prior'' ''unknown axis''))"

definition validatePrior :: "prior_rule \<Rightarrow> err option" where
  "validatePrior r =
     and_then
       (guards [(pr_from r = [], Err ''trigger.prior'' ''from is empty''),
                (pr_accept r = [], Err ''trigger.prior'' ''accept is required'')])
     (and_then (first_err (\<lambda>_. check_verb) 0 (pr_accept r))
     (and_then (first_err (\<lambda>_. check_prior_axis r) 0 (pr_apply r))
     (and_then
       (if Accepts r ''note'' then guards
          [(pr_counter r = [], Err ''trigger.prior'' ''counter is required for note''),
           (\<not> nameRe (pr_counter r), Err ''trigger.prior'' ''bad counter name'')]
        else guards [(pr_counter r \<noteq> [], Err ''trigger.prior'' ''counter is only for note'')])
       (guards [(pr_from r = AnyInspector, Err ''trigger.prior'' ''needs a named sender'')]))))"

end
