(* ===== verification/Profile_Rules.thy ===== *)
theory Profile_Rules
  imports Profile
begin

text \<open>
  The second half of \<open>internal/config/profile.go\<close>: a whole profile, the validation of its
  judge and measure rules, and the validation against the declared counters.  \<open>Validate\<close>
  stores the compiled expression into the measure rule, so it returns the profile.
\<close>

section \<open>A profile\<close>

record frame_phase =
  fph_enabled :: bool
  fph_measure :: "measure_rule list"
  fph_judge :: "judge_rule list"
  fph_deny_response :: string
  fph_outcomes :: "outcome list"

record request_phase =
  rph_enabled :: bool
  rph_judge :: "judge_rule list"
  rph_deny_response :: string
  rph_outcomes :: "outcome list"

record response_phase =
  sph_enabled :: bool
  sph_measure :: "measure_rule list"

record profile =
  pf_name :: string
  pf_mode :: string
  pf_description :: string
  pf_prior :: "prior_rule list"
  pf_request :: request_phase
  pf_response :: response_phase
  pf_frame :: frame_phase

definition defaults :: "string \<Rightarrow> profile" where
  "defaults name =
     \<lparr>pf_name = name, pf_mode = ModeEnforce, pf_description = [], pf_prior = [],
      pf_request = \<lparr>rph_enabled = True, rph_judge = [], rph_deny_response = DefaultDenyResponse, rph_outcomes = []\<rparr>,
      pf_response = \<lparr>sph_enabled = True, sph_measure = []\<rparr>,
      pf_frame = \<lparr>fph_enabled = True, fph_measure = [], fph_judge = [],
        fph_deny_response = DefaultFrameDenyResponse, fph_outcomes = []\<rparr>\<rparr>"

text \<open>The decoder fills a profile of defaults; the name comes from the directory, not the file.\<close>

definition ParseProfile :: "(string \<Rightarrow> profile \<Rightarrow> profile option) \<Rightarrow> string \<Rightarrow> string \<Rightarrow> err + profile" where
  "ParseProfile decode name raw =
     (case decode raw (defaults name) of None \<Rightarrow> Inl (Err name ''decode'')
      | Some p \<Rightarrow> Inr (p\<lparr>pf_name := name\<rparr>))"

section \<open>Judge rules\<close>

definition validateJudge :: "string \<Rightarrow> judge_rule \<Rightarrow> bool \<Rightarrow> err option" where
  "validateJudge section r frame =
     (let w = section @ ''.judge'' in
      and_then
        (guards
          [(jr_counter r = [], Err w ''counter is required''),
           (\<not> hasString knownAxes (jr_axis r), Err w ''axis must be a known axis''),
           (jr_axis r = AxisConn \<and> \<not> frame, Err w ''axis conn is only for the frame phase''),
           (flt (jr_at r) (Fin 0) \<or> flt (Fin 100) (jr_at r), Err w ''at is out of 0..100 percent'')])
      (and_then
        (if jr_action r = ActionDeny then guards [(jr_score r \<noteq> 0, Err w ''score is only for action: score'')]
         else if jr_action r = ActionScore then guards
           [(jr_score r < 1 \<or> jr_score r > 100, Err w ''score must be within 1..100'')]
         else Some (Err w ''action must be score or deny''))
        (checkCode (jr_code r))))"

definition validateJudges :: "string \<Rightarrow> judge_rule list \<Rightarrow> string \<Rightarrow> bool \<Rightarrow> err option" where
  "validateJudges section rules denyResponse frame =
     and_then (first_err (\<lambda>_ r. validateJudge section r frame) 0 rules)
       (guards [(list_ex (\<lambda>r. jr_action r = ActionDeny) rules \<and> denyResponse = [],
                 Err section ''deny_response is required when a judge rule is deny'')])"

section \<open>Measure rules\<close>

definition measure_source :: "(string \<Rightarrow> bool) \<Rightarrow> string \<Rightarrow> measure_rule \<Rightarrow> err + measure_rule" where
  "measure_source compiles w m =
     (if mr_source m = SourceConst \<or> mr_source m = SourceSizeKB \<or> mr_source m = SourceBytes then
        (if mr_regex m \<noteq> [] then Inl (Err w ''regex is only for source: regex_count'') else Inr m)
      else if mr_source m = SourceRegexCount then
        (if mr_regex m = [] then Inl (Err w ''source regex_count needs regex'')
         else if \<not> compiles (mr_regex m) then Inl (Err w ''regex does not compile'')
         else Inr (m\<lparr>mr_re := Some (mr_regex m)\<rparr>))
      else Inl (Err w ''source must be const, regex_count, size_kb or bytes''))"

definition validate_match :: "string \<Rightarrow> match \<Rightarrow> bool \<Rightarrow> err option" where
  "validate_match w i frame =
     (if frame then
        and_then (guards [(length (mt_status i) + length (mt_content_type i) + length (mt_methods i) \<noteq> 0,
                           Err w ''not frame selectors'')])
        (and_then (first_err (\<lambda>_ d. if d \<noteq> DirectionC2S \<and> d \<noteq> DirectionS2C
                      then Some (Err w ''if.direction must be c2s or s2c'') else None) 0 (mt_direction i))
          (first_err (\<lambda>_ p. if p \<noteq> OpcodeText \<and> p \<noteq> OpcodeBinary \<and> p \<noteq> OpcodeContinuation
             then Some (Err w ''if.opcode must be text, binary or continuation'') else None) 0 (mt_opcode i)))
      else
        and_then (guards [(length (mt_direction i) + length (mt_opcode i) \<noteq> 0,
                           Err w ''if.direction and if.opcode are frame selectors'')])
        (and_then (first_err (\<lambda>_ meth. if \<not> methodRe meth
                      then Some (Err w ''if.methods: not an upper-case method'') else None) 0 (mt_methods i))
          (first_err (\<lambda>_ st. if st < 100 \<or> st > 599
             then Some (Err w ''if.status is not an HTTP status'') else None) 0 (mt_status i))))"

definition measure_axis :: "string \<Rightarrow> bool \<Rightarrow> string \<Rightarrow> err option" where
  "measure_axis w frame axis = guards
     [(\<not> hasString knownAxes axis, Err w ''axis must be a known axis''),
      (axis = AxisConn \<and> \<not> frame, Err w ''axis conn is only for the frame phase'')]"

definition validateMeasure ::
    "(string \<Rightarrow> bool) \<Rightarrow> string \<Rightarrow> measure_rule \<Rightarrow> bool \<Rightarrow> err + measure_rule" where
  "validateMeasure compiles section m frame =
     (let w = section @ ''.measure'' in
      if mr_counter m = [] then Inl (Err w ''counter is required'')
      else case measure_source compiles w m of
        Inl e \<Rightarrow> Inl e
      | Inr m1 \<Rightarrow>
          (case and_then (guards [(feq (Weight m1) (Fin 0), Err w ''per must not be zero'')])
                 (and_then (first_err (\<lambda>_. measure_axis w frame) 0 (mr_axes m1))
                   (validate_match w (mr_if m1) frame)) of
             Some e \<Rightarrow> Inl e
           | None \<Rightarrow> Inr m1))"

fun validateMeasures ::
    "(string \<Rightarrow> bool) \<Rightarrow> string \<Rightarrow> bool \<Rightarrow> measure_rule list \<Rightarrow> err + measure_rule list" where
  "validateMeasures compiles section frame [] = Inr []"
| "validateMeasures compiles section frame (m # ms) =
     (case validateMeasure compiles section m frame of
        Inl e \<Rightarrow> Inl e
      | Inr m' \<Rightarrow> (case validateMeasures compiles section frame ms of
          Inl e \<Rightarrow> Inl e | Inr ms' \<Rightarrow> Inr (m' # ms')))"

section \<open>\<open>Validate\<close>\<close>

definition validate_static :: "profile \<Rightarrow> err option" where
  "validate_static p =
     and_then (guards [(pf_mode p \<notin> {ModeEnforce, ModeObserve, ModeOff},
                        Err ''mode'' ''must be enforce, observe or off'')])
     (and_then (first_err (\<lambda>_. validatePrior) 0 (pf_prior p))
     (and_then (first_err (\<lambda>_. validateOutcome ''request'') 0 (rph_outcomes (pf_request p)))
               (first_err (\<lambda>_. validateOutcome ''frame'') 0 (fph_outcomes (pf_frame p)))))"

definition validate_active :: "profile \<Rightarrow> err option" where
  "validate_active p =
     and_then (guards [(\<not> rph_enabled (pf_request p) \<and> \<not> sph_enabled (pf_response p) \<and> \<not> fph_enabled (pf_frame p),
                        Err (pf_name p) ''all phases are disabled'')])
     (and_then (validateJudges ''request'' (rph_judge (pf_request p)) (rph_deny_response (pf_request p)) False)
               (validateJudges ''frame'' (fph_judge (pf_frame p)) (fph_deny_response (pf_frame p)) True))"

definition Validate :: "(string \<Rightarrow> bool) \<Rightarrow> profile \<Rightarrow> err + profile" where
  "Validate compiles p =
     (case validate_static p of
        Some e \<Rightarrow> Inl e
      | None \<Rightarrow>
          if pf_mode p = ModeOff then Inr p
          else (case validate_active p of
            Some e \<Rightarrow> Inl e
          | None \<Rightarrow>
              (case validateMeasures compiles ''response'' False (sph_measure (pf_response p)) of
                 Inl e \<Rightarrow> Inl e
               | Inr ms \<Rightarrow>
                   (case validateMeasures compiles ''frame'' True (fph_measure (pf_frame p)) of
                      Inl e \<Rightarrow> Inl e
                    | Inr fs \<Rightarrow>
                        Inr (p\<lparr>pf_response := (pf_response p)\<lparr>sph_measure := ms\<rparr>,
                               pf_frame := (pf_frame p)\<lparr>fph_measure := fs\<rparr>\<rparr>)))))"

section \<open>\<open>ValidateAgainst\<close>\<close>

definition judge_declared :: "counters \<Rightarrow> string \<Rightarrow> judge_rule \<Rightarrow> err option" where
  "judge_declared c w r =
     (if \<not> HasAxis c (jr_counter r) (jr_axis r) then Some (Err w ''counter has no such axis declared'') else None)"

definition measure_declared :: "counters \<Rightarrow> string \<Rightarrow> measure_rule \<Rightarrow> err option" where
  "measure_declared c w m =
     and_then
       (guards
         [(map_of (cs_counters c) (mr_counter m) = None, Err w ''counter is not declared''),
          (FillOf c (mr_counter m) \<noteq> FillMeasure, Err w ''neighbours fill it, measure would be a second owner'')])
       (first_err (\<lambda>_ axis. if \<not> HasAxis c (mr_counter m) axis then Some (Err w ''counter has no axis'') else None)
          0 (mr_axes m))"

definition outcome_declared :: "counters \<Rightarrow> string \<Rightarrow> outcome \<Rightarrow> err option" where
  "outcome_declared c w x =
     (if \<not> OnBucket x then None
      else case oc_if x of None \<Rightarrow> None
        | Some i \<Rightarrow> if \<not> HasAxis c (oi_counter i) (oi_axis i)
                    then Some (Err w ''counter has no such axis declared'') else None)"

definition prior_declared :: "counters \<Rightarrow> prior_rule \<Rightarrow> err option" where
  "prior_declared c r =
     (if \<not> Accepts r ''note'' then None
      else guards
        [(map_of (cs_counters c) (pr_counter r) = None, Err ''trigger.prior'' ''counter is not declared''),
         (FillOf c (pr_counter r) \<noteq> FillNote, Err ''trigger.prior'' ''measure fills it, notes would be a second owner''),
         (NoteAxes c (pr_counter r) ApplyIP = [] \<and> NoteAxes c (pr_counter r) ApplyASN = [] \<and>
          NoteAxes c (pr_counter r) ApplySession = [],
          Err ''trigger.prior'' ''counter has no axis the channel can reach'')])"

definition ValidateAgainst :: "profile \<Rightarrow> counters \<Rightarrow> err option" where
  "ValidateAgainst p c =
     (if pf_mode p = ModeOff then None else
      and_then (first_err (\<lambda>_. judge_declared c ''request.judge'') 0 (rph_judge (pf_request p)))
      (and_then (first_err (\<lambda>_. measure_declared c ''response.measure'') 0 (sph_measure (pf_response p)))
      (and_then (first_err (\<lambda>_. outcome_declared c ''request.outcomes'') 0 (rph_outcomes (pf_request p)))
      (and_then (first_err (\<lambda>_. judge_declared c ''frame.judge'') 0 (fph_judge (pf_frame p)))
      (and_then (first_err (\<lambda>_. measure_declared c ''frame.measure'') 0 (fph_measure (pf_frame p)))
      (and_then (first_err (\<lambda>_. outcome_declared c ''frame.outcomes'') 0 (fph_outcomes (pf_frame p)))
                (first_err (\<lambda>_. prior_declared c) 0 (pf_prior p))))))))"

end
