(* ===== verification/Decide.thy ===== *)
theory Decide
  imports Profile_Rules
begin

text \<open>
  \<open>internal/decide/decide.go\<close>: the judgement over the levels of the buckets, and the outcomes
  that a verdict, a level or an overloaded queue sets off.  A \<open>LevelLookup\<close> is a function;
  the \<open>nil\<close> that \<open>Fire\<close> checks for is \<open>None\<close>.
\<close>

section \<open>Codes\<close>

abbreviation CodeLevel :: string where "CodeLevel \<equiv> ''COUNTER_LEVEL''"
abbreviation CodeObserve :: string where "CodeObserve \<equiv> ''COUNTER_OBSERVE''"
abbreviation CodeUnknownProfile :: string where "CodeUnknownProfile \<equiv> ''COUNTER_UNKNOWN_PROFILE''"
abbreviation CodeSkipped :: string where "CodeSkipped \<equiv> ''COUNTER_SKIPPED''"
abbreviation CodePhaseNotSupported :: string where "CodePhaseNotSupported \<equiv> ''COUNTER_PHASE_NOT_SUPPORTED''"
abbreviation CodePhaseDisabled :: string where "CodePhaseDisabled \<equiv> ''COUNTER_PHASE_DISABLED''"
abbreviation CodeProfileOff :: string where "CodeProfileOff \<equiv> ''COUNTER_PROFILE_OFF''"
abbreviation CodeMeasured :: string where "CodeMeasured \<equiv> ''COUNTER_MEASURED''"
abbreviation CodeInternalError :: string where "CodeInternalError \<equiv> ''COUNTER_INTERNAL_ERROR''"
abbreviation CodeBucketsUnavailable :: string where "CodeBucketsUnavailable \<equiv> ''COUNTER_BUCKETS_UNAVAILABLE''"
abbreviation CodeStoreUnavailable :: string where "CodeStoreUnavailable \<equiv> ''COUNTER_STORE_UNAVAILABLE''"
abbreviation CodeGeoUnavailable :: string where "CodeGeoUnavailable \<equiv> ''COUNTER_GEO_UNAVAILABLE''"
abbreviation CodeMalformedRequest :: string where "CodeMalformedRequest \<equiv> ''COUNTER_MALFORMED_REQUEST''"
abbreviation CodeUnsupportedVersion :: string where "CodeUnsupportedVersion \<equiv> ''COUNTER_UNSUPPORTED_VERSION''"

section \<open>The judgement\<close>

record decision =
  dc_verdict :: string
  dc_score :: int
  dc_code :: string
  dc_deny_response :: string
  dc_would_verdict :: string
  dc_would_score :: int
  dc_would_code :: string

type_synonym level_lookup = "string \<Rightarrow> string \<Rightarrow> f64 \<times> string \<times> bool"

record rule_audit =
  ra_counter :: string
  ra_axis :: string
  ra_key :: string
  ra_percent :: f64
  ra_at :: f64
  ra_fired :: bool
  ra_action :: string
  ra_code :: string
  ra_no_subject :: bool

definition allowed :: decision where
  "allowed = \<lparr>dc_verdict = VerdictAllow, dc_score = 0, dc_code = [], dc_deny_response = [],
     dc_would_verdict = [], dc_would_score = 0, dc_would_code = []\<rparr>"

definition codeOf :: "judge_rule \<Rightarrow> string" where
  "codeOf r = (if jr_code r = [] then CodeLevel else jr_code r)"

definition take_rule :: "string \<Rightarrow> decision \<Rightarrow> judge_rule \<Rightarrow> decision" where
  "take_rule denyResponse d r =
     (if jr_action r = ActionDeny
      then d\<lparr>dc_verdict := VerdictDeny, dc_score := 0, dc_code := codeOf r, dc_deny_response := denyResponse\<rparr>
      else if dc_verdict d = VerdictDeny then d
      else if dc_verdict d \<noteq> VerdictScore \<or> jr_score r > dc_score d
      then d\<lparr>dc_verdict := VerdictScore, dc_score := jr_score r, dc_code := codeOf r\<rparr>
      else d)"

definition judge_row :: "judge_rule \<Rightarrow> rule_audit" where
  "judge_row r = \<lparr>ra_counter = jr_counter r, ra_axis = jr_axis r, ra_key = [], ra_percent = Fin 0,
     ra_at = jr_at r, ra_fired = False, ra_action = jr_action r, ra_code = codeOf r, ra_no_subject = False\<rparr>"

definition judge_rule_step ::
    "level_lookup \<Rightarrow> string \<Rightarrow> judge_rule \<Rightarrow> decision \<Rightarrow> decision \<times> rule_audit" where
  "judge_rule_step lookup denyResponse r d =
     (case lookup (jr_counter r) (jr_axis r) of (percent, key, ok) \<Rightarrow>
        if \<not> ok then (d, (judge_row r)\<lparr>ra_no_subject := True\<rparr>)
        else let row = (judge_row r)\<lparr>ra_percent := percent, ra_key := key\<rparr> in
          if flt percent (jr_at r) then (d, row)
          else (take_rule denyResponse d r, row\<lparr>ra_fired := True\<rparr>))"

fun judge_loop ::
    "level_lookup \<Rightarrow> string \<Rightarrow> judge_rule list \<Rightarrow> decision \<Rightarrow> decision \<times> rule_audit list" where
  "judge_loop lookup denyResponse [] d = (d, [])"
| "judge_loop lookup denyResponse (r # rs) d =
     (let (d1, row) = judge_rule_step lookup denyResponse r d;
          (d2, rows) = judge_loop lookup denyResponse rs d1
      in (d2, row # rows))"

definition observe :: "string \<Rightarrow> decision \<Rightarrow> decision" where
  "observe mode d =
     (if mode = ModeObserve \<and> dc_verdict d \<noteq> VerdictAllow
      then d\<lparr>dc_would_verdict := dc_verdict d, dc_would_score := dc_score d, dc_would_code := dc_code d,
             dc_verdict := VerdictAllow, dc_score := 0, dc_code := CodeObserve, dc_deny_response := []\<rparr>
      else d)"

definition judge ::
    "judge_rule list \<Rightarrow> string \<Rightarrow> string \<Rightarrow> level_lookup \<Rightarrow> decision \<times> rule_audit list" where
  "judge rules denyResponse mode lookup =
     (if rules = [] then (allowed, [])
      else case judge_loop lookup denyResponse rules allowed of (d, rows) \<Rightarrow> (observe mode d, rows))"

definition denyResponseOf :: "profile \<Rightarrow> string" where
  "denyResponseOf p =
     (if rph_deny_response (pf_request p) \<noteq> [] then rph_deny_response (pf_request p) else DefaultDenyResponse)"

definition frameDenyResponseOf :: "profile \<Rightarrow> string" where
  "frameDenyResponseOf p =
     (if fph_deny_response (pf_frame p) \<noteq> [] then fph_deny_response (pf_frame p) else DefaultFrameDenyResponse)"

definition Judge :: "profile \<Rightarrow> level_lookup \<Rightarrow> decision \<times> rule_audit list" where
  "Judge p lookup = judge (rph_judge (pf_request p)) (denyResponseOf p) (pf_mode p) lookup"

definition JudgeFrame :: "profile \<Rightarrow> level_lookup \<Rightarrow> decision \<times> rule_audit list" where
  "JudgeFrame p lookup = judge (fph_judge (pf_frame p)) (frameDenyResponseOf p) (pf_mode p) lookup"

section \<open>Outcomes\<close>

record ban =
  bn_dataset :: string
  bn_write :: string
  bn_addr :: string
  bn_ttl :: int
  bn_reason :: string

record level_audit =
  la_counter :: string
  la_axis :: string
  la_key :: string
  la_percent :: f64
  la_at :: int
  la_below :: bool
  la_fired :: bool
  la_no_subject :: bool

record fired =
  fi_actions :: "action list"
  fi_bans :: "ban list"
  fi_names :: "string list"
  fi_levels :: "level_audit list"

definition no_fired :: fired where
  "no_fired = \<lparr>fi_actions = [], fi_bans = [], fi_names = [], fi_levels = []\<rparr>"

definition outcome_reason :: "outcome \<Rightarrow> string \<Rightarrow> string" where
  "outcome_reason x code = (if oc_code x \<noteq> [] then oc_code x else code)"

definition outcomeName :: "outcome \<Rightarrow> string" where
  "outcomeName x = (if Asks x then oc_do x else oc_list x)"

definition int_of :: "int option \<Rightarrow> int" where
  "int_of v = (case v of None \<Rightarrow> 0 | Some n \<Rightarrow> n)"

definition ask :: "outcome \<Rightarrow> string \<Rightarrow> action" where
  "ask x code =
     \<lparr>ac_to = oc_to x, ac_do = oc_do x, ac_apply = Axis x, ac_phase = oc_phase x,
      ac_code = outcome_reason x code, ac_delta = int_of (oc_delta x), ac_value = int_of (oc_value x),
      ac_counter = oc_counter x, ac_marker = oc_marker x, ac_group = oc_group x, ac_set = oc_set x,
      ac_ttl = (if oc_do x = DoArchive \<and> oc_set x = ''on'' \<and> oc_ttl x > 0 then Some (oc_ttl x) else None),
      ac_when = (if oc_do x = DoArchive \<and> oc_set x = ''on'' \<and> oc_when x \<noteq> []
                 then (case CheckArchiveWhen (oc_when x) of Inl _ \<Rightarrow> [] | Inr w \<Rightarrow> w) else []),
      ac_headers = oc_headers x, ac_args = oc_args x, ac_body = oc_body x\<rparr>"

definition level_row :: "outcome \<Rightarrow> level_audit" where
  "level_row x =
     (case oc_if x of
        None \<Rightarrow> \<lparr>la_counter = [], la_axis = [], la_key = [], la_percent = Fin 0, la_at = int_of (oc_at x),
                la_below = oc_below x, la_fired = False, la_no_subject = False\<rparr>
      | Some i \<Rightarrow> \<lparr>la_counter = oi_counter i, la_axis = oi_axis i, la_key = [], la_percent = Fin 0,
                la_at = int_of (oc_at x), la_below = oc_below x, la_fired = False, la_no_subject = False\<rparr>)"

text \<open>\<open>Fired.level\<close>, called on outcomes that name a bucket: the row it appends, and whether it fired.\<close>

definition fire_level :: "outcome \<Rightarrow> level_lookup option \<Rightarrow> level_audit" where
  "fire_level x lookup =
     (let row = level_row x in
      case lookup of
        None \<Rightarrow> row\<lparr>la_no_subject := True\<rparr>
      | Some f \<Rightarrow>
          (case f (la_counter row) (la_axis row) of (percent, key, ok) \<Rightarrow>
             if \<not> ok then row\<lparr>la_no_subject := True\<rparr>
             else row\<lparr>la_percent := percent, la_key := key, la_fired := MatchesLevel x percent ok\<rparr>))"

definition add_outcome :: "outcome \<Rightarrow> string \<Rightarrow> string \<Rightarrow> fired \<Rightarrow> fired" where
  "add_outcome x addr code f =
     (if Asks x
      then f\<lparr>fi_actions := fi_actions f @ [ask x code], fi_names := fi_names f @ [outcomeName x]\<rparr>
      else if addr = [] then f
      else f\<lparr>fi_bans := fi_bans f @ [\<lparr>bn_dataset = oc_list x, bn_write = Subject x, bn_addr = addr,
                                        bn_ttl = oc_ttl x, bn_reason = outcome_reason x code\<rparr>],
             fi_names := fi_names f @ [outcomeName x]\<rparr>)"

fun fire_loop ::
    "string \<Rightarrow> int \<Rightarrow> string \<Rightarrow> string \<Rightarrow> level_lookup option \<Rightarrow> outcome list \<Rightarrow> fired \<Rightarrow> fired" where
  "fire_loop verdict score code addr lookup [] f = f"
| "fire_loop verdict score code addr lookup (x # xs) f =
     fire_loop verdict score code addr lookup xs
       (if OnBucket x then
          (let row = fire_level x lookup; f1 = f\<lparr>fi_levels := fi_levels f @ [row]\<rparr>
           in if la_fired row then add_outcome x addr code f1 else f1)
        else if OutcomeMatches x verdict score then add_outcome x addr code f else f)"

definition Fire :: "outcome list \<Rightarrow> decision \<Rightarrow> string \<Rightarrow> level_lookup option \<Rightarrow> fired" where
  "Fire outcomes d addr lookup =
     (if outcomes = [] then no_fired
      else if dc_would_verdict d \<noteq> []
      then fire_loop (dc_would_verdict d) (dc_would_score d) (dc_would_code d) addr lookup outcomes no_fired
      else fire_loop (dc_verdict d) (dc_score d) (dc_code d) addr lookup outcomes no_fired)"

definition FireOverload :: "outcome list \<Rightarrow> int \<Rightarrow> bool \<Rightarrow> string \<Rightarrow> string \<Rightarrow> fired" where
  "FireOverload outcomes fill shed addr code =
     foldl (\<lambda>f x. if oc_on x \<noteq> OnOverload \<or> \<not> Fires (At (oc_at x)) fill shed then f
                  else add_outcome x addr code f) no_fired outcomes"

end
