(* ===== verification/Decide_Laws.thy ===== *)
theory Decide_Laws
  imports Decide
begin

text \<open>
  What \<open>internal/decide/decide.go\<close> promises: the judgement is the strongest of the rules that
  fired, observing only reports it, and higher levels never weaken it; the actions and bans
  of a validated profile are well-formed.
\<close>

section \<open>The rules that fire\<close>

definition fires :: "level_lookup \<Rightarrow> judge_rule \<Rightarrow> bool" where
  "fires lookup r =
     (case lookup (jr_counter r) (jr_axis r) of (percent, _, ok) \<Rightarrow> ok \<and> \<not> flt percent (jr_at r))"

definition is_deny :: "judge_rule \<Rightarrow> bool" where
  "is_deny r \<longleftrightarrow> jr_action r = ActionDeny"

definition denied :: "string \<Rightarrow> judge_rule list \<Rightarrow> decision" where
  "denied denyResponse F =
     allowed\<lparr>dc_verdict := VerdictDeny, dc_code := codeOf (last (filter is_deny F)),
             dc_deny_response := denyResponse\<rparr>"

definition scored_by :: "judge_rule \<Rightarrow> decision" where
  "scored_by r = allowed\<lparr>dc_verdict := VerdictScore, dc_score := jr_score r, dc_code := codeOf r\<rparr>"

definition strongest :: "judge_rule list \<Rightarrow> nat \<Rightarrow> bool" where
  "strongest F i \<longleftrightarrow> i < length F \<and> (\<forall>j < length F. jr_score (F ! j) \<le> jr_score (F ! i)) \<and>
     (\<forall>j < i. jr_score (F ! j) < jr_score (F ! i))"

text \<open>The specification: what the fired rules, in order, decide.\<close>

definition verdict_of :: "string \<Rightarrow> judge_rule list \<Rightarrow> decision \<Rightarrow> bool" where
  "verdict_of denyResponse F d =
     (if list_ex is_deny F then d = denied denyResponse F
      else if F = [] then d = allowed
      else \<exists>i. strongest F i \<and> d = scored_by (F ! i))"

lemma judge_rule_step_fires:
  "fst (judge_rule_step lookup dr r d) = (if fires lookup r then take_rule dr d r else d) \<and>
   ra_fired (snd (judge_rule_step lookup dr r d)) = fires lookup r"
  by (cases "lookup (jr_counter r) (jr_axis r)")
     (auto simp: judge_rule_step_def fires_def judge_row_def Let_def)

lemma judge_loop_fold:
  "fst (judge_loop lookup dr rs d) = foldl (take_rule dr) d (filter (fires lookup) rs) \<and>
   map ra_fired (snd (judge_loop lookup dr rs d)) = map (fires lookup) rs"
proof (induction rs arbitrary: d)
  case Nil
  then show ?case by simp
next
  case (Cons r rs)
  then show ?case using judge_rule_step_fires [of lookup dr r d]
    by (simp add: Let_def case_prod_unfold)
qed

lemma list_ex_snoc [simp]: "list_ex P (xs @ [x]) \<longleftrightarrow> list_ex P xs \<or> P x"
  by (induction xs) auto

lemma strongest_keep:
  "strongest F i \<Longrightarrow> jr_score r \<le> jr_score (F ! i) \<Longrightarrow> strongest (F @ [r]) i"
  by (auto simp: strongest_def nth_append less_Suc_eq)

lemma strongest_new:
  "strongest F i \<Longrightarrow> jr_score (F ! i) < jr_score r \<Longrightarrow> strongest (F @ [r]) (length F)"
  by (fastforce simp: strongest_def nth_append less_Suc_eq)

lemma take_deny:
  "is_deny r \<Longrightarrow> take_rule dr d r =
     d\<lparr>dc_verdict := VerdictDeny, dc_score := 0, dc_code := codeOf r, dc_deny_response := dr\<rparr>"
  by (simp add: take_rule_def is_deny_def)

lemma take_after_deny: "\<not> is_deny r \<Longrightarrow> dc_verdict d = VerdictDeny \<Longrightarrow> take_rule dr d r = d"
  by (simp add: take_rule_def is_deny_def)

lemma take_first: "\<not> is_deny r \<Longrightarrow> take_rule dr allowed r = scored_by r"
  by (simp add: take_rule_def is_deny_def scored_by_def allowed_def)

lemma take_score:
  "\<not> is_deny r \<Longrightarrow>
   take_rule dr (scored_by q) r = (if jr_score q < jr_score r then scored_by r else scored_by q)"
  by (simp add: take_rule_def is_deny_def scored_by_def allowed_def)

lemma verdict_of_snoc:
  assumes "verdict_of dr F d"
  shows "verdict_of dr (F @ [r]) (take_rule dr d r)"
proof (cases "is_deny r")
  case True
  have "d = denied dr F \<or> d = allowed \<or> (\<exists>q. d = scored_by q)"
    using assms by (auto simp: verdict_of_def split: if_splits)
  then have "take_rule dr d r = denied dr (F @ [r])"
    by (auto simp: take_deny [OF True] denied_def allowed_def scored_by_def True)
  with True show ?thesis by (simp add: verdict_of_def)
next
  case no: False
  show ?thesis
  proof (cases "list_ex is_deny F")
    case True
    with assms have d: "d = denied dr F" by (simp add: verdict_of_def)
    have "take_rule dr d r = d" by (rule take_after_deny [OF no]) (simp add: d denied_def)
    with True no d show ?thesis by (simp add: verdict_of_def denied_def)
  next
    case nodeny: False
    show ?thesis
    proof (cases "F = []")
      case True
      with assms nodeny have "d = allowed" by (simp add: verdict_of_def)
      with True no show ?thesis by (simp add: verdict_of_def take_first strongest_def)
    next
      case False
      with assms nodeny obtain i where i: "strongest F i" "d = scored_by (F ! i)"
        by (auto simp: verdict_of_def)
      then have len: "i < length F" by (simp add: strongest_def)
      show ?thesis
      proof (cases "jr_score (F ! i) < jr_score r")
        case True
        then have "take_rule dr d r = scored_by ((F @ [r]) ! length F)" by (simp add: i(2) take_score [OF no])
        with strongest_new [OF i(1) True] no nodeny show ?thesis by (auto simp: verdict_of_def)
      next
        case le: False
        then have "take_rule dr d r = scored_by ((F @ [r]) ! i)"
          using len by (simp add: i(2) take_score [OF no] nth_append)
        moreover have "strongest (F @ [r]) i" using strongest_keep [OF i(1), of r] le by simp
        ultimately show ?thesis using no nodeny by (auto simp: verdict_of_def)
      qed
    qed
  qed
qed

lemma take_verdict: "verdict_of dr F (foldl (take_rule dr) allowed F)"
  by (induction F rule: rev_induct) (simp_all add: verdict_of_snoc, simp add: verdict_of_def)

lemma judge_enforced:
  "mode \<noteq> ModeObserve \<Longrightarrow>
   fst (judge rules dr mode lookup) = foldl (take_rule dr) allowed (filter (fires lookup) rules)"
  using judge_loop_fold [of lookup dr rules allowed]
  by (auto simp: judge_def observe_def split: prod.splits)

lemma judge_observed:
  "fst (judge rules dr ModeObserve lookup) = observe ModeObserve (fst (judge rules dr ModeEnforce lookup))"
  by (auto simp: judge_def observe_def allowed_def split: prod.splits)

section \<open>How strong a decision is\<close>

text \<open>Deny is above every score, a score above allow.\<close>

definition strength :: "decision \<Rightarrow> int" where
  "strength d = (if dc_verdict d = VerdictDeny then 101 else if dc_verdict d = VerdictScore then dc_score d else 0)"

definition rule_strength :: "judge_rule \<Rightarrow> int" where
  "rule_strength r = (if is_deny r then 101 else jr_score r)"

definition judges_ok :: "judge_rule list \<Rightarrow> bool" where
  "judges_ok rs \<longleftrightarrow> list_all (\<lambda>r. is_deny r \<or> (1 \<le> jr_score r \<and> jr_score r \<le> 100)) rs"

lemma strength_upper:
  assumes "verdict_of dr F d" and "judges_ok F"
  shows "(\<forall>r \<in> set F. rule_strength r \<le> strength d) \<and> (strength d = 0 \<or> (\<exists>r \<in> set F. strength d = rule_strength r))"
proof (cases "list_ex is_deny F")
  case True
  with assms(1) have "strength d = 101" by (simp add: verdict_of_def denied_def strength_def)
  with True assms(2) show ?thesis
    by (force simp: rule_strength_def judges_ok_def list_all_iff list_ex_iff)
next
  case no: False
  then have r: "rule_strength r = jr_score r" if "r \<in> set F" for r
    using that by (auto simp: rule_strength_def list_ex_iff)
  show ?thesis
  proof (cases "F = []")
    case True
    with no assms(1) have "strength d = 0" by (simp add: verdict_of_def strength_def allowed_def)
    with True show ?thesis by simp
  next
    case False
    with no assms(1) obtain i where i: "strongest F i" "d = scored_by (F ! i)" by (auto simp: verdict_of_def)
    then have d: "strength d = jr_score (F ! i)" "F ! i \<in> set F"
      by (simp_all add: strength_def scored_by_def strongest_def)
    moreover have "\<forall>q \<in> set F. jr_score q \<le> jr_score (F ! i)"
      using i(1) by (auto simp: strongest_def in_set_conv_nth)
    ultimately show ?thesis using r by auto
  qed
qed

lemma strength_mono:
  assumes "verdict_of dr F d" and "verdict_of dr' G e" and "set F \<subseteq> set G" and "judges_ok G"
  shows "strength d \<le> strength e"
proof -
  have F: "judges_ok F" using assms(3,4) by (auto simp: judges_ok_def list_all_iff)
  have "0 \<le> strength e"
    using strength_upper [OF assms(2,4)] assms(4)
    by (auto simp: judges_ok_def list_all_iff rule_strength_def split: if_splits)
  then show ?thesis using strength_upper [OF assms(1) F] strength_upper [OF assms(2,4)] assms(3) by force
qed

section \<open>Well-formed actions and bans\<close>

definition action_ok :: "string \<Rightarrow> action \<Rightarrow> bool" where
  "action_ok section a \<longleftrightarrow>
     (\<exists>axes. outcomeVerbs (ac_do a) = Some axes \<and> ac_apply a \<in> set axes) \<and>
     - 100 \<le> ac_delta a \<and> ac_delta a \<le> 900 \<and> - 100 \<le> ac_value a \<and> ac_value a \<le> 100 \<and>
     (ac_do a = DoThreshold \<longrightarrow> ac_delta a \<noteq> 0) \<and> (ac_do a = DoNote \<or> ac_do a = DoScore \<longrightarrow> ac_value a \<noteq> 0) \<and>
     (controlVerb (ac_do a) \<longrightarrow> ac_to a \<noteq> []) \<and> (ac_do a = DoMark \<longrightarrow> CheckMarker (ac_marker a) = None) \<and>
     (ac_apply a = ApplyConn \<longrightarrow> section = ''frame'') \<and>
     (case ac_ttl a of None \<Rightarrow> True | Some t \<Rightarrow> 0 < t \<and> ac_do a = DoArchive) \<and>
     distinct (ac_when a) \<and> set (ac_when a) \<subseteq> {''allow'', ''deny''}"

definition ban_ok :: "string \<Rightarrow> ban \<Rightarrow> bool" where
  "ban_ok addr b \<longleftrightarrow> bn_addr b = addr \<and> addr \<noteq> [] \<and> nameRe (bn_dataset b) \<and> 0 < bn_ttl b \<and>
     bn_write b \<in> {WriteAddr, WriteNet, WriteNetAll, WriteASN}"

definition fired_ok :: "string \<Rightarrow> string \<Rightarrow> fired \<Rightarrow> bool" where
  "fired_ok section addr f \<longleftrightarrow>
     list_all (action_ok section) (fi_actions f) \<and> list_all (ban_ok addr) (fi_bans f) \<and>
     length (fi_names f) = length (fi_actions f) + length (fi_bans f)"

lemma valid_ask:
  assumes "validateOutcomeAsk w x = None"
  obtains axes where "outcomeVerbs (oc_do x) = Some axes"
    "oc_apply x = [] \<or> oc_apply x \<in> set axes" "oc_apply x \<noteq> [] \<or> length axes = 1 \<or> auditVerb (oc_do x)"
    "controlVerb (oc_do x) \<Longrightarrow> oc_to x \<noteq> []"
    "\<not> outside (oc_delta x) (- 100) 900" "\<not> outside (oc_value x) (- 100) 100"
    "oc_do x = DoThreshold \<Longrightarrow> \<not> zero_or_nil (oc_delta x)"
    "oc_do x = DoNote \<or> oc_do x = DoScore \<Longrightarrow> \<not> zero_or_nil (oc_value x)"
    "oc_do x = DoMark \<Longrightarrow> CheckMarker (oc_marker x) = None"
proof -
  from assms obtain axes where a: "outcomeVerbs (oc_do x) = Some axes"
    by (cases "outcomeVerbs (oc_do x)") (simp_all add: validateOutcomeAsk_def split: if_splits)
  note v = assms [unfolded validateOutcomeAsk_def a option.case]
  show ?thesis
    by (rule that [OF a])
       (use v in \<open>simp_all add: hasString_def [symmetric] split: if_splits\<close>, (auto split: if_splits)?)
qed

lemma outcomeVerbs_nonempty: "outcomeVerbs v = Some axes \<Longrightarrow> axes \<noteq> []"
  by (auto simp: outcomeVerbs_def split: if_splits)

lemma int_of_range: "\<not> outside v lo hi \<Longrightarrow> lo \<le> 0 \<Longrightarrow> 0 \<le> hi \<Longrightarrow> lo \<le> int_of v \<and> int_of v \<le> hi"
  by (auto simp: outside_def int_of_def split: option.splits)

lemma int_of_nonzero: "\<not> zero_or_nil v \<Longrightarrow> int_of v \<noteq> 0"
  by (auto simp: zero_or_nil_def int_of_def split: option.splits)

lemma Axis_listed:
  assumes "outcomeVerbs (oc_do x) = Some axes" and "oc_apply x = [] \<or> oc_apply x \<in> set axes"
    and "oc_apply x \<noteq> [] \<or> length axes = 1 \<or> auditVerb (oc_do x)"
  shows "Axis x \<in> set axes"
  using assms outcomeVerbs_nonempty [OF assms(1)] by (auto simp: Axis_def)

lemma Axis_conn:
  assumes "Axis x = ApplyConn" and "outcomeVerbs (oc_do x) = Some axes"
  shows "oc_apply x = ApplyConn"
proof (rule ccontr)
  assume "oc_apply x \<noteq> ApplyConn"
  with assms have "hd axes = ApplyConn" by (auto simp: Axis_def split: if_splits)
  moreover have "hd axes \<noteq> ApplyConn"
    using assms(2) by (auto simp: outcomeVerbs_def split: if_splits)
  ultimately show False by simp
qed

lemma ask_when:
  "distinct (ac_when (ask x code)) \<and> set (ac_when (ask x code)) \<subseteq> {''allow'', ''deny''}"
proof -
  have "distinct w \<and> set w \<subseteq> {''allow'', ''deny''}" if "CheckArchiveWhen ws = Inr w" for ws w
  proof -
    from that obtain P where w: "w = filter P ArchiveWhen"
      unfolding CheckArchiveWhen_def by (metis (no_types, lifting) Inr_inject sum.case_eq_if sum.distinct(1))
    have "distinct ArchiveWhen" "set ArchiveWhen = {''allow'', ''deny''}" by simp_all
    with w show ?thesis using distinct_filter filter_is_subset by metis
  qed
  moreover have either: "(if c then a else b) \<in> {b, a}" for c and a b :: "string list" by simp
  have "ac_when (ask x code) \<in> {[], (case CheckArchiveWhen (oc_when x) of Inl _ \<Rightarrow> [] | Inr w \<Rightarrow> w)}"
    unfolding ask_def action.simps by (rule either)
  ultimately show ?thesis by (cases "CheckArchiveWhen (oc_when x)") fastforce+
qed

lemma valid_outcome_ask:
  assumes "validateOutcome section x = None" and "Asks x"
  shows "action_ok section (ask x code)"
proof -
  have v: "validateOutcomeAsk (section @ ''.outcomes'') x = None"
    and conn: "oc_apply x = ApplyConn \<Longrightarrow> section = ''frame''"
    using assms by (simp_all add: validateOutcome_def Let_def)
  have f: "ac_do (ask x code) = oc_do x" "ac_apply (ask x code) = Axis x" "ac_to (ask x code) = oc_to x"
    "ac_delta (ask x code) = int_of (oc_delta x)" "ac_value (ask x code) = int_of (oc_value x)"
    "ac_marker (ask x code) = oc_marker x"
    "ac_ttl (ask x code) =
       (if oc_do x = DoArchive \<and> oc_set x = ''on'' \<and> oc_ttl x > 0 then Some (oc_ttl x) else None)"
    by (simp_all add: ask_def)
  from v show ?thesis
  proof (rule valid_ask)
    fix axes
    assume a: "outcomeVerbs (oc_do x) = Some axes" "oc_apply x = [] \<or> oc_apply x \<in> set axes"
        "oc_apply x \<noteq> [] \<or> length axes = 1 \<or> auditVerb (oc_do x)"
      and w: "controlVerb (oc_do x) \<Longrightarrow> oc_to x \<noteq> []" "\<not> outside (oc_delta x) (- 100) 900"
        "\<not> outside (oc_value x) (- 100) 100" "oc_do x = DoThreshold \<Longrightarrow> \<not> zero_or_nil (oc_delta x)"
        "oc_do x = DoNote \<or> oc_do x = DoScore \<Longrightarrow> \<not> zero_or_nil (oc_value x)"
        "oc_do x = DoMark \<Longrightarrow> CheckMarker (oc_marker x) = None"
    show ?thesis
      unfolding action_ok_def f
      using Axis_listed [OF a] a(1) w ask_when int_of_range [OF w(2)] int_of_range [OF w(3)] int_of_nonzero
        conn Axis_conn [OF _ a(1)]
      by (intro conjI) auto
  qed
qed

lemma valid_outcome_ban:
  assumes "validateOutcome section x = None" and "\<not> Asks x" and "addr \<noteq> []"
  shows "ban_ok addr \<lparr>bn_dataset = oc_list x, bn_write = Subject x, bn_addr = addr,
           bn_ttl = oc_ttl x, bn_reason = outcome_reason x code\<rparr>"
  using assms by (auto simp: validateOutcome_def Let_def ban_ok_def Subject_def)

lemma add_outcome_ok:
  assumes "validateOutcome section x = None" and "fired_ok section addr f"
  shows "fired_ok section addr (add_outcome x addr code f)"
  using assms valid_outcome_ask [OF assms(1)] valid_outcome_ban [OF assms(1)]
  by (cases "Asks x"; cases "addr = []") (simp_all add: add_outcome_def fired_ok_def)

lemma fired_ok_levels: "fired_ok section addr (f\<lparr>fi_levels := ls\<rparr>) = fired_ok section addr f"
  by (simp add: fired_ok_def)

lemma no_fired_ok: "fired_ok section addr no_fired"
  by (simp add: fired_ok_def no_fired_def)

lemma fire_loop_ok:
  "\<forall>x \<in> set xs. validateOutcome section x = None \<Longrightarrow> fired_ok section addr f \<Longrightarrow>
   fired_ok section addr (fire_loop verdict score code addr lookup xs f)"
proof (induction xs arbitrary: f)
  case Nil
  then show ?case by simp
next
  case (Cons x xs)
  have x: "validateOutcome section x = None" using Cons.prems(1) by simp
  show ?case
    unfolding fire_loop.simps Let_def
    by (rule Cons.IH) (use Cons.prems x in \<open>simp_all add: add_outcome_ok fired_ok_levels\<close>)
qed

lemma FireOverload_ok:
  assumes "\<forall>x \<in> set xs. validateOutcome section x = None"
  shows "fired_ok section addr (FireOverload xs fill shed addr code)"
proof -
  have "fired_ok section addr (foldl (\<lambda>f x. if oc_on x \<noteq> OnOverload \<or> \<not> Fires (At (oc_at x)) fill shed then f
          else add_outcome x addr code f) f xs)" if "fired_ok section addr f" for f
    using assms that
  proof (induction xs arbitrary: f)
    case Nil
    then show ?case by simp
  next
    case (Cons x xs)
    then show ?case by (simp add: add_outcome_ok)
  qed
  then show ?thesis by (simp add: FireOverload_def no_fired_ok)
qed

lemma Fire_ok:
  "\<forall>x \<in> set xs. validateOutcome section x = None \<Longrightarrow> fired_ok section addr (Fire xs d addr lookup)"
  by (simp add: Fire_def no_fired_ok fire_loop_ok)

section \<open>Properties\<close>

lemma validated_judges_ok: "validateJudges section rules dr frame = None \<Longrightarrow> judges_ok rules"
  by (fastforce simp: validateJudges_def first_err_const validateJudge_def Let_def judges_ok_def is_deny_def
      list_all_iff split: if_splits)

fun rises :: "f64 \<times> string \<times> bool \<Rightarrow> f64 \<times> string \<times> bool \<Rightarrow> bool" where
  "rises (p, _, ok) (p', _, ok') \<longleftrightarrow> ok = ok' \<and> (ok \<longrightarrow> fle p p')"

lemma fle_flt_trans: "fle p p' \<Longrightarrow> flt p' q \<Longrightarrow> flt p q"
  by (cases p; cases p'; cases q) (auto simp: fle_def feq_def)

lemma fires_mono:
  assumes "\<And>c a. rises (L c a) (L' c a)" and "fires L r"
  shows "fires L' r"
  using assms(1) [of "jr_counter r" "jr_axis r"] assms(2) fle_flt_trans
  by (fastforce simp: fires_def split: prod.splits)

lemma Fire_shadow:
  "dc_verdict d = VerdictAllow \<or> dc_verdict d = VerdictDeny \<or> dc_verdict d = VerdictScore \<Longrightarrow>
   dc_would_verdict d = [] \<Longrightarrow> Fire xs (observe ModeObserve d) addr lookup = Fire xs d addr lookup"
  by (auto simp: Fire_def observe_def)

lemma verdict_of_fields:
  "verdict_of dr F d \<Longrightarrow>
   (dc_verdict d = VerdictAllow \<or> dc_verdict d = VerdictDeny \<or> dc_verdict d = VerdictScore) \<and>
   dc_would_verdict d = [] \<and> (dc_verdict d = VerdictAllow \<longrightarrow> d = allowed)"
  by (auto simp: verdict_of_def denied_def allowed_def scored_by_def split: if_splits)

text \<open>Two rules over one bucket, the second of which denies, as the profiles of the repository have them.\<close>

definition two_rules :: "judge_rule list" where
  "two_rules =
     [\<lparr>jr_counter = ''api'', jr_axis = ''ip'', jr_at = Fin 50, jr_action = ''score'', jr_score = 40, jr_code = []\<rparr>,
      \<lparr>jr_counter = ''api'', jr_axis = ''ip'', jr_at = Fin 80, jr_action = ''deny'', jr_score = 0, jr_code = ''FULL''\<rparr>]"

lemma two_rules_valid: "validateJudges ''request'' two_rules ''counter_limit'' False = None"
  by code_simp

text \<open>
  C13 (functional): the judgement is what the rules that fired decide, whatever the others say:
  the code of the last deny rule if any denies, otherwise the first rule of the highest score,
  otherwise an allow without a code.
\<close>

theorem judge_strongest_rule:
  assumes "mode \<noteq> ModeObserve"
  shows "verdict_of dr (filter (fires lookup) rules) (fst (judge rules dr mode lookup))"
  unfolding judge_enforced [OF assms] by (rule take_verdict)

theorem judge_strongest_rule_witness:
  "dc_verdict (fst (judge two_rules ''counter_limit'' ''enforce'' (\<lambda>_ _. (Fin 60, ''k'', True)))) = VerdictScore"
  using judge_strongest_rule [of "''enforce''" "''counter_limit''" "\<lambda>_ _. (Fin 60, ''k'', True)" two_rules]
  by (simp add: two_rules_def fires_def verdict_of_def is_deny_def scored_by_def) (auto simp: strongest_def)

text \<open>
  C33 (safety): observing lets every request through, records exactly what enforcing would have
  decided, and sets off the same outcomes.
\<close>

theorem observe_shadows_enforce:
  fixes rules dr lookup
  defines "e \<equiv> fst (judge rules dr ModeEnforce lookup)" and "w \<equiv> fst (judge rules dr ModeObserve lookup)"
  shows "dc_verdict w = VerdictAllow \<and> dc_score w = 0 \<and> dc_deny_response w = [] \<and>
    (dc_would_verdict w, dc_would_score w, dc_would_code w) =
      (if dc_verdict e = VerdictAllow then ([], 0, []) else (dc_verdict e, dc_score e, dc_code e)) \<and>
    Fire xs w addr look = Fire xs e addr look"
proof -
  have v: "verdict_of dr (filter (fires lookup) rules) e"
    unfolding e_def judge_enforced [of ModeEnforce, simplified] by (rule take_verdict)
  have w: "w = observe ModeObserve e" unfolding w_def e_def by (rule judge_observed)
  show ?thesis
    using verdict_of_fields [OF v] Fire_shadow [of e]
    by (cases "dc_verdict e = VerdictAllow") (auto simp: w observe_def allowed_def)
qed

text \<open>
  C30 (safety): with validated rules a fuller bucket never gets a milder verdict: when no level
  is lower than before, a score does not fall and a deny stays a deny.
\<close>

theorem judge_monotone:
  assumes "validateJudges section rules dr' frame = None" and "mode \<noteq> ModeObserve"
    and "\<And>c a. rises (L c a) (L' c a)"
  shows "strength (fst (judge rules dr mode L)) \<le> strength (fst (judge rules dr mode L'))"
proof (rule strength_mono)
  show "verdict_of dr (filter (fires L) rules) (fst (judge rules dr mode L))"
    and "verdict_of dr (filter (fires L') rules) (fst (judge rules dr mode L'))"
    unfolding judge_enforced [OF assms(2)] by (rule take_verdict)+
  show "set (filter (fires L) rules) \<subseteq> set (filter (fires L') rules)"
    using fires_mono [OF assms(3)] by auto
  show "judges_ok (filter (fires L') rules)"
    using validated_judges_ok [OF assms(1)] by (auto simp: judges_ok_def list_all_iff)
qed

theorem judge_monotone_witness:
  "strength (fst (judge two_rules ''counter_limit'' ''enforce'' (\<lambda>_ _. (Fin 60, ''k'', True)))) \<le>
   strength (fst (judge two_rules ''counter_limit'' ''enforce'' (\<lambda>_ _. (Fin 90, ''k'', True))))"
  by (rule judge_monotone [OF two_rules_valid]) simp_all

text \<open>
  The audit has one row for every rule, in order, and marks exactly those that
  fired: a rule whose subject is unknown never fires.
\<close>

theorem judge_audit_complete:
  "map ra_fired (snd (judge rules dr mode lookup)) = map (fires lookup) rules"
  using judge_loop_fold [of lookup dr rules allowed] by (auto simp: judge_def split: prod.splits)

text \<open>
  C29 (safety): whatever the verdict, the levels and the overload of the queue, a validated list
  of outcomes only sends actions that the protocol knows, with their parameters in range, and
  only bans of the client's own address with a lifetime and a well-formed name.
\<close>

theorem outcomes_wellformed:
  assumes "\<forall>x \<in> set xs. validateOutcome section x = None"
  shows "fired_ok section addr (Fire xs d addr lookup) \<and>
         fired_ok section addr (FireOverload xs fill shed addr code)"
  using assms by (simp add: Fire_ok FireOverload_ok)

definition ban_outcome :: outcome where
  "ban_outcome =
     \<lparr>oc_on = ''deny'', oc_at = None, oc_below = False, oc_eq = False, oc_if = None, oc_to = [], oc_do = [],
      oc_apply = [], oc_phase = [], oc_delta = None, oc_value = None, oc_counter = [], oc_group = [],
      oc_set = [], oc_headers = None, oc_args = None, oc_body = None, oc_when = [], oc_marker = [],
      oc_list = ''banned'', oc_write = ''net'', oc_ttl = 600, oc_code = []\<rparr>"

theorem outcomes_wellformed_witness:
  "fired_ok ''request'' ''192.0.2.7'' (Fire [ban_outcome] (denied ''counter_limit'' two_rules) ''192.0.2.7'' None) \<and>
   fi_names (Fire [ban_outcome] (denied ''counter_limit'' two_rules) ''192.0.2.7'' None) = [''banned'']"
proof -
  have "\<forall>x \<in> set [ban_outcome]. validateOutcome ''request'' x = None"
    by (simp only: list.set ball_simps) code_simp
  from outcomes_wellformed [OF this]
  have "fired_ok ''request'' ''192.0.2.7'' (Fire [ban_outcome] (denied ''counter_limit'' two_rules) ''192.0.2.7'' None)"
    by blast
  moreover have "fi_names (Fire [ban_outcome] (denied ''counter_limit'' two_rules) ''192.0.2.7'' None) = [''banned'']"
    by code_simp
  ultimately show ?thesis by (rule conjI)
qed

end
