(* ===== verification/Prior.thy ===== *)
theory Prior
  imports Profile_Rules
begin

text \<open>
  \<open>internal/decide/prior.go\<close>: what the verdicts of other inspectors ask of this one.  The
  threshold asks add up into a percentage, the notes become charges of the counters that the
  profile's rules name, and every action gets a row of the audit.
\<close>

abbreviation PercentMin :: int where "PercentMin \<equiv> - 100"
abbreviation PercentMax :: int where "PercentMax \<equiv> 900"
abbreviation OutcomeApplied :: string where "OutcomeApplied \<equiv> ''applied''"
abbreviation OutcomeNoRule :: string where "OutcomeNoRule \<equiv> ''no_rule''"
abbreviation OutcomeNoCounter :: string where "OutcomeNoCounter \<equiv> ''no_counter''"

record note_charge =
  nc_counter :: string
  nc_axis :: string
  nc_percent :: int
  nc_code :: string
  nc_from :: string

record action_outcome =
  ao_from :: string
  ao_do :: string
  ao_apply :: string
  ao_code :: string
  ao_delta :: int
  ao_value :: int
  ao_counter :: string
  ao_took :: int
  ao_outcome :: string

record asks =
  as_skip :: bool
  as_percent :: int
  as_notes :: "note_charge list"
  as_outcomes :: "action_outcome list"

definition no_asks :: asks where
  "no_asks = \<lparr>as_skip = False, as_percent = 0, as_notes = [], as_outcomes = []\<rparr>"

definition chargeHere :: "string \<Rightarrow> string \<Rightarrow> bool \<Rightarrow> bool" where
  "chargeHere recorded0 phase requestEnabled =
     (let recorded = (if recorded0 = [] then PhaseRequest else recorded0)
      in if recorded = phase then True
         else phase = PhaseResponse \<and> recorded = PhaseRequest \<and> \<not> requestEnabled)"

definition outcome_apply :: "int \<Rightarrow> action_outcome \<Rightarrow> action_outcome" where
  "outcome_apply took r = r\<lparr>ao_outcome := OutcomeApplied, ao_took := wrap64 (ao_took r + took)\<rparr>"

definition outcome_noCounter :: "action_outcome \<Rightarrow> action_outcome" where
  "outcome_noCounter r = (if ao_outcome r = OutcomeNoRule then r\<lparr>ao_outcome := OutcomeNoCounter\<rparr> else r)"

definition note_step ::
    "counters \<Rightarrow> prior_rule \<Rightarrow> action \<Rightarrow> string \<Rightarrow> asks \<times> action_outcome \<Rightarrow> asks \<times> action_outcome" where
  "note_step c r act from st =
     (case st of (a, row) \<Rightarrow>
        if ac_value act = 0 then (a, outcome_apply 0 row)
        else let axes = NoteAxes c (pr_counter r) (Scope act) in
          if axes = [] then (a, outcome_noCounter row)
          else (a\<lparr>as_notes := as_notes a @
                     map (\<lambda>axis. \<lparr>nc_counter = pr_counter r, nc_axis = axis, nc_percent = ac_value act,
                                  nc_code = ac_code act, nc_from = from\<rparr>) axes\<rparr>,
                outcome_apply (ac_value act) row))"

text \<open>Whether a rule listens to an action of a sender.\<close>

definition listens :: "prior_rule \<Rightarrow> string \<Rightarrow> action \<Rightarrow> bool" where
  "listens r from act =
     (if pr_from r \<noteq> from then False
      else if \<not> Accepts r (ac_do act) \<or> \<not> WantsAxis r (Scope act) \<or> \<not> WantsCode r (ac_code act) then False
      else if ac_do act = DoNote \<and> ac_counter act \<noteq> [] \<and> ac_counter act \<noteq> pr_counter r then False
      else True)"

definition deliver_rule ::
    "counters \<Rightarrow> string \<Rightarrow> action \<Rightarrow> asks \<times> action_outcome \<Rightarrow> prior_rule \<Rightarrow> asks \<times> action_outcome" where
  "deliver_rule c from act st r =
     (case st of (a, row) \<Rightarrow>
        if \<not> listens r from act then (a, row)
        else if ac_do act = DoSkip then (a\<lparr>as_skip := True\<rparr>, outcome_apply 0 row)
        else if ac_do act = DoThreshold
        then (a\<lparr>as_percent := wrap64 (as_percent a + ac_delta act)\<rparr>, outcome_apply (ac_delta act) row)
        else if ac_do act = DoNote then note_step c r act from (a, row)
        else (a, row))"

definition deliver_row :: "string \<Rightarrow> action \<Rightarrow> action_outcome" where
  "deliver_row from act =
     \<lparr>ao_from = from, ao_do = ac_do act, ao_apply = Scope act, ao_code = ac_code act, ao_delta = ac_delta act,
      ao_value = ac_value act, ao_counter = ac_counter act, ao_took = 0, ao_outcome = OutcomeNoRule\<rparr>"

definition deliver :: "counters \<Rightarrow> prior_rule list \<Rightarrow> string \<Rightarrow> asks \<Rightarrow> action \<Rightarrow> asks" where
  "deliver c rules from a act =
     (case foldl (deliver_rule c from act) (a, deliver_row from act) rules of
        (a', row) \<Rightarrow> a'\<lparr>as_outcomes := as_outcomes a' @ [row]\<rparr>)"

definition evaluate_action ::
    "counters \<Rightarrow> profile \<Rightarrow> string \<Rightarrow> prior_verdict \<Rightarrow> asks \<Rightarrow> action \<Rightarrow> asks" where
  "evaluate_action c p phase v a act =
     (if ac_do act = DoNote \<and> \<not> chargeHere (pv_phase v) phase (rph_enabled (pf_request p)) then a
      else deliver c (pf_prior p) (pv_inspector v) a act)"

definition clamp_percent :: "int \<Rightarrow> int" where
  "clamp_percent n =
     (let m = (if n < PercentMin then PercentMin else n) in if m > PercentMax then PercentMax else m)"

definition EvaluatePrior :: "prior_verdict list \<Rightarrow> profile option \<Rightarrow> counters \<Rightarrow> string \<Rightarrow> asks" where
  "EvaluatePrior entries po c phase =
     (case po of None \<Rightarrow> no_asks
      | Some p \<Rightarrow>
          (let a = foldl (\<lambda>a v. foldl (evaluate_action c p phase v) a (pv_actions v)) no_asks entries
           in a\<lparr>as_percent := clamp_percent (as_percent a)\<rparr>))"

section \<open>Scaling a score\<close>

definition ScaleScore :: "int \<Rightarrow> int \<Rightarrow> int" where
  "ScaleScore score percent =
     (if percent = 0 \<or> score \<le> 0 then max score 0
      else let scaled = f64_to_int (fround (fmul (f64_of_int score)
                          (fadd (Fin 1) (fdiv (f64_of_int percent) (Fin 100)))));
               scaled = (if scaled < 0 then 0 else scaled)
           in min scaled 100)"

end
