(* ===== verification/Prior_Laws.thy ===== *)
theory Prior_Laws
  imports Prior
begin

text \<open>
  What \<open>internal/decide/prior.go\<close> promises: the asks of a request as plain sums over the
  actions that a rule listens to, a note charged in one phase only, and a scaled score that
  stays a score.
\<close>

section \<open>The listened actions\<close>

definition heard :: "profile \<Rightarrow> string \<Rightarrow> prior_verdict list \<Rightarrow> (string \<times> action) list" where
  "heard p phase es =
     concat (map (\<lambda>v. map (Pair (pv_inspector v))
       (filter (\<lambda>act. ac_do act = DoNote \<longrightarrow> chargeHere (pv_phase v) phase (rph_enabled (pf_request p)))
          (pv_actions v))) es)"

definition rule_notes :: "counters \<Rightarrow> string \<Rightarrow> action \<Rightarrow> prior_rule \<Rightarrow> note_charge list" where
  "rule_notes c from act r =
     (if ac_do act = DoNote \<and> listens r from act \<and> ac_value act \<noteq> 0
      then map (\<lambda>axis. \<lparr>nc_counter = pr_counter r, nc_axis = axis, nc_percent = ac_value act,
                       nc_code = ac_code act, nc_from = from\<rparr>) (NoteAxes c (pr_counter r) (Scope act))
      else [])"

definition act_notes :: "counters \<Rightarrow> prior_rule list \<Rightarrow> string \<times> action \<Rightarrow> note_charge list" where
  "act_notes c rules fa = concat (map (rule_notes c (fst fa) (snd fa)) rules)"

definition act_percent :: "prior_rule list \<Rightarrow> string \<times> action \<Rightarrow> int" where
  "act_percent rules fa =
     (if ac_do (snd fa) = DoThreshold
      then sum_list (map (\<lambda>_. ac_delta (snd fa)) (filter (\<lambda>r. listens r (fst fa) (snd fa)) rules)) else 0)"

definition act_skip :: "prior_rule list \<Rightarrow> string \<times> action \<Rightarrow> bool" where
  "act_skip rules fa \<longleftrightarrow> ac_do (snd fa) = DoSkip \<and> list_ex (\<lambda>r. listens r (fst fa) (snd fa)) rules"

lemma wrap64_wrap_add: "wrap64 (wrap64 a + b) = wrap64 (a + b)"
proof -
  have "wrap64 a + b + 2 ^ 63 = (a + 2 ^ 63) mod 2 ^ 64 + b" by (simp add: wrap64_def)
  moreover have "((a + 2 ^ 63) mod 2 ^ 64 + b) mod 2 ^ 64 = (a + 2 ^ 63 + b) mod 2 ^ 64"
    by (rule mod_add_left_eq)
  ultimately have "(wrap64 a + b + 2 ^ 63) mod 2 ^ 64 = (a + b + 2 ^ 63) mod 2 ^ 64"
    by (simp only: ac_simps)
  then show ?thesis unfolding wrap64_def [of "wrap64 a + b"] wrap64_def [of "a + b"] by simp
qed

lemma wrap64_0 [simp]: "wrap64 0 = 0"
  by (simp add: wrap64_def)

text \<open>What one rule, then one action, does to the accumulated asks.\<close>

definition step_of :: "note_charge list \<Rightarrow> int \<Rightarrow> bool \<Rightarrow> asks \<Rightarrow> asks \<Rightarrow> bool" where
  "step_of notes pct skip a a' \<longleftrightarrow>
     as_notes a' = as_notes a @ notes \<and>
     wrap64 (as_percent a') = wrap64 (as_percent a + pct) \<and>
     (in64 (as_percent a) \<longrightarrow> in64 (as_percent a')) \<and>
     (as_skip a' \<longleftrightarrow> as_skip a \<or> skip)"

lemma step_of_refl: "step_of [] 0 False a a"
  by (simp add: step_of_def)

lemma wrap_chain:
  assumes "wrap64 y = wrap64 (x + p)" and "wrap64 z = wrap64 (y + q)"
  shows "wrap64 z = wrap64 (x + (p + q))"
proof -
  have "wrap64 z = wrap64 (wrap64 y + q)" by (simp only: assms(2) wrap64_wrap_add)
  also have "\<dots> = wrap64 (x + p + q)" by (simp only: assms(1) wrap64_wrap_add)
  finally show ?thesis by (simp only: add.assoc)
qed

lemma step_of_trans:
  "step_of n p s a b \<Longrightarrow> step_of n' p' s' b c \<Longrightarrow> step_of (n @ n') (p + p') (s \<or> s') a c"
  unfolding step_of_def
proof (elim conjE, intro conjI)
  assume "wrap64 (as_percent b) = wrap64 (as_percent a + p)" "wrap64 (as_percent c) = wrap64 (as_percent b + p')"
  then show "wrap64 (as_percent c) = wrap64 (as_percent a + (p + p'))" by (rule wrap_chain)
qed auto

lemma deliver_rule_step:
  "step_of (rule_notes c from act r) (act_percent [r] (from, act)) (act_skip [r] (from, act))
     (fst st) (fst (deliver_rule c from act st r)) \<and>
   as_outcomes (fst (deliver_rule c from act st r)) = as_outcomes (fst st)"
proof (cases st)
  case (Pair a row)
  show ?thesis
  proof (cases "listens r from act")
    case False
    then show ?thesis by (simp add: Pair deliver_rule_def step_of_def rule_notes_def act_percent_def act_skip_def)
  next
    case True
    consider "ac_do act = DoSkip" | "ac_do act = DoThreshold" | "ac_do act = DoNote"
      | "ac_do act \<notin> {DoSkip, DoThreshold, DoNote}" by auto
    then show ?thesis
      using True
      by cases (auto simp: Pair deliver_rule_def step_of_def rule_notes_def act_percent_def act_skip_def
          note_step_def Let_def wrap64_wrap_add [of _ 0, simplified])
  qed
qed

lemma deliver_fold:
  "step_of (act_notes c rules (from, act)) (act_percent rules (from, act)) (act_skip rules (from, act))
     (fst st) (fst (foldl (deliver_rule c from act) st rules)) \<and>
   as_outcomes (fst (foldl (deliver_rule c from act) st rules)) = as_outcomes (fst st)"
proof (induction rules arbitrary: st)
  case Nil
  then show ?case by (simp add: step_of_def act_notes_def act_percent_def act_skip_def)
next
  case (Cons r rules)
  let ?fa = "(from, act)"
  have "act_notes c (r # rules) ?fa = rule_notes c from act r @ act_notes c rules ?fa"
    "act_percent (r # rules) ?fa = act_percent [r] ?fa + act_percent rules ?fa"
    "act_skip (r # rules) ?fa = (act_skip [r] ?fa \<or> act_skip rules ?fa)"
    by (auto simp: act_notes_def act_percent_def act_skip_def)
  then show ?case
    using step_of_trans deliver_rule_step [of c "from" act r st] Cons.IH [of "deliver_rule c from act st r"]
    by simp blast
qed

lemma deliver_step:
  "step_of (act_notes c rules (from, act)) (act_percent rules (from, act)) (act_skip rules (from, act))
     a (deliver c rules from a act) \<and>
   length (as_outcomes (deliver c rules from a act)) = Suc (length (as_outcomes a))"
  using deliver_fold [of c rules "from" act "(a, deliver_row from act)"]
  by (simp add: deliver_def step_of_def case_prod_unfold)

lemma foldl_deliver:
  "step_of (concat (map (act_notes c rules) fas)) (sum_list (map (act_percent rules) fas))
     (list_ex (act_skip rules) fas) a (foldl (\<lambda>a fa. deliver c rules (fst fa) a (snd fa)) a fas) \<and>
   length (as_outcomes (foldl (\<lambda>a fa. deliver c rules (fst fa) a (snd fa)) a fas)) =
     length (as_outcomes a) + length fas"
proof (induction fas arbitrary: a)
  case Nil
  then show ?case by (simp add: step_of_refl)
next
  case (Cons fa fas)
  let ?b = "deliver c rules (fst fa) a (snd fa)"
  from deliver_step [of c rules "fst fa" "snd fa" a]
  have 1: "step_of (act_notes c rules fa) (act_percent rules fa) (act_skip rules fa) a ?b"
    and l: "length (as_outcomes ?b) = Suc (length (as_outcomes a))" by simp_all
  show ?case using step_of_trans [OF 1 conjunct1 [OF Cons.IH [of ?b]]] Cons.IH [of ?b] l by simp
qed

lemma evaluate_inner:
  "foldl (evaluate_action c p phase v) a acts =
   foldl (\<lambda>a fa. deliver c (pf_prior p) (fst fa) a (snd fa)) a
     (map (Pair (pv_inspector v))
       (filter (\<lambda>act. ac_do act = DoNote \<longrightarrow> chargeHere (pv_phase v) phase (rph_enabled (pf_request p))) acts))"
  by (induction acts arbitrary: a) (auto simp: evaluate_action_def)

lemma evaluate_heard:
  "foldl (\<lambda>a v. foldl (evaluate_action c p phase v) a (pv_actions v)) a es =
   foldl (\<lambda>a fa. deliver c (pf_prior p) (fst fa) a (snd fa)) a (heard p phase es)"
  by (induction es arbitrary: a) (simp_all add: heard_def evaluate_inner)

section \<open>Scaling\<close>

definition factor :: "int \<Rightarrow> rat" where
  "factor percent = rnd64 (1 + rnd64 (of_int percent / 100))"

lemma factor_Fin:
  assumes "- 100 \<le> percent" and "percent \<le> 900"
  shows "fadd (Fin 1) (fdiv (f64_of_int percent) (Fin 100)) = Fin (factor percent)"
    and "0 \<le> factor percent" and "factor percent \<le> 10"
proof -
  let ?q = "of_int percent / 100 :: rat"
  have q: "- 1 \<le> ?q" "?q \<le> 9" using assms by (simp_all add: field_simps flip: of_int_le_iff)
  have r: "- 1 \<le> rnd64 ?q" "rnd64 ?q \<le> 9"
    using r64.rnd_ge [of "- 1" ?q] r64.rnd_le [of ?q 9] q by simp_all
  have "f64_of_int percent = Fin (of_int percent)" using assms by (intro f64_of_int_small) simp
  moreover have "f64_of ?q = Fin (rnd64 ?q)"
    using q by (intro f64_of_bounded [where k = 4]) (simp_all add: abs_le_iff)
  moreover have "f64_of (1 + rnd64 ?q) = Fin (factor percent)"
    unfolding factor_def using r by (intro f64_of_bounded [where k = 4]) (simp_all add: abs_le_iff)
  ultimately show "fadd (Fin 1) (fdiv (f64_of_int percent) (Fin 100)) = Fin (factor percent)" by simp
  show "0 \<le> factor percent" "factor percent \<le> 10"
    unfolding factor_def using r64.rnd_nonneg [of "1 + rnd64 ?q"] r64.rnd_le [of "1 + rnd64 ?q" 10] r by simp_all
qed

lemma factor_mono: "p \<le> p' \<Longrightarrow> factor p \<le> factor p'"
  unfolding factor_def by (intro rnd64_mono add_left_mono) (simp add: divide_right_mono)

lemma factor_0: "factor 0 = 1"
  by (simp add: factor_def r64.rnd_one)

definition scaled_val :: "int \<Rightarrow> int \<Rightarrow> int" where
  "scaled_val s p = min 100 \<lfloor>rnd64 (of_int s * factor p) + 1/2\<rfloor>"

lemma scaled_product:
  assumes "0 \<le> s" "s \<le> 100" "- 100 \<le> p" "p \<le> 900"
  shows "0 \<le> rnd64 (of_int s * factor p)" and "rnd64 (of_int s * factor p) \<le> 1000"
    and "fmul (f64_of_int s) (Fin (factor p)) = Fin (rnd64 (of_int s * factor p))"
proof -
  note f = factor_Fin [OF assms(3,4)]
  have b: "0 \<le> of_int s * factor p" "of_int s * factor p \<le> 100 * 10"
    using assms(1,2) f(2,3) by (simp, intro mult_mono) simp_all
  show "0 \<le> rnd64 (of_int s * factor p)" "rnd64 (of_int s * factor p) \<le> 1000"
    using r64.rnd_nonneg [OF b(1)] r64.rnd_le [of "of_int s * factor p" 1000] b(2) by simp_all
  have "f64_of_int s = Fin (of_int s)" using assms by (intro f64_of_int_small) simp
  moreover have "f64_of (of_int s * factor p) = Fin (rnd64 (of_int s * factor p))"
    using b by (intro f64_of_bounded [where k = 10]) (simp_all add: abs_le_iff)
  ultimately show "fmul (f64_of_int s) (Fin (factor p)) = Fin (rnd64 (of_int s * factor p))" by simp
qed

lemma ScaleScore_val:
  assumes "0 \<le> s" "s \<le> 100" "- 100 \<le> p" "p \<le> 900"
  shows "ScaleScore s p = scaled_val s p"
proof -
  have id: "\<lfloor>of_int n + 1/2 :: rat\<rfloor> = n" for n by linarith
  consider (zero) "s = 0" | (one) "p = 0" | (calc) "0 < s" "p \<noteq> 0" using assms by linarith
  then show ?thesis
  proof cases
    case zero
    then show ?thesis using id [of 0] by (simp add: ScaleScore_def scaled_val_def r64.rnd_zero)
  next
    case one
    have "rnd64 (of_int s) = of_int s" using assms by (intro rnd64_of_int) simp
    with one assms show ?thesis by (simp add: ScaleScore_def scaled_val_def factor_0 id)
  next
    case calc
    let ?x = "rnd64 (of_int s * factor p)"
    note x = scaled_product [OF assms]
    have "0 \<le> \<lfloor>?x + 1/2\<rfloor>" "\<lfloor>?x + 1/2\<rfloor> \<le> 1001" using x(1,2) by linarith+
    moreover from this have "in64 \<lfloor>?x + 1/2\<rfloor>" by (simp add: in64_def)
    ultimately show ?thesis
      using calc x(1) by (simp add: ScaleScore_def factor_Fin(1) [OF assms(3,4)] x(3) scaled_val_def
          Let_def f64_to_int_of_int del: f64_to_int.simps)
  qed
qed

lemma scaled_val_mono:
  assumes "0 \<le> s" "s \<le> s'" "s' \<le> 100" "- 100 \<le> p" "p \<le> p'" "p' \<le> 900"
  shows "0 \<le> scaled_val s p" and "scaled_val s p \<le> scaled_val s' p'" and "scaled_val s' p' \<le> 100"
proof -
  have "of_int s * factor p \<le> of_int s' * factor p'"
    using assms factor_mono [OF assms(5)] factor_Fin(2) [of p] by (intro mult_mono) simp_all
  then have "rnd64 (of_int s * factor p) + 1/2 \<le> rnd64 (of_int s' * factor p') + 1/2" by (simp add: rnd64_mono)
  from floor_mono [OF this] show "scaled_val s p \<le> scaled_val s' p'"
    unfolding scaled_val_def by (rule min.mono [OF order_refl])
  have "0 \<le> rnd64 (of_int s * factor p)" using assms by (intro scaled_product(1)) simp_all
  then show "0 \<le> scaled_val s p" by (simp add: scaled_val_def)
qed (simp add: scaled_val_def)

section \<open>Properties\<close>

lemma clamp_percent_range: "PercentMin \<le> clamp_percent n \<and> clamp_percent n \<le> PercentMax"
  by (simp add: clamp_percent_def Let_def)

text \<open>
  C35 (functional): the asks of other inspectors, rule by rule and action by action in the loops
  of the code, amount to sums over the actions that are heard: the notes are exactly the
  charges of the listening rules, in order, a skip is asked when one listening rule takes it,
  the percentage is the clamped 64-bit sum of the listened deltas, and every heard action has
  one row of the audit.
\<close>

theorem prior_asks_exact:
  fixes es :: "prior_verdict list" and p :: profile and c :: counters and phase :: string
  defines "a \<equiv> EvaluatePrior es (Some p) c phase" and "H \<equiv> heard p phase es"
  shows "as_notes a = concat (map (act_notes c (pf_prior p)) H) \<and>
    as_skip a = list_ex (act_skip (pf_prior p)) H \<and>
    as_percent a = clamp_percent (wrap64 (sum_list (map (act_percent (pf_prior p)) H))) \<and>
    length (as_outcomes a) = length H \<and> PercentMin \<le> as_percent a \<and> as_percent a \<le> PercentMax"
proof -
  let ?b = "foldl (\<lambda>a fa. deliver c (pf_prior p) (fst fa) a (snd fa)) no_asks H"
  have a: "a = ?b\<lparr>as_percent := clamp_percent (as_percent ?b)\<rparr>"
    unfolding a_def H_def EvaluatePrior_def evaluate_heard by (simp add: Let_def)
  note s = foldl_deliver [of c "pf_prior p" H no_asks]
  have "in64 (as_percent ?b)" using s by (simp add: step_of_def no_asks_def in64_def)
  then have "as_percent ?b = wrap64 (sum_list (map (act_percent (pf_prior p)) H))"
    using s wrap64_id by (simp add: step_of_def no_asks_def)
  with s show ?thesis using clamp_percent_range by (simp add: a step_of_def no_asks_def)
qed

text \<open>
  A note of the request phase is charged once: by the request when the profile
  judges requests, otherwise by the response, and never by a frame.
\<close>

theorem note_charged_once:
  "recorded = [] \<or> recorded = PhaseRequest \<Longrightarrow>
   [phase \<leftarrow> [PhaseRequest, PhaseResponse, PhaseFrame].
      chargeHere recorded phase enabled \<and> (phase = PhaseRequest \<longrightarrow> enabled)] =
   [if enabled then PhaseRequest else PhaseResponse]"
  by (elim disjE; cases enabled; hypsubst; simp add: chargeHere_def Let_def)

theorem note_charged_once_witness:
  "[phase \<leftarrow> [PhaseRequest, PhaseResponse, PhaseFrame].
      chargeHere [] phase False \<and> (phase = PhaseRequest \<longrightarrow> False)] = [PhaseResponse]"
  using note_charged_once [of "[]" False] by simp

text \<open>
  For every score and every percentage that the inspector can see, the scaled score
  is a score again, and it grows with the score and with the percentage, through all the
  roundings of float64.
\<close>

theorem scaled_score_monotone:
  assumes "0 \<le> s" and "s \<le> s'" and "s' \<le> 100" and "- 100 \<le> p" and "p \<le> p'" and "p' \<le> 900"
  shows "0 \<le> ScaleScore s p \<and> ScaleScore s p \<le> ScaleScore s' p' \<and> ScaleScore s' p' \<le> 100"
  using scaled_val_mono [OF assms] assms by (simp add: ScaleScore_val)

theorem scaled_score_monotone_witness:
  "0 \<le> ScaleScore 33 (- 7) \<and> ScaleScore 33 (- 7) \<le> ScaleScore 40 150 \<and> ScaleScore 40 150 \<le> 100"
  by (rule scaled_score_monotone) simp_all

text \<open>The percentage is clamped only after the sum: two huge deltas wrap around to the minimum.\<close>

lemma threshold_sum_wraps: "clamp_percent (wrap64 (2 ^ 62 + 2 ^ 62)) = - 100"
  by (simp add: clamp_percent_def wrap64_def)

end
