(* ===== verification/Measure.thy ===== *)
theory Measure
  imports Profile_Rules
begin

text \<open>
  \<open>internal/measure/measure.go\<close>: what a measure rule takes from an answer or a frame.  The
  number of matches of a regular expression is a parameter of the model; a rule whose
  expression was never compiled would make the code panic, which is \<open>None\<close> here.
\<close>

record input =
  in_method :: string
  in_status :: int
  in_frame :: bool
  in_direction :: string
  in_opcode :: string
  in_content_type :: string
  in_body :: string
  in_body_truncated :: bool
  in_body_size :: int

record mvalue =
  va_counter :: string
  va_axes :: "string list"
  va_add :: f64

record measure_fired =
  mf_counter :: string
  mf_source :: string
  mf_value :: f64
  mf_axes :: "string list"
  mf_truncated :: bool

type_synonym matcher = "string \<Rightarrow> string \<Rightarrow> nat"

definition extract_amount :: "matcher \<Rightarrow> measure_rule \<Rightarrow> input \<Rightarrow> (f64 \<times> bool) option" where
  "extract_amount hits r i =
     (if mr_source r = SourceConst then Some (Fin 1, False)
      else if mr_source r = SourceSizeKB then
        (if in_body_size i \<le> 0 then Some (Fin 0, False)
         else Some (fdiv (f64_of_int (in_body_size i)) (Fin 1024), False))
      else if mr_source r = SourceBytes then
        (if in_body_size i \<le> 0 then Some (Fin 0, False) else Some (f64_of_int (in_body_size i), False))
      else if mr_source r = SourceRegexCount then
        (if in_body i = [] then Some (Fin 0, False)
         else case mr_re r of
                None \<Rightarrow> None
              | Some re \<Rightarrow> Some (f64_of_int (int (hits re (in_body i))), in_body_truncated i))
      else Some (Fin 0, False))"

definition selected :: "measure_rule \<Rightarrow> input \<Rightarrow> bool" where
  "selected r i =
     (if in_frame i then MatchesFrame (mr_if r) (in_direction i) (in_opcode i)
      else Matches (mr_if r) (in_method i) (in_status i) (in_content_type i))"

definition run_axes :: "counters \<Rightarrow> measure_rule \<Rightarrow> string list" where
  "run_axes c r = (if mr_axes r = [] then AxesOf c (mr_counter r) else mr_axes r)"

definition run_rule :: "matcher \<Rightarrow> counters \<Rightarrow> input \<Rightarrow> measure_rule \<Rightarrow> (mvalue \<times> measure_fired) list option" where
  "run_rule hits c i r =
     (if \<not> selected r i then Some []
      else case extract_amount hits r i of
        None \<Rightarrow> None
      | Some (amount, truncated) \<Rightarrow>
          if feq amount (Fin 0) then Some []
          else let amount = fmul amount (Weight r); axes = run_axes c r in
            Some [(\<lparr>va_counter = mr_counter r, va_axes = axes, va_add = amount\<rparr>,
                   \<lparr>mf_counter = mr_counter r, mf_source = mr_source r, mf_value = amount,
                    mf_axes = axes, mf_truncated = truncated\<rparr>)])"

fun run_rules :: "matcher \<Rightarrow> counters \<Rightarrow> input \<Rightarrow> measure_rule list \<Rightarrow> (mvalue \<times> measure_fired) list option" where
  "run_rules hits c i [] = Some []"
| "run_rules hits c i (r # rs) =
     (case run_rule hits c i r of
        None \<Rightarrow> None
      | Some vs \<Rightarrow> (case run_rules hits c i rs of None \<Rightarrow> None | Some ws \<Rightarrow> Some (vs @ ws)))"

definition Run ::
    "matcher \<Rightarrow> measure_rule list \<Rightarrow> counters \<Rightarrow> input \<Rightarrow> (mvalue list \<times> measure_fired list) option" where
  "Run hits rules c i =
     (case run_rules hits c i rules of None \<Rightarrow> None | Some vs \<Rightarrow> Some (map fst vs, map snd vs))"

end
