(* ===== verification/Profile_Laws.thy ===== *)
theory Profile_Laws
  imports Measure Prior
begin

text \<open>
  What the validation of a profile is worth to the code that runs it: no rule refers to a
  bucket that does not exist, no bucket has two owners, no measure rule panics, and the
  validation of a validated profile changes nothing.
\<close>

section \<open>Every rule has a bucket\<close>

lemma tier_ok_Enabled: "tier_ok t \<Longrightarrow> Enabled t"
  by (auto simp: Enabled_def elim!: tier_okE)

lemma declared_Enabled:
  assumes "validate_counters c = None" and "finite_numbers c" and "HasAxis c n a"
  shows "Enabled (tier_of (Tiers c) (Kind n a))"
proof -
  from HasAxis_Tiers [OF assms(3)] obtain t where t: "Tiers c (Kind n a) = Some t" by blast
  with accepted_tiers [OF assms(1,2)] have "tier_ok t" by (auto simp: tiers_ok_def ran_def)
  with t show ?thesis by (simp add: tier_of_def tier_ok_Enabled)
qed

lemma AxesOf_HasAxis: "a \<in> set (AxesOf c n) \<Longrightarrow> HasAxis c n a"
  by (cases "map_of (cs_counters c) n") (simp_all add: AxesOf_def HasAxis_def del: map_of_eq_None_iff)

lemma NoteAxes_HasAxis: "a \<in> set (NoteAxes c n w) \<Longrightarrow> HasAxis c n a"
  by (simp add: NoteAxes_def)

text \<open>The buckets, as counter and axis, that the rules of a profile read or charge.\<close>

definition judge_buckets :: "judge_rule list \<Rightarrow> (string \<times> string) set" where
  "judge_buckets rs = (\<lambda>r. (jr_counter r, jr_axis r)) ` set rs"

definition measure_buckets :: "counters \<Rightarrow> measure_rule list \<Rightarrow> (string \<times> string) set" where
  "measure_buckets c ms = (\<Union>m \<in> set ms. Pair (mr_counter m) ` set (run_axes c m))"

definition outcome_buckets :: "outcome list \<Rightarrow> (string \<times> string) set" where
  "outcome_buckets xs =
     {(oi_counter i, oi_axis i) | i. \<exists>x \<in> set xs. OnBucket x \<and> oc_if x = Some i}"

definition note_buckets :: "counters \<Rightarrow> prior_rule list \<Rightarrow> (string \<times> string) set" where
  "note_buckets c rs =
     (\<Union>r \<in> {r \<in> set rs. Accepts r ''note''}. \<Union>w. Pair (pr_counter r) ` set (NoteAxes c (pr_counter r) w))"

definition profile_buckets :: "counters \<Rightarrow> profile \<Rightarrow> (string \<times> string) set" where
  "profile_buckets c p =
     judge_buckets (rph_judge (pf_request p)) \<union> judge_buckets (fph_judge (pf_frame p)) \<union>
     measure_buckets c (sph_measure (pf_response p)) \<union> measure_buckets c (fph_measure (pf_frame p)) \<union>
     outcome_buckets (rph_outcomes (pf_request p)) \<union> outcome_buckets (fph_outcomes (pf_frame p)) \<union>
     note_buckets c (pf_prior p)"

lemma judge_buckets_declared:
  "first_err (\<lambda>_. judge_declared c w) 0 rs = None \<Longrightarrow> (n, a) \<in> judge_buckets rs \<Longrightarrow> HasAxis c n a"
  by (auto simp: first_err_const judge_declared_def judge_buckets_def split: if_splits)

lemma measure_buckets_declared:
  assumes "first_err (\<lambda>_. measure_declared c w) 0 ms = None" and "(n, a) \<in> measure_buckets c ms"
  shows "HasAxis c n a"
proof -
  from assms(2) obtain m where m: "m \<in> set ms" "n = mr_counter m" "a \<in> set (run_axes c m)"
    by (auto simp: measure_buckets_def)
  from assms(1) m(1) have "measure_declared c w m = None" by (simp add: first_err_const)
  then have "\<forall>a \<in> set (mr_axes m). HasAxis c (mr_counter m) a"
    by (auto simp: measure_declared_def first_err_const split: if_splits)
  with m show ?thesis using AxesOf_HasAxis [of a c n] by (auto simp: run_axes_def split: if_splits)
qed

lemma outcome_buckets_declared:
  assumes "first_err (\<lambda>_. outcome_declared c w) 0 xs = None" and "(n, a) \<in> outcome_buckets xs"
  shows "HasAxis c n a"
proof -
  from assms(2) obtain x i where "x \<in> set xs" "OnBucket x" "oc_if x = Some i" "n = oi_counter i" "a = oi_axis i"
    by (auto simp: outcome_buckets_def)
  with assms(1) show ?thesis by (auto simp: first_err_const outcome_declared_def split: if_splits)
qed

lemma note_buckets_declared: "(n, a) \<in> note_buckets c rs \<Longrightarrow> HasAxis c n a"
  by (auto simp: note_buckets_def NoteAxes_HasAxis)

lemma ValidateAgainst_parts:
  assumes "ValidateAgainst p c = None" and "pf_mode p \<noteq> ModeOff"
  shows "first_err (\<lambda>_. judge_declared c ''request.judge'') 0 (rph_judge (pf_request p)) = None"
    and "first_err (\<lambda>_. measure_declared c ''response.measure'') 0 (sph_measure (pf_response p)) = None"
    and "first_err (\<lambda>_. outcome_declared c ''request.outcomes'') 0 (rph_outcomes (pf_request p)) = None"
    and "first_err (\<lambda>_. judge_declared c ''frame.judge'') 0 (fph_judge (pf_frame p)) = None"
    and "first_err (\<lambda>_. measure_declared c ''frame.measure'') 0 (fph_measure (pf_frame p)) = None"
    and "first_err (\<lambda>_. outcome_declared c ''frame.outcomes'') 0 (fph_outcomes (pf_frame p)) = None"
    and "first_err (\<lambda>_. prior_declared c) 0 (pf_prior p) = None"
  using assms by (simp_all add: ValidateAgainst_def)

lemma profile_bucket_declared:
  assumes "ValidateAgainst p c = None" and "pf_mode p \<noteq> ModeOff" and "(n, a) \<in> profile_buckets c p"
  shows "HasAxis c n a"
  using assms(3) ValidateAgainst_parts [OF assms(1,2)] judge_buckets_declared measure_buckets_declared
    outcome_buckets_declared note_buckets_declared
  unfolding profile_buckets_def by blast

section \<open>Every bucket has one owner\<close>

definition measured_counters :: "profile \<Rightarrow> string set" where
  "measured_counters p = mr_counter ` (set (sph_measure (pf_response p)) \<union> set (fph_measure (pf_frame p)))"

definition noted_counters :: "profile \<Rightarrow> string set" where
  "noted_counters p = pr_counter ` {r \<in> set (pf_prior p). Accepts r ''note''}"

lemma measured_fill:
  assumes "ValidateAgainst p c = None" and "pf_mode p \<noteq> ModeOff" and "n \<in> measured_counters p"
  shows "FillOf c n = FillMeasure"
  using assms(3) ValidateAgainst_parts(2,5) [OF assms(1,2)]
  by (auto simp: measured_counters_def first_err_const measure_declared_def)

lemma noted_fill:
  assumes "ValidateAgainst p c = None" and "pf_mode p \<noteq> ModeOff" and "n \<in> noted_counters p"
  shows "FillOf c n = FillNote"
  using assms(3) ValidateAgainst_parts(7) [OF assms(1,2)]
  by (auto simp: noted_counters_def first_err_const prior_declared_def split: if_splits)

section \<open>Measure rules after the validation\<close>

definition compiled :: "measure_rule \<Rightarrow> bool" where
  "compiled m \<longleftrightarrow> (mr_source m = SourceRegexCount \<longrightarrow> mr_re m \<noteq> None)"

lemma measure_source_idem:
  "measure_source compiles w m = Inr m' \<Longrightarrow> compiled m' \<and> measure_source compiles w m' = Inr m' \<and>
     mr_counter m' = mr_counter m \<and> mr_axes m' = mr_axes m \<and> mr_per m' = mr_per m \<and> mr_if m' = mr_if m"
  by (auto simp: measure_source_def compiled_def split: if_splits)

lemma validateMeasure_idem:
  assumes "validateMeasure compiles section m frame = Inr m'"
  shows "compiled m' \<and> validateMeasure compiles section m' frame = Inr m'"
proof -
  let ?w = "section @ ''.measure''"
  from assms obtain m1 where s: "measure_source compiles ?w m = Inr m1" and "m' = m1" and "mr_counter m \<noteq> []"
    by (auto simp: validateMeasure_def Let_def split: if_splits sum.splits option.splits)
  then have m': "measure_source compiles ?w m = Inr m'" by simp
  from measure_source_idem [OF this] assms \<open>mr_counter m \<noteq> []\<close> m' show ?thesis
    by (auto simp: validateMeasure_def Let_def split: option.splits)
qed

lemma validateMeasures_idem:
  "validateMeasures compiles section frame ms = Inr ms' \<Longrightarrow>
   list_all compiled ms' \<and> validateMeasures compiles section frame ms' = Inr ms'"
proof (induction ms arbitrary: ms')
  case Nil
  then show ?case by simp
next
  case (Cons m ms)
  then obtain m1 ms1 where p: "validateMeasure compiles section m frame = Inr m1"
      "validateMeasures compiles section frame ms = Inr ms1" "ms' = m1 # ms1"
    by (auto split: sum.splits)
  from validateMeasure_idem [OF p(1)] Cons.IH [OF p(2)] show ?case by (simp add: p(3))
qed

lemma validate_static_measure:
  "validate_static (p\<lparr>pf_response := r, pf_frame := (pf_frame p)\<lparr>fph_measure := fs\<rparr>\<rparr>) = validate_static p"
  by (simp add: validate_static_def)

lemma validate_active_measure:
  "validate_active (p\<lparr>pf_response := (pf_response p)\<lparr>sph_measure := ms\<rparr>,
                       pf_frame := (pf_frame p)\<lparr>fph_measure := fs\<rparr>\<rparr>) = validate_active p"
  by (simp add: validate_active_def)

lemma Validate_cases:
  assumes "Validate compiles p = Inr q"
  obtains (off) "pf_mode p = ModeOff" "q = p" "validate_static p = None"
  | (active) ms fs where "pf_mode p \<noteq> ModeOff" "validate_static p = None" "validate_active p = None"
      "validateMeasures compiles ''response'' False (sph_measure (pf_response p)) = Inr ms"
      "validateMeasures compiles ''frame'' True (fph_measure (pf_frame p)) = Inr fs"
      "q = p\<lparr>pf_response := (pf_response p)\<lparr>sph_measure := ms\<rparr>,
             pf_frame := (pf_frame p)\<lparr>fph_measure := fs\<rparr>\<rparr>"
  using assms
  by (cases "validate_static p"; cases "pf_mode p = ModeOff"; cases "validate_active p";
      cases "validateMeasures compiles ''response'' False (sph_measure (pf_response p))";
      cases "validateMeasures compiles ''frame'' True (fph_measure (pf_frame p))")
     (simp_all add: Validate_def)

lemma run_rule_total: "compiled r \<Longrightarrow> run_rule hits c i r \<noteq> None"
  by (auto simp: run_rule_def extract_amount_def compiled_def Let_def split: option.splits)

lemma run_rules_total: "list_all compiled rs \<Longrightarrow> run_rules hits c i rs \<noteq> None"
  using run_rule_total by (induction rs) (fastforce split: option.splits)+

text \<open>The validation is idempotent: it accepts what it returned, the compiled expressions included.\<close>

lemma Validate_again:
  assumes "Validate compiles p = Inr q"
  shows "Validate compiles q = Inr q"
  using assms
proof (cases rule: Validate_cases)
  case off
  with assms show ?thesis by simp
next
  case (active ms fs)
  have s: "validate_static q = None" "validate_active q = None"
    using active(2,3) by (simp_all add: active(6) validate_static_measure validate_active_measure)
  have "validateMeasures compiles ''response'' False (sph_measure (pf_response q)) = Inr ms"
    "validateMeasures compiles ''frame'' True (fph_measure (pf_frame q)) = Inr fs"
    using validateMeasures_idem [OF active(4)] validateMeasures_idem [OF active(5)] by (simp_all add: active(6))
  with s active(1) show ?thesis unfolding Validate_def by (simp add: active(6))
qed

lemma validated_runs:
  assumes "Validate compiles p = Inr q" and "pf_mode q \<noteq> ModeOff"
  shows "Run hits (sph_measure (pf_response q)) c i \<noteq> None \<and> Run hits (fph_measure (pf_frame q)) c i \<noteq> None"
  using assms(1)
proof (cases rule: Validate_cases)
  case off
  with assms(2) show ?thesis by simp
next
  case (active ms fs)
  have "run_rules hits c i ms \<noteq> None" "run_rules hits c i fs \<noteq> None"
    using validateMeasures_idem [OF active(4)] validateMeasures_idem [OF active(5)] run_rules_total by blast+
  then show ?thesis by (auto simp: active(6) Run_def)
qed

end
