(* ===== verification/Shipped.thy ===== *)
theory Shipped
  imports Profile_Laws
begin

text \<open>
  The configuration that the repository ships, after decoding: \<open>profiles/_shared/counters.yaml\<close>,
  \<open>profiles/default/profile.yaml\<close> and \<open>profiles/_probe/profile.yaml\<close>.  It serves as the
  concrete input of the development, and its acceptance by the validators is evaluated here.
\<close>

definition shipped_counters :: counters where
  "shipped_counters =
     \<lparr>cs_counters =
       [(''api_objects'', \<lparr>cn_unit = ''obj'',
           cn_axes = [(''ip'', \<lparr>at_max = Fin 1000, at_loss = Fin 2\<rparr>),
                      (''asn_net'', \<lparr>at_max = Fin 5000, at_loss = Fin 2\<rparr>),
                      (''sess'', \<lparr>at_max = Fin 800, at_loss = Fin 2\<rparr>)],
           cn_fill = [], cn_subjects = None\<rparr>),
        (''json_kb'', \<lparr>cn_unit = ''kb'',
           cn_axes = [(''ip'', \<lparr>at_max = Fin 51200, at_loss = Fin 5\<rparr>),
                      (''asn_net'', \<lparr>at_max = Fin 262144, at_loss = Fin 5\<rparr>)],
           cn_fill = [], cn_subjects = None\<rparr>),
        (''probe'', \<lparr>cn_unit = [], cn_axes = [(''ip'', \<lparr>at_max = Fin 1, at_loss = Fin 100\<rparr>)],
           cn_fill = [], cn_subjects = None\<rparr>)],
      cs_subjects = \<lparr>sess_cookie = ''waf_cid'', user_from = []\<rparr>\<rparr>"

definition json_rule :: measure_rule where
  "json_rule =
     \<lparr>mr_if = \<lparr>mt_status = [200], mt_content_type = [''application/json'', ''+json''], mt_methods = [],
                 mt_direction = [], mt_opcode = []\<rparr>,
      mr_source = ''size_kb'', mr_regex = [], mr_per = None, mr_counter = ''json_kb'', mr_axes = [], mr_re = None\<rparr>"

definition default_profile :: profile where
  "default_profile = (defaults ''default'')\<lparr>
     pf_description := ''Default counter: object and volume accounting, mild score'',
     pf_request :=
       \<lparr>rph_enabled = True,
        rph_judge =
          [\<lparr>jr_counter = ''api_objects'', jr_axis = ''ip'', jr_at = Fin 60, jr_action = ''score'',
             jr_score = 40, jr_code = ''CNT_OBJECTS_IP''\<rparr>,
           \<lparr>jr_counter = ''api_objects'', jr_axis = ''ip'', jr_at = Fin 90, jr_action = ''score'',
             jr_score = 80, jr_code = ''CNT_OBJECTS_IP_HIGH''\<rparr>],
        rph_deny_response = ''counter_limit'', rph_outcomes = []\<rparr>,
     pf_response := \<lparr>sph_enabled = True, sph_measure = [json_rule]\<rparr>\<rparr>"

definition probe_profile :: profile where
  "probe_profile = (defaults ''_probe'')\<lparr>
     pf_description := ''Probe: deny from an empty bucket'',
     pf_request :=
       \<lparr>rph_enabled = True,
        rph_judge =
          [\<lparr>jr_counter = ''probe'', jr_axis = ''ip'', jr_at = Fin 0, jr_action = ''deny'',
             jr_score = 0, jr_code = ''CNT_PROBE''\<rparr>],
        rph_deny_response = ''counter_limit'', rph_outcomes = []\<rparr>,
     pf_response := \<lparr>sph_enabled = False, sph_measure = []\<rparr>\<rparr>"

lemma shipped_counters_accepted: "validate_counters shipped_counters = None"
  by code_simp

lemma shipped_counters_finite: "finite_numbers shipped_counters"
  by (simp add: finite_numbers_def shipped_counters_def small_number_def)

lemma default_profile_static: "validate_static default_profile = None"
  by code_simp

lemma default_profile_active: "validate_active default_profile = None"
  by code_simp

lemma default_profile_accepted: "Validate compiles default_profile = Inr default_profile"
proof -
  have m: "validateMeasures compiles ''response'' False (sph_measure (pf_response default_profile)) = Inr [json_rule]"
    by (simp add: default_profile_def validateMeasure_def json_rule_def measure_source_def Weight_def
        validate_match_def methodRe_def Let_def)
  have f: "validateMeasures compiles ''frame'' True (fph_measure (pf_frame default_profile)) = Inr []"
    by (simp add: default_profile_def defaults_def)
  have "pf_mode default_profile \<noteq> ModeOff" by (simp add: default_profile_def defaults_def)
  then show ?thesis
    unfolding Validate_def default_profile_static default_profile_active m f
    by (simp add: default_profile_def defaults_def)
qed

lemma default_profile_declared: "ValidateAgainst default_profile shipped_counters = None"
  by code_simp

lemma probe_profile_accepted:
  "validate_static probe_profile = None" "validate_active probe_profile = None"
  "ValidateAgainst probe_profile shipped_counters = None"
  by code_simp+

lemma modes_on: "pf_mode default_profile \<noteq> ModeOff" "pf_mode probe_profile \<noteq> ModeOff"
  by (simp_all add: default_profile_def probe_profile_def defaults_def)

text \<open>
  The default profile judges the objects of a subject but measures only its kilobytes; no
  profile of the repository fills \<open>api_objects\<close>.
\<close>

lemma default_never_fills_objects:
  "''api_objects'' \<in> fst ` judge_buckets (rph_judge (pf_request default_profile)) \<and>
   ''api_objects'' \<notin> measured_counters default_profile \<union> noted_counters default_profile \<union>
     measured_counters probe_profile \<union> noted_counters probe_profile"
  by (simp add: judge_buckets_def measured_counters_def noted_counters_def default_profile_def probe_profile_def
      defaults_def json_rule_def)

section \<open>Properties\<close>

text \<open>
  C34 (safety): once counters whose numbers are numbers and a profile pass the validation, every
  bucket that a rule of the profile reads or charges, in whatever phase and through whatever axis
  default, exists and counts: no rule silently judges or fills nothing.  The validation also
  accepts \<open>.nan\<close>, and a bucket with such a capacity or leak counts nothing.
\<close>

theorem no_dangling_rule:
  assumes "ParseCounters d = Inr c" and "finite_numbers c" and "ValidateAgainst p c = None"
    and "pf_mode p \<noteq> ModeOff" and "(n, a) \<in> profile_buckets c p"
  shows "Enabled (tier_of (Tiers c) (Kind n a))"
proof (rule declared_Enabled [OF _ assms(2) profile_bucket_declared [OF assms(3,4,5)]])
  show "validate_counters c = None"
    using assms(1) by (auto simp: ParseCounters_def Let_def split: option.splits if_splits)
qed

lemma shipped_parsed: "ParseCounters (Some shipped_counters) = Inr shipped_counters"
proof -
  have "sess_cookie (cs_subjects shipped_counters) \<noteq> []" by (simp add: shipped_counters_def)
  then show ?thesis by (simp add: ParseCounters_def shipped_counters_accepted Let_def)
qed

theorem no_dangling_rule_witness:
  "Enabled (tier_of (Tiers shipped_counters) (Kind ''json_kb'' ''asn_net''))"
proof (rule no_dangling_rule [OF shipped_parsed shipped_counters_finite default_profile_declared modes_on(1)])
  have "AxesOf shipped_counters ''json_kb'' = [''ip'', ''asn_net'']" by code_simp
  then show "(''json_kb'', ''asn_net'') \<in> profile_buckets shipped_counters default_profile"
    by (simp add: profile_buckets_def measure_buckets_def default_profile_def json_rule_def run_axes_def)
qed

text \<open>
  An accepted declaration of counters, with finite numbers, yields a configuration in
  which every theorem on the buckets applies: sane tiers, and kinds that keep the keys apart.
\<close>

theorem accepted_counters_sane:
  assumes "ParseCounters d = Inr c" and "finite_numbers c"
  shows "tiers_ok (Tiers c) \<and> kinds_ok (Tiers c) \<and>
    (\<forall>nc \<in> set (cs_counters c). cn_axes (snd nc) \<noteq> [] \<and> fst ` set (cn_axes (snd nc)) \<subseteq> set knownAxes)"
proof -
  have v: "validate_counters c = None"
    using assms(1) by (auto simp: ParseCounters_def Let_def split: option.splits if_splits)
  have "cn_axes (snd nc) \<noteq> [] \<and> fst ` set (cn_axes (snd nc)) \<subseteq> set knownAxes" if "nc \<in> set (cs_counters c)" for nc
  proof
    from accepted_counter [OF v that] show "cn_axes (snd nc) \<noteq> []" by (simp add: validate_counter_def Let_def)
    show "fst ` set (cn_axes (snd nc)) \<subseteq> set knownAxes"
      using accepted_axis(1) [OF accepted_counter [OF v that]] by blast
  qed
  with accepted_tiers [OF v assms(2)] accepted_kinds [OF v] show ?thesis by blast
qed

theorem accepted_counters_sane_witness: "kinds_ok (Tiers shipped_counters)"
  using accepted_counters_sane [OF shipped_parsed shipped_counters_finite] by blast

text \<open>
  A counter has one owner.  No two accepted profiles, nor one of them alone, can
  have a measure rule and the notes of a neighbour fill the same counter.
\<close>

theorem single_owner:
  assumes "ValidateAgainst p c = None" and "pf_mode p \<noteq> ModeOff"
    and "ValidateAgainst p' c = None" and "pf_mode p' \<noteq> ModeOff"
  shows "measured_counters p \<inter> noted_counters p' = {}"
  using measured_fill [OF assms(1,2)] noted_fill [OF assms(3,4)] by fastforce

theorem single_owner_witness:
  "measured_counters default_profile \<inter> noted_counters probe_profile = {} \<and> ''json_kb'' \<in> measured_counters default_profile"
  using single_owner [OF default_profile_declared modes_on(1) probe_profile_accepted(3) modes_on(2)]
  by (simp add: measured_counters_def default_profile_def json_rule_def)

text \<open>
  A validated profile never makes the measuring panic: every rule that counts matches
  has its compiled expression, whatever the answer or the frame.
\<close>

theorem validated_measures_run:
  assumes "Validate compiles p = Inr q" and "pf_mode q \<noteq> ModeOff"
  shows "Run hits (sph_measure (pf_response q)) c i \<noteq> None \<and> Run hits (fph_measure (pf_frame q)) c i \<noteq> None"
  by (rule validated_runs [OF assms])

theorem validated_measures_run_witness:
  "\<forall>i. Run (\<lambda>_ _. 0) (sph_measure (pf_response default_profile)) shipped_counters i \<noteq> None"
  using validated_measures_run [OF default_profile_accepted [of "\<lambda>_. True"] modes_on(1)] by blast

end
