(* ===== verification/Not_Numbers.thy ===== *)
theory Not_Numbers
  imports Decide_Laws Shipped
begin

text \<open>
  What the validators do not see: YAML has a value that is not a number, every comparison with it is
  false, and the checks of the configuration are comparisons that find what is wrong.  The lemmas
  follow such a value from the validators to what it does in the buckets and in the judgement.
\<close>

section \<open>Arithmetic\<close>

lemma nan_add [simp]: "fadd NaN x = NaN" "fadd x NaN = NaN"
  by (cases x; simp)+

lemma nan_sub [simp]: "fsub NaN x = NaN"
  by (cases x) (simp_all add: fsub_def)

lemma nan_mul [simp]: "fmul NaN x = NaN" "fmul x NaN = NaN"
  by (cases x; simp add: finf_def)+

lemma nan_div [simp]: "fdiv NaN x = NaN"
  by (cases x) simp_all

lemma nan_compare [simp]: "\<not> flt NaN x" "\<not> flt x NaN" "\<not> fle NaN x" "\<not> fle x NaN" "\<not> feq NaN x"
  by (cases x; simp add: fle_def feq_def)+

section \<open>Accepted\<close>

lemma nan_threshold_accepted:
  "validateJudge sec r frame = None \<Longrightarrow> validateJudge sec (r\<lparr>jr_at := NaN\<rparr>) frame = None"
  by (simp add: validateJudge_def Let_def cong: if_cong split del: if_split)

lemma nan_weight_accepted:
  assumes "validateMeasure compiles sec m frame = Inr m1"
  shows "\<exists>m2. validateMeasure compiles sec (m\<lparr>mr_per := Some NaN\<rparr>) frame = Inr m2 \<and> Weight m2 = NaN"
proof -
  have s: "measure_source compiles w (m\<lparr>mr_per := Some NaN\<rparr>) =
      (case measure_source compiles w m of Inl e \<Rightarrow> Inl e | Inr m' \<Rightarrow> Inr (m'\<lparr>mr_per := Some NaN\<rparr>))" for w
    by (simp add: measure_source_def)
  from assms show ?thesis
    by (auto simp: validateMeasure_def Let_def s Weight_def split: sum.splits option.splits if_splits)
qed

lemma nan_capacity_accepted:
  assumes "validate_axis c name (axis, t) = None"
  shows "validate_axis c name (axis, t\<lparr>at_max := NaN\<rparr>) = None" and "validate_axis c name (axis, t\<lparr>at_loss := NaN\<rparr>) = None"
  using assms by (auto simp: validate_axis_def)

section \<open>What it does\<close>

text \<open>A bucket without a capacity or a leak that is a number is off.\<close>

lemma nan_tier_off: "\<not> Enabled \<lparr>t_max = NaN, t_loss = l\<rparr>" "\<not> Enabled \<lparr>t_max = m, t_loss = NaN\<rparr>"
  by (simp_all add: Enabled_def)

text \<open>A threshold that is not a number is met by every level, and a level that is not a number meets every threshold.\<close>

lemma nan_threshold_fires:
  "lookup (jr_counter r) (jr_axis r) = (percent, key, True) \<Longrightarrow>
   ra_fired (snd (judge_rule_step lookup dr (r\<lparr>jr_at := NaN\<rparr>) d))"
  by (cases percent) (simp_all add: judge_rule_step_def)

lemma nan_level_fires:
  "lookup (jr_counter r) (jr_axis r) = (NaN, key, True) \<Longrightarrow> ra_fired (snd (judge_rule_step lookup dr r d))"
  by (simp add: judge_rule_step_def)

text \<open>A charge that is not a number makes its bucket one, and nothing but an eviction undoes it.\<close>

lemma nan_clamp: "clamp NaN lo hi = NaN"
  by (simp add: clamp_def)

lemma nan_charge_poisons:
  assumes "csum r = Some NaN"
  shows "map_of (fst (local_step ts csum now m r)) (store_key r) = Some NaN \<and>
    (flt (Fin 0) (t_max (tier_of ts (ref_kind r))) \<longrightarrow> lv_percent (snd (local_step ts csum now m r)) = NaN)"
  by (simp add: local_step_def assms Let_def nan_clamp level_at_def AList.update_conv')

lemma nan_bucket_stays:
  assumes "map_of m (store_key r) = Some NaN"
  shows "map_of (fst (local_step ts csum now m r)) (store_key r) = Some NaN \<and>
    (flt (Fin 0) (t_max (tier_of ts (ref_kind r))) \<longrightarrow> lv_percent (snd (local_step ts csum now m r)) = NaN)"
  using assms
  by (cases "csum r") (simp_all add: local_step_def drained_def Let_def nan_clamp level_at_def AList.update_conv')

section \<open>Properties\<close>

text \<open>
  C32 (error): the validators let a value through that is not a number, in place of any value that they
  accept: as a threshold it makes the rule fire at every level, as a capacity it turns the bucket
  off, and as a weight it makes every charged bucket not a number, for good, so that every
  rule over it fires.
\<close>

theorem nan_settings_accepted:
  "(validateJudge sec r frame = None \<longrightarrow>
      validateJudge sec (r\<lparr>jr_at := NaN\<rparr>) frame = None \<and>
      (lookup (jr_counter r) (jr_axis r) = (percent, key, True) \<longrightarrow>
         ra_fired (snd (judge_rule_step lookup dr (r\<lparr>jr_at := NaN\<rparr>) d)))) \<and>
   (validate_axis c name (axis, t) = None \<longrightarrow>
      validate_axis c name (axis, t\<lparr>at_max := NaN\<rparr>) = None \<and> \<not> Enabled \<lparr>t_max = NaN, t_loss = at_loss t\<rparr>) \<and>
   (validateMeasure compiles sec' m frame = Inr m1 \<longrightarrow>
      (\<exists>m2. validateMeasure compiles sec' (m\<lparr>mr_per := Some NaN\<rparr>) frame = Inr m2 \<and> Weight m2 = NaN \<and>
         fmul amount (Weight m2) = NaN)) \<and>
   (csum b = Some NaN \<longrightarrow> map_of (fst (local_step ts csum now kvs b)) (store_key b) = Some NaN)"
proof -
  from nan_weight_accepted [of compiles sec' m frame m1]
  have "validateMeasure compiles sec' m frame = Inr m1 \<longrightarrow>
      (\<exists>m2. validateMeasure compiles sec' (m\<lparr>mr_per := Some NaN\<rparr>) frame = Inr m2 \<and> Weight m2 = NaN \<and>
         fmul amount (Weight m2) = NaN)" by auto
  moreover note nan_threshold_accepted [of sec r frame] nan_threshold_fires [of lookup r percent key dr d]
    nan_capacity_accepted(1) [of c name axis t] nan_tier_off(1) [of "at_loss t"] nan_charge_poisons [of csum b ts now kvs]
  ultimately show ?thesis by blast
qed

text \<open>A judge rule, a tier and a measure rule of the shipped configuration.\<close>

definition shipped_rule :: judge_rule where
  "shipped_rule = \<lparr>jr_counter = ''api_objects'', jr_axis = ''ip'', jr_at = Fin 60, jr_action = ''score'',
     jr_score = 40, jr_code = ''CNT_OBJECTS_IP''\<rparr>"

definition shipped_tier :: axis_tier where
  "shipped_tier = \<lparr>at_max = Fin 51200, at_loss = Fin 5\<rparr>"

lemma shipped_rule_valid: "validateJudge ''request'' shipped_rule False = None"
  by code_simp

lemma shipped_tier_valid: "validate_axis shipped_counters ''json_kb'' (''ip'', shipped_tier) = None"
  by code_simp

lemma shipped_measure_valid: "validateMeasure (\<lambda>_. True) ''response'' json_rule False = Inr json_rule"
  by code_simp

theorem nan_settings_accepted_witness:
  "validateJudge ''request'' (shipped_rule\<lparr>jr_at := NaN\<rparr>) False = None \<and>
   ra_fired (snd (judge_rule_step (\<lambda>_ _. (Fin 0, ''192.0.2.7'', True)) ''counter_limit'' (shipped_rule\<lparr>jr_at := NaN\<rparr>) allowed)) \<and>
   validate_axis shipped_counters ''json_kb'' (''ip'', shipped_tier\<lparr>at_max := NaN\<rparr>) = None \<and>
   (\<exists>m2. validateMeasure (\<lambda>_. True) ''response'' (json_rule\<lparr>mr_per := Some NaN\<rparr>) False = Inr m2 \<and> fmul (Fin 1) (Weight m2) = NaN)"
proof -
  note n = nan_settings_accepted [of "''request''" shipped_rule False "\<lambda>_ _. (Fin 0, ''192.0.2.7'', True)" "Fin 0" "''192.0.2.7''"
      "''counter_limit''" allowed shipped_counters "''json_kb''" "''ip''" shipped_tier "\<lambda>_. True" "''response''" json_rule json_rule
      "Fin 1" "[BRef ''k'' ''a'' \<mapsto> NaN]" "BRef ''k'' ''a''" Map.empty 0 "[]"]
  show ?thesis using n shipped_rule_valid shipped_tier_valid shipped_measure_valid by auto
qed

end
