(* ===== verification/Subjects.thy ===== *)
theory Subjects
  imports Profile_Laws
begin

text \<open>
  \<open>cmd/inspector/subjects.go\<close>: whose bucket it is.  Each axis has its key: the address, the
  network or router that the address resolver names, the connection, or the hash of a cookie, a
  header or a verified session.  The resolver and SHA-256 are parameters (\<open>hash\<close> is
  \<open>subjectHash\<close>); the sources of a request are a list without duplicates where the code has a
  map, whose order only the order of the entries depends on.
\<close>

section \<open>Cookies and sessions\<close>

text \<open>One turn of the loop: the first part of the line and the rest of it.\<close>

definition next_part :: "string \<Rightarrow> string \<times> string" where
  "next_part line = (case cut line (CHR '';'') of (a, b, found) \<Rightarrow> if found then (a, b) else (line, []))"

definition trim_quotes :: "string \<Rightarrow> string" where
  "trim_quotes s = trim_by (\<lambda>c. c = CHR 0x22) s"

text \<open>The value of a part that names the cookie; \<open>None\<close> where the loop goes on.\<close>

definition part_value :: "string \<Rightarrow> string \<Rightarrow> string option" where
  "part_value name part =
     (case cut (trim_space part) (CHR ''='') of (key, value, ok) \<Rightarrow>
        if \<not> ok \<or> trim_space key \<noteq> name then None else Some (trim_quotes (trim_space value)))"

lemma next_part_shorter: "line \<noteq> [] \<Longrightarrow> length (snd (next_part line)) < length line"
  by (auto simp: next_part_def cut_def Let_def split: if_splits)

function cookieFrom :: "string \<Rightarrow> string \<Rightarrow> string" where
  "cookieFrom line name =
     (if line = [] then []
      else case part_value name (fst (next_part line)) of
             Some v \<Rightarrow> v
           | None \<Rightarrow> cookieFrom (snd (next_part line)) name)"
  by pat_completeness auto
termination
  by (relation "measure (length \<circ> fst)") (simp_all add: next_part_shorter)

declare cookieFrom.simps [simp del]

fun cookie_headers :: "header list \<Rightarrow> string \<Rightarrow> string" where
  "cookie_headers [] name = []"
| "cookie_headers (h # hs) name =
     (if \<not> equal_fold (header_name h) ''cookie'' then cookie_headers hs name
      else let v = cookieFrom (header_value h) name in if v \<noteq> [] then v else cookie_headers hs name)"

definition cookieValue :: "header list \<Rightarrow> string \<Rightarrow> string" where
  "cookieValue pairs name = (if name = [] then [] else cookie_headers pairs name)"

definition session_field :: "string \<Rightarrow> session \<Rightarrow> string" where
  "session_field field s =
     (if field = SubjectUser then se_user s else if field = SubjectSID then se_id s else [])"

definition session_key :: "session \<Rightarrow> string" where
  "session_key s = se_inspector s @ [CHR 0x00] @ se_source s"

definition session_step :: "string \<Rightarrow> string \<times> string \<Rightarrow> session \<Rightarrow> string \<times> string" where
  "session_step field st s =
     (case st of (best, bestKey) \<Rightarrow>
        if \<not> se_verified s then st
        else let v = session_field field s in
          if v = [] then st
          else let key = session_key s in
            if best = [] \<or> key < bestKey then (v, key) else st)"

definition sessionValue :: "session list \<Rightarrow> string \<Rightarrow> string" where
  "sessionValue sessions field = fst (foldl (session_step field) ([], []) sessions)"

text \<open>\<open>headerValue\<close> of \<open>handler.go\<close>, and the same loop over \<open>FromHeader\<close>.\<close>

fun headerValue :: "header list \<Rightarrow> string \<Rightarrow> string" where
  "headerValue [] name = []"
| "headerValue (h # hs) name =
     (if equal_fold (header_name h) name then header_value h else headerValue hs name)"

section \<open>The keys of a request\<close>

record subject_ref =
  sr_counter :: string
  sr_axis :: string

record subject_keys =
  sk_counters :: counters
  sk_by_axis :: "string \<rightharpoonup> string"
  sk_by_source :: "string \<rightharpoonup> string"

definition cookie_source :: "counters \<Rightarrow> string \<Rightarrow> string" where
  "cookie_source c counter = ''cookie:'' @ SessCookie c counter"

definition subject_key :: "subject_keys \<Rightarrow> string \<Rightarrow> string \<Rightarrow> string option" where
  "subject_key k counter axis =
     (if axis = AxisSess then sk_by_source k (cookie_source (sk_counters k) counter)
      else if axis = AxisUser then
        (let src = UserFrom (sk_counters k) counter in if src = [] then None else sk_by_source k src)
      else sk_by_axis k axis)"

definition needsResolver :: "subject_ref list \<Rightarrow> bool" where
  "needsResolver refs = list_ex (\<lambda>r. sr_axis r = AxisNet \<or> sr_axis r = AxisRouter) refs"

definition hasConfigurable :: "subject_ref list \<Rightarrow> counters \<Rightarrow> bool" where
  "hasConfigurable refs c =
     list_ex (\<lambda>r. sr_axis r = AxisSess \<or> (sr_axis r = AxisUser \<and> WantsHeaders (UserFrom c (sr_counter r)))) refs"

definition has_axis_ref :: "subject_ref list \<Rightarrow> string \<Rightarrow> bool" where
  "has_axis_ref refs axis = list_ex (\<lambda>r. sr_axis r = axis) refs"

text \<open>The sources that the configurable axes of the references name.\<close>

definition ref_source :: "counters \<Rightarrow> subject_ref \<Rightarrow> string list" where
  "ref_source c r =
     (if sr_axis r = AxisSess then [cookie_source c (sr_counter r)]
      else if sr_axis r = AxisUser \<and> UserFrom c (sr_counter r) \<noteq> [] then [UserFrom c (sr_counter r)]
      else [])"

definition ref_sources :: "counters \<Rightarrow> subject_ref list \<Rightarrow> string list" where
  "ref_sources c refs = remdups (concat (map (ref_source c) refs))"

definition source_value :: "header list \<Rightarrow> session list \<Rightarrow> string \<Rightarrow> string" where
  "source_value headers sessions src =
     (case cut src (CHR '':'') of (kind, name, _) \<Rightarrow>
        if kind = FromCookie then cookieValue headers name
        else if kind = FromHeader then headerValue headers name
        else if kind = FromSession then sessionValue sessions name
        else [])"

definition source_step ::
    "(string \<Rightarrow> string) \<Rightarrow> header list \<Rightarrow> session list \<Rightarrow> (string \<rightharpoonup> string) \<Rightarrow> string \<Rightarrow> (string \<rightharpoonup> string)" where
  "source_step hash headers sessions m src =
     (let v = source_value headers sessions src in if v \<noteq> [] then m(src \<mapsto> hash v) else m)"

text \<open>
  \<open>subjectsOf\<close>.  \<open>resolve\<close> is the resolver's answer for the address, network and router, empty
  where it knows none.  The code calls it only where an axis needs it; the model's is a pure
  function, so its value is simply not used elsewhere.
\<close>

definition put_if :: "bool \<Rightarrow> 'k \<Rightarrow> 'v \<Rightarrow> ('k \<rightharpoonup> 'v) \<Rightarrow> ('k \<rightharpoonup> 'v)" where
  "put_if b k v m = (if b then m(k \<mapsto> v) else m)"

lemma put_if_apply: "put_if b k v m x = (if x = k \<and> b then Some v else m x)"
  by (simp add: put_if_def)

definition axis_keys ::
    "(string \<Rightarrow> string \<times> string) \<Rightarrow> subject_ref list \<Rightarrow> string \<Rightarrow> string \<Rightarrow> (string \<rightharpoonup> string)" where
  "axis_keys resolve refs clientIP connID =
     (let needNet = has_axis_ref refs AxisNet; needRouter = has_axis_ref refs AxisRouter;
          m1 = put_if (has_axis_ref refs AxisIP \<and> clientIP \<noteq> []) AxisIP (IPKey clientIP) Map.empty;
          m2 = put_if (has_axis_ref refs AxisConn \<and> connID \<noteq> []) AxisConn (''conn:'' @ connID) m1
      in if (needNet \<or> needRouter) \<and> clientIP \<noteq> [] then
           (case resolve clientIP of (network, router) \<Rightarrow>
              put_if (needRouter \<and> router \<noteq> []) AxisRouter router
                (put_if (needNet \<and> network \<noteq> []) AxisNet network m2))
         else m2)"

definition subjectsOf ::
    "(string \<Rightarrow> string \<times> string) \<Rightarrow> (string \<Rightarrow> string) \<Rightarrow> subject_ref list \<Rightarrow> counters \<Rightarrow> string
     \<Rightarrow> header list \<Rightarrow> session list \<Rightarrow> string \<Rightarrow> subject_keys" where
  "subjectsOf resolve hash refs c clientIP headers sessions connID =
     \<lparr>sk_counters = c, sk_by_axis = axis_keys resolve refs clientIP connID,
      sk_by_source = foldl (source_step hash headers sessions) Map.empty (ref_sources c refs)\<rparr>"

end
