(* ===== verification/Trim_Laws.thy ===== *)
theory Trim_Laws
  imports Prelude
begin

text \<open>
  What \<open>strings.TrimSpace\<close> removes: on both sides the longest run of characters that Unicode calls
  white space, and nothing else.
\<close>

section \<open>Runs of code words\<close>

lemma has_prefix_append: "has_prefix s p \<longleftrightarrow> (\<exists>r. s = p @ r)"
  by (auto simp: has_prefix_def) (metis append_take_drop_id)

text \<open>A run of words.\<close>

definition run_of :: "string list \<Rightarrow> string \<Rightarrow> bool" where
  "run_of ws s \<longleftrightarrow> (\<exists>xs. set xs \<subseteq> set ws \<and> s = concat xs)"

lemma run_of_Nil [simp]: "run_of ws []"
  by (auto simp: run_of_def intro: exI [of _ "[]"])

lemma run_of_append: "run_of ws a \<Longrightarrow> run_of ws b \<Longrightarrow> run_of ws (a @ b)"
  unfolding run_of_def by (metis Un_subset_iff concat_append set_append)

lemma run_of_word: "w \<in> set ws \<Longrightarrow> run_of ws w"
  unfolding run_of_def by (intro exI [of _ "[w]"]) simp

lemma run_of_cases:
  assumes "run_of ws s"
  obtains (empty) "s = []" | (word) w r where "s = w @ r" "w \<in> set ws" "run_of ws r"
proof -
  obtain xs where x: "set xs \<subseteq> set ws" "s = concat xs" using assms by (auto simp: run_of_def)
  show thesis
  proof (cases xs)
    case Nil
    with x empty show ?thesis by simp
  next
    case (Cons w ys)
    then have "run_of ws (concat ys)" using x(1) by (auto simp: run_of_def)
    with Cons x word show ?thesis by simp
  qed
qed

lemma run_of_rev: "run_of (map rev ws) (rev s) \<longleftrightarrow> run_of ws s"
proof -
  have half: "run_of (map rev us) (rev t)" if h: "run_of us t" for us t
  proof -
    obtain xs where x: "set xs \<subseteq> set us" "t = concat xs" using h by (auto simp: run_of_def)
    show ?thesis unfolding run_of_def x(2) rev_concat
      by (rule exI [of _ "rev (map rev xs)"]) (use x(1) in \<open>auto simp: rev_map\<close>)
  qed
  from half [of ws s] half [of "map rev ws" "rev s"] show ?thesis by (auto simp: comp_def)
qed

text \<open>The words of a prefix code: where one of them starts, no other does.\<close>

locale prefix_code =
  fixes ws :: "string list"
  assumes no_empty: "[] \<notin> set ws"
    and prefix_free: "v \<in> set ws \<Longrightarrow> w \<in> set ws \<Longrightarrow> has_prefix w v \<Longrightarrow> v = w"
begin

lemma word_at_append: "w \<in> set ws \<Longrightarrow> word_at ws (w @ s) = Some w"
proof -
  assume w: "w \<in> set ws"
  then have "word_at ws (w @ s) \<noteq> None" using no_empty by (auto simp: word_at_def find_None_iff)
  then obtain v where v: "word_at ws (w @ s) = Some v" by blast
  from word_at_Some [OF v] have h: "v \<in> set ws" "has_prefix (w @ s) v" by (simp_all add: has_prefix_def)
  then have "has_prefix w v \<or> has_prefix v w"
    by (auto simp: has_prefix_append append_eq_append_conv2)
  with prefix_free w h(1) v show ?thesis by auto
qed

lemma strip_run: "run_of ws a \<Longrightarrow> strip ws (a @ s) = strip ws s"
proof (induction "length a" arbitrary: a rule: less_induct)
  case less
  from less.prems show ?case
  proof (cases rule: run_of_cases)
    case (word w r)
    then have "length r < length a" using no_empty by (cases w) auto
    with less.hyps [of r] word show ?thesis by (simp add: strip.simps [of ws "w @ r @ s"] word_at_append)
  qed simp
qed

lemma strip_clean: "w \<in> set ws \<Longrightarrow> \<not> has_prefix (strip ws s) w"
proof (induction "length s" arbitrary: s rule: less_induct)
  case less
  show ?case
  proof (cases "word_at ws s")
    case None
    then have "strip ws s = s" by (simp add: strip.simps [of ws s])
    moreover have "\<forall>v \<in> set ws. v \<noteq> [] \<longrightarrow> \<not> has_prefix s v"
      using None by (auto simp: word_at_def find_None_iff has_prefix_def)
    ultimately show ?thesis using less.prems no_empty by auto
  next
    case (Some v)
    with less.hyps [OF word_at_shorter [OF Some] less.prems] show ?thesis by (simp add: strip.simps [of ws s])
  qed
qed

end

lemma strip_clean_id: "\<forall>w \<in> set ws. \<not> has_prefix s w \<Longrightarrow> strip ws s = s"
  by (subst strip.simps) (auto simp: has_prefix_def split: option.split dest: word_at_Some)

lemma strip_Nil [simp]: "strip ws [] = []"
proof -
  have "word_at ws [] = None" by (auto simp: word_at_def find_None_iff)
  then show ?thesis by (simp add: strip.simps [of ws "[]"])
qed

lemma strip_split: "\<exists>a. s = a @ strip ws s \<and> run_of ws a"
proof (induction ws s rule: strip.induct)
  case (1 ws s)
  show ?case
  proof (cases "word_at ws s")
    case None
    then show ?thesis by (intro exI [of _ "[]"]) (simp add: strip.simps [of ws s])
  next
    case (Some w)
    from 1 [OF Some] obtain a where a: "drop (length w) s = a @ strip ws (drop (length w) s)" "run_of ws a" by blast
    have "s = (w @ a) @ strip ws s"
      using word_at_Some [OF Some] a(1) by (simp add: strip.simps [of ws s] Some) (metis append_take_drop_id)
    moreover have "run_of ws (w @ a)" using word_at_Some [OF Some] a(2) by (blast intro: run_of_append run_of_word)
    ultimately show ?thesis by blast
  qed
qed

section \<open>White space in UTF-8\<close>

lemma space_runes_codes:
  "list_all (\<lambda>v. v \<noteq> [] \<and> list_all (\<lambda>w. has_prefix w v \<longrightarrow> v = w) space_runes) space_runes"
  "list_all (\<lambda>v. v \<noteq> [] \<and> list_all (\<lambda>w. has_prefix w v \<longrightarrow> v = w) (map rev space_runes)) (map rev space_runes)"
  by code_simp+

interpretation sp: prefix_code space_runes
  by unfold_locales (use space_runes_codes(1) in \<open>auto simp: list_all_iff\<close>)

interpretation ps: prefix_code "map rev space_runes"
  by unfold_locales (use space_runes_codes(2) in \<open>auto simp: list_all_iff\<close>)

text \<open>No character starts with a later byte of another.\<close>

lemma space_heads: "v \<in> set space_runes \<Longrightarrow> w \<in> set space_runes \<Longrightarrow> hd v \<notin> set (tl w)"
proof -
  have "list_all (\<lambda>v. list_all (\<lambda>w. hd v \<notin> set (tl w)) space_runes) space_runes" by code_simp
  then show "v \<in> set space_runes \<Longrightarrow> w \<in> set space_runes \<Longrightarrow> hd v \<notin> set (tl w)" by (simp add: list_all_iff)
qed

lemma space_nonempty: "w \<in> set space_runes \<Longrightarrow> w \<noteq> []"
  using sp.no_empty by auto

abbreviation spaces :: "string \<Rightarrow> bool" where "spaces s \<equiv> run_of space_runes s"

lemma spaces_blank [simp]: "spaces '' ''"
  by (rule run_of_word) (simp add: space_runes_def)

lemma spaces_head: "spaces s \<Longrightarrow> s \<noteq> [] \<Longrightarrow> w \<in> set space_runes \<Longrightarrow> hd s \<notin> set (tl w)"
  by (erule run_of_cases) (auto simp: space_nonempty space_heads)

text \<open>A text that trimming leaves alone.\<close>

definition core :: "string \<Rightarrow> bool" where
  "core m \<longleftrightarrow> (\<forall>w \<in> set space_runes. \<not> has_prefix m w \<and> \<not> has_suffix m w)"

lemma has_suffix_append: "has_suffix s p \<longleftrightarrow> (\<exists>r. s = r @ p)"
  by (auto simp: has_suffix_def) (metis append_take_drop_id)

lemma has_suffix_rev: "has_suffix s p \<longleftrightarrow> has_prefix (rev s) (rev p)"
  by (auto simp: has_suffix_append has_prefix_append) (metis rev_append rev_rev_ident)

lemma core_Nil [simp]: "core []"
  by (auto simp: core_def has_prefix_append has_suffix_append space_nonempty)

lemma clean_prefix:
  assumes "\<forall>w \<in> set space_runes. \<not> has_prefix m w" and "spaces b" and "m \<noteq> []"
  shows "\<forall>w \<in> set space_runes. \<not> has_prefix (m @ b) w"
proof (intro ballI notI)
  fix w assume w: "w \<in> set space_runes" "has_prefix (m @ b) w"
  with assms(1) obtain r where r: "w = m @ r" "r \<noteq> []" "has_prefix b r"
    by (auto simp: has_prefix_append append_eq_append_conv2)
  then have "hd b = hd r" "b \<noteq> []" by (auto simp: has_prefix_append)
  moreover have "hd r \<in> set (tl w)" using r(1,2) assms(3) by (cases m) auto
  ultimately show False using spaces_head [OF assms(2) _ w(1)] by simp
qed

lemma trim_core:
  assumes "spaces a" and "spaces b" and "core m"
  shows "trim_space (a @ m @ b) = m"
proof -
  have b: "run_of (map rev space_runes) (rev b)" using assms(2) by (simp add: run_of_rev)
  have "strip (map rev space_runes) (rev m) = rev m"
    by (rule strip_clean_id) (use assms(3) in \<open>auto simp: core_def has_suffix_rev\<close>)
  with ps.strip_run [OF b, of "rev m"] have r: "strip (map rev space_runes) (rev (m @ b)) = rev m" by simp
  show ?thesis
  proof (cases "m = []")
    case True
    have "strip space_runes (b @ []) = []" unfolding sp.strip_run [OF assms(2)] by simp
    with True show ?thesis by (simp add: trim_space_def sp.strip_run [OF assms(1)])
  next
    case False
    have "strip space_runes (m @ b) = m @ b"
      by (rule strip_clean_id [OF clean_prefix [OF _ assms(2) False]]) (use assms(3) in \<open>simp add: core_def\<close>)
    with r show ?thesis by (simp add: trim_space_def sp.strip_run [OF assms(1)])
  qed
qed

lemma trim_split: "\<exists>a b. s = a @ trim_space s @ b \<and> spaces a \<and> spaces b"
proof -
  define d where "d = strip space_runes s"
  obtain a where a: "s = a @ d" "spaces a" using strip_split [of s space_runes] by (auto simp: d_def)
  obtain c where c: "rev d = c @ rev (trim_space s)" "run_of (map rev space_runes) c"
    using strip_split [of "rev d" "map rev space_runes"] by (auto simp: d_def trim_space_def)
  have "d = trim_space s @ rev c" using arg_cong [OF c(1), of rev] by simp
  moreover have "spaces (rev c)" using c(2) run_of_rev [of space_runes "rev c"] by simp
  ultimately show ?thesis using a by blast
qed

lemma core_trim [simp]: "core (trim_space s)"
proof -
  define d where "d = strip space_runes s"
  have suf: "\<not> has_suffix (trim_space s) w" if "w \<in> set space_runes" for w
    using ps.strip_clean [of "rev w" "rev d"] that by (simp add: has_suffix_rev trim_space_def d_def)
  obtain c where c: "rev d = c @ rev (trim_space s)"
    using strip_split [of "rev d" "map rev space_runes"] by (auto simp: d_def trim_space_def)
  have "d = trim_space s @ rev c" using arg_cong [OF c, of rev] by simp
  then have "has_prefix (trim_space s) w \<Longrightarrow> has_prefix d w" for w by (auto simp: has_prefix_append)
  with suf show ?thesis using sp.strip_clean [of _ s] by (auto simp: core_def d_def)
qed

lemma trim_core_id [simp]: "core m \<Longrightarrow> trim_space m = m"
  using trim_core [of "[]" "[]" m] by simp

section \<open>Texts without white space at their ends\<close>

text \<open>A byte that occurs in no character of white space.\<close>

definition solid :: "char \<Rightarrow> bool" where
  "solid c \<longleftrightarrow> (\<forall>w \<in> set space_runes. c \<notin> set w)"

lemma core_solid:
  assumes "m \<noteq> []" and "solid (hd m)" and "solid (last m)"
  shows "core m"
  unfolding core_def
proof (intro ballI conjI notI)
  fix w assume w: "w \<in> set space_runes" "has_prefix m w"
  then have "hd m \<in> set w" using space_nonempty by (auto simp: has_prefix_append)
  with assms(2) w(1) show False by (auto simp: solid_def)
next
  fix w assume w: "w \<in> set space_runes" "has_suffix m w"
  then have "last m \<in> set w" using space_nonempty by (auto simp: has_suffix_append)
  with assms(3) w(1) show False by (auto simp: solid_def)
qed

text \<open>Between a solid byte and the next, a text can be trimmed on its own.\<close>

lemma core_join:
  assumes "core a" and "core b" and "solid c"
  shows "core (a @ c # b)"
  unfolding core_def
proof (intro ballI conjI notI)
  fix w assume w: "w \<in> set space_runes" "has_prefix (a @ c # b) w"
  have "c \<notin> set w" using assms(3) w(1) by (auto simp: solid_def)
  with w(2) have "has_prefix a w" by (auto simp: has_prefix_append append_eq_append_conv2 Cons_eq_append_conv)
  with assms(1) w(1) show False by (auto simp: core_def)
next
  fix w assume w: "w \<in> set space_runes" "has_suffix (a @ c # b) w"
  have "c \<notin> set w" using assms(3) w(1) by (auto simp: solid_def)
  with w(2) have "has_suffix b w" by (auto simp: has_suffix_append append_eq_append_conv2 Cons_eq_append_conv append_eq_Cons_conv)
  with assms(2) w(1) show False by (auto simp: core_def)
qed

text \<open>A run of white space that is cut at the start of a character is cut into runs.\<close>

lemma run_cut:
  assumes "spaces (u @ v)" and "v \<noteq> []" and "w \<in> set space_runes" and "hd v = hd w"
  shows "spaces v"
  using assms(1,2)
proof (induction "length u" arbitrary: u rule: less_induct)
  case less
  show ?case
  proof (cases "u = []")
    case True
    with less.prems show ?thesis by simp
  next
    case u: False
    from less.prems(1) show ?thesis
    proof (cases rule: run_of_cases)
      case empty
      with less.prems(2) show ?thesis by simp
    next
      case (word x r)
      then consider (long) t where "u = x @ t" "r = t @ v" | (short) t where "x = u @ t" "t \<noteq> []" "v = t @ r"
        by (metis append_Nil append_Nil2 append_eq_append_conv2)
      then show ?thesis
      proof cases
        case long
        have "length t < length u" using long(1) space_nonempty [OF word(2)] by simp
        from less.hyps [OF this] word(3) long(2) less.prems(2) show ?thesis by simp
      next
        case short
        then have "hd w \<in> set t" using short(2,3) assms(4) by (metis hd_append2 hd_in_set)
        then have "hd w \<in> set (tl x)" using u short(1) by (cases u) auto
        with space_heads [OF assms(3) word(2)] show ?thesis by simp
      qed
    qed
  qed
qed

lemma same_end:
  assumes "x @ v = r @ w" and "length v < length w"
  shows "w = take (length w - length v) w @ v \<and> x = r @ take (length w - length v) w"
proof -
  have "length (r @ w) = length x + length v" using assms(1) by (metis length_append)
  then have "length x = length r + (length w - length v)" using assms(2) by simp
  then have "take (length x) (x @ v) = r @ take (length w - length v) w"
    "drop (length x) (x @ v) = drop (length w - length v) w"
    unfolding assms(1) by simp_all
  then show ?thesis by (metis append_eq_conv_conj append_take_drop_id)
qed

text \<open>So a text stays free of trailing white space behind a solid byte and white space.\<close>

lemma core_behind:
  assumes "core v" and "v \<noteq> []" and "spaces a" and "core k" and "k \<noteq> []" and "solid (last k)"
  shows "core (k @ a @ v)"
  unfolding core_def
proof (intro ballI conjI notI)
  fix w assume w: "w \<in> set space_runes" "has_suffix (k @ a @ v) w"
  have nv: "\<not> has_suffix v w" using assms(1) w(1) by (simp add: core_def)
  from w(2) obtain r where r: "k @ a @ v = r @ w" by (auto simp: has_suffix_append)
  have "length v < length w"
  proof (rule ccontr)
    assume "\<not> length v < length w"
    with r nv show False by (auto simp: has_suffix_append append_eq_append_conv2)
  qed
  with same_end [of "k @ a" v r w] r obtain t where t: "w = t @ v" "k @ a = r @ t" by auto
  with \<open>length v < length w\<close> have t0: "t \<noteq> []" by auto
  have "last k \<notin> set t" using assms(6) w(1) t(1) by (auto simp: solid_def)
  then have "\<exists>u. a = u @ t"
  proof -
    from t(2) consider u where "k = r @ u" "t = u @ a" "u \<noteq> []" | u where "a = u @ t"
      by (metis append_Nil append_eq_append_conv2)
    then show ?thesis
    proof cases
      case 1
      then have "last k \<in> set t" by simp
      with \<open>last k \<notin> set t\<close> show ?thesis by blast
    qed blast
  qed
  then obtain u where u: "a = u @ t" by blast
  have "hd t = hd w" using t(1) t0 by simp
  from run_cut [of u t w] u assms(3) t0 w(1) this have "spaces t" by simp
  then show False
  proof (cases rule: run_of_cases)
    case (word x s)
    then have "has_prefix w x" using t(1) by (auto simp: has_prefix_append)
    with sp.prefix_free [OF word(2) w(1)] have "x = w" by simp
    with word(1) t(1) assms(2) show ?thesis by simp
  qed (use t0 in simp)
next
  fix w assume w: "w \<in> set space_runes" "has_prefix (k @ a @ v) w"
  have nk: "\<not> has_prefix k w" using assms(4) w(1) by (simp add: core_def)
  with w(2) have "set k \<subseteq> set w" by (auto simp: has_prefix_append append_eq_append_conv2)
  with last_in_set [OF assms(5)] assms(6) w(1) show False by (auto simp: solid_def)
qed

end
