(* ===== verification/Subject_Laws.thy ===== *)
theory Subject_Laws
  imports Subjects Trim_Laws
begin

text \<open>
  What the subjects promise: a cookie line is read back, only verified sessions name a subject,
  the one with the least key and among equal keys the first of the list, and the key of an axis depends on the request alone, not on
  what else the profile refers to.
\<close>

section \<open>Cookies\<close>

lemma dropWhile_none: "\<not> list_ex p s \<Longrightarrow> dropWhile p s = s"
  by (cases s) auto

lemma trim_by_none: "\<not> list_ex p s \<Longrightarrow> trim_by p s = s"
proof -
  assume h: "\<not> list_ex p s"
  then have "\<not> list_ex p (rev s)" by (simp add: list_ex_iff)
  with h show ?thesis by (simp add: trim_by_def trim_right_def dropWhile_none)
qed

text \<open>
  What a cookie line carries: names without an equals sign, and neither a semicolon, a quote nor white
  space at an end.
\<close>

definition cookie_char :: "char \<Rightarrow> bool" where
  "cookie_char c \<longleftrightarrow> c \<noteq> CHR '';'' \<and> c \<noteq> CHR 0x22"

definition cookie_ok :: "string \<times> string \<Rightarrow> bool" where
  "cookie_ok nv \<longleftrightarrow>
     list_all cookie_char (fst nv) \<and> list_all cookie_char (snd nv) \<and> core (fst nv) \<and> core (snd nv) \<and>
     CHR ''='' \<notin> set (fst nv)"

text \<open>A browser's \<open>Cookie\<close> line: the pairs, separated by a semicolon and a space.\<close>

fun cookie_line :: "(string \<times> string) list \<Rightarrow> string" where
  "cookie_line [] = []"
| "cookie_line [(n, v)] = n @ CHR ''='' # v"
| "cookie_line ((n, v) # nv # nvs) = n @ CHR ''='' # v @ CHR '';'' # CHR '' '' # cookie_line (nv # nvs)"

lemma pair_chars:
  assumes "cookie_ok (n, v)"
  shows "CHR '';'' \<notin> set (n @ CHR ''='' # v)" and "core (n @ CHR ''='' # v)"
    and "core n" and "core v" and "CHR 0x22 \<notin> set v" and "CHR ''='' \<notin> set n"
proof -
  have "solid CHR ''=''" by code_simp
  with assms core_join show "core (n @ CHR ''='' # v)" by (simp add: cookie_ok_def)
qed (use assms in \<open>auto simp: cookie_ok_def cookie_char_def list_all_iff\<close>)

lemma trim_lead: "core s \<Longrightarrow> lead = [] \<or> lead = [CHR '' ''] \<Longrightarrow> trim_space (lead @ s) = s"
  using trim_core [of lead "[]" s] by auto

lemma part_value_pair:
  assumes "cookie_ok (n, v)" and "trim_space part = n @ CHR ''='' # v"
  shows "part_value name part = (if n = name then Some v else None)"
proof -
  note c = pair_chars [OF assms(1)]
  have "trim_quotes v = v" unfolding trim_quotes_def by (rule trim_by_none) (use c(5) in \<open>auto simp: list_ex_iff\<close>)
  then show ?thesis
    using assms(2) by (simp add: part_value_def cut_found [OF c(6)] c(3,4))
qed

lemma next_part_last: "CHR '';'' \<notin> set s \<Longrightarrow> next_part s = (s, [])"
  by (simp add: next_part_def cut_missing)

lemma next_part_more: "CHR '';'' \<notin> set s \<Longrightarrow> next_part (s @ CHR '';'' # r) = (s, r)"
  by (simp add: next_part_def cut_found)

lemma cookieFrom_line:
  assumes "list_all cookie_ok jar" and "lead = [] \<or> lead = [CHR '' '']"
  shows "cookieFrom (lead @ cookie_line jar) name = (case map_of jar name of None \<Rightarrow> [] | Some v \<Rightarrow> v)"
  using assms
proof (induction jar arbitrary: lead rule: cookie_line.induct)
  case 1
  have "trim_space [CHR '' ''] = []" using trim_lead [of "[]" "[CHR '' '']"] by simp
  then have "part_value name [CHR '' ''] = None" by (simp add: part_value_def cut_def)
  then show ?case using 1 by (auto simp: cookieFrom.simps [of "[CHR '' '']"] cookieFrom.simps [of "[]"] next_part_last)
next
  case (2 n v)
  let ?s = "n @ CHR ''='' # v"
  have ok: "cookie_ok (n, v)" using 2 by simp
  note c = pair_chars [OF ok]
  have t: "trim_space (lead @ ?s) = ?s"
    by (rule trim_lead [OF c(2) 2(2)])
  have l: "CHR '';'' \<notin> set (lead @ ?s)" using 2(2) c(1) by auto
  show ?case
    using part_value_pair [OF ok t, of name]
    by (simp add: cookieFrom.simps [of "lead @ ?s"] next_part_last [OF l] cookieFrom.simps [of "[]"])
next
  case (3 n v nv nvs)
  let ?s = "n @ CHR ''='' # v" and ?r = "CHR '' '' # cookie_line (nv # nvs)"
  have ok: "cookie_ok (n, v)" using 3 by simp
  note c = pair_chars [OF ok]
  have t: "trim_space (lead @ ?s) = ?s"
    by (rule trim_lead [OF c(2) 3(3)])
  have l: "CHR '';'' \<notin> set (lead @ ?s)" using 3(3) c(1) by auto
  have line: "lead @ cookie_line ((n, v) # nv # nvs) = (lead @ ?s) @ CHR '';'' # ?r" by simp
  have "cookieFrom ?r name = (case map_of (nv # nvs) name of None \<Rightarrow> [] | Some v \<Rightarrow> v)"
    using 3(1) [of "[CHR '' '']"] 3(2) by simp
  then show ?case
    unfolding line
    using part_value_pair [OF ok t, of name]
    by (simp only: cookieFrom.simps [of "(lead @ ?s) @ CHR '';'' # ?r"] next_part_more [OF l] fst_conv snd_conv) simp
qed

section \<open>Sessions\<close>

definition eligible :: "string \<Rightarrow> session \<Rightarrow> bool" where
  "eligible field s \<longleftrightarrow> se_verified s \<and> session_field field s \<noteq> []"

text \<open>The session that counts: every eligible one before it has a greater key, none behind it a smaller one.\<close>

definition leads :: "string \<Rightarrow> session list \<Rightarrow> session \<Rightarrow> bool" where
  "leads field ss b \<longleftrightarrow> eligible field b \<and> (\<exists>xs ys. ss = xs @ b # ys \<and>
     (\<forall>s' \<in> set xs. eligible field s' \<longrightarrow> session_key b < session_key s') \<and>
     (\<forall>s' \<in> set ys. eligible field s' \<longrightarrow> session_key b \<le> session_key s'))"

lemma leads_least:
  "leads field ss b \<Longrightarrow> b \<in> set ss \<and> eligible field b \<and> (\<forall>s' \<in> set ss. eligible field s' \<longrightarrow> session_key b \<le> session_key s')"
  unfolding leads_def using less_imp_le [where x = "session_key b"] by auto

lemma leads_first: "\<forall>s' \<in> set ss. eligible field s' \<longrightarrow> session_key s < session_key s' \<Longrightarrow> eligible field s \<Longrightarrow> leads field (ss @ [s]) s"
  unfolding leads_def by (intro conjI exI [of _ ss] exI [of _ "[]"]) auto

lemma leads_stays:
  assumes "leads field ss b" and "eligible field s \<longrightarrow> session_key b \<le> session_key s"
  shows "leads field (ss @ [s]) b"
proof -
  from assms(1) obtain xs ys where h: "eligible field b" "ss = xs @ b # ys"
      "\<forall>s' \<in> set xs. eligible field s' \<longrightarrow> session_key b < session_key s'"
      "\<forall>s' \<in> set ys. eligible field s' \<longrightarrow> session_key b \<le> session_key s'" unfolding leads_def by blast
  then show ?thesis
    unfolding leads_def using assms(2) by (intro conjI exI [of _ xs] exI [of _ "ys @ [s]"]) auto
qed

definition chosen :: "string \<Rightarrow> session list \<Rightarrow> string \<times> string \<Rightarrow> bool" where
  "chosen field ss st \<longleftrightarrow>
     (if \<exists>s \<in> set ss. eligible field s
      then \<exists>s. leads field ss s \<and> st = (session_field field s, session_key s)
      else st = ([], []))"

lemma chosen_step:
  assumes "chosen field ss st"
  shows "chosen field (ss @ [s]) (session_step field st s)"
proof (cases "eligible field s")
  case False
  then have "session_step field st s = st"
    by (auto simp: session_step_def eligible_def Let_def split: prod.split)
  moreover have "leads field (ss @ [s]) b" if "leads field ss b" for b using leads_stays [OF that] False by blast
  ultimately show ?thesis using assms False unfolding chosen_def by (auto split: if_splits)
next
  case el: True
  show ?thesis
  proof (cases "\<exists>s \<in> set ss. eligible field s")
    case False
    with assms have "st = ([], [])" by (simp add: chosen_def)
    with el have "session_step field st s = (session_field field s, session_key s)"
      by (simp add: session_step_def eligible_def Let_def)
    moreover have "leads field (ss @ [s]) s" using False el by (intro leads_first) auto
    ultimately show ?thesis using el by (auto simp: chosen_def)
  next
    case True
    with assms obtain b where b: "leads field ss b" "st = (session_field field b, session_key b)"
      by (auto simp: chosen_def)
    note least = leads_least [OF b(1)]
    show ?thesis
    proof (cases "session_key s < session_key b")
      case less: True
      then have "session_step field st s = (session_field field s, session_key s)"
        using el least by (simp add: session_step_def eligible_def Let_def b(2))
      moreover have "leads field (ss @ [s]) s" using least less el by (intro leads_first) (auto intro: order.strict_trans2)
      ultimately show ?thesis unfolding chosen_def using el by auto
    next
      case False
      then have "session_step field st s = st"
        using el least by (simp add: session_step_def eligible_def Let_def b(2))
      moreover have "leads field (ss @ [s]) b" using leads_stays [OF b(1)] False by (simp add: not_less)
      ultimately show ?thesis unfolding chosen_def using b el by auto
    qed
  qed
qed

lemma chosen_fold: "chosen field ss (foldl (session_step field) ([], []) ss)"
proof (induction ss rule: rev_induct)
  case Nil
  then show ?case by (simp add: chosen_def)
next
  case (snoc s ss)
  then show ?case by (simp add: chosen_step)
qed

section \<open>The key of an axis\<close>

definition nonempty :: "string \<Rightarrow> string option" where
  "nonempty v = (if v = [] then None else Some v)"

text \<open>The specification: the key of an axis straight from the request.\<close>

definition direct_key ::
    "(string \<Rightarrow> string \<times> string) \<Rightarrow> (string \<Rightarrow> string) \<Rightarrow> counters \<Rightarrow> string \<Rightarrow> header list \<Rightarrow> session list
     \<Rightarrow> string \<Rightarrow> string \<Rightarrow> string \<Rightarrow> string option" where
  "direct_key resolve hash c clientIP headers sessions connID n a =
     (if a = AxisSess then map_option hash (nonempty (source_value headers sessions (cookie_source c n)))
      else if a = AxisUser then
        (if UserFrom c n = [] then None
         else map_option hash (nonempty (source_value headers sessions (UserFrom c n))))
      else if a = AxisConn then map_option (\<lambda>i. ''conn:'' @ i) (nonempty connID)
      else if clientIP = [] then None
      else if a = AxisIP then Some (IPKey clientIP)
      else if a = AxisNet then nonempty (fst (resolve clientIP))
      else if a = AxisRouter then nonempty (snd (resolve clientIP))
      else None)"

lemma source_steps:
  "foldl (source_step hash headers sessions) m srcs src =
   (if src \<in> set srcs \<and> source_value headers sessions src \<noteq> [] then Some (hash (source_value headers sessions src))
    else m src)"
  by (induction srcs arbitrary: m) (auto simp: source_step_def Let_def)

lemma ref_sources_listed:
  assumes "\<lparr>sr_counter = n, sr_axis = a\<rparr> \<in> set refs"
  shows "a = AxisSess \<Longrightarrow> cookie_source c n \<in> set (ref_sources c refs)"
    and "a = AxisUser \<Longrightarrow> UserFrom c n \<noteq> [] \<Longrightarrow> UserFrom c n \<in> set (ref_sources c refs)"
  using assms by (force simp: ref_sources_def ref_source_def)+

lemma has_axis_ref_listed: "\<lparr>sr_counter = n, sr_axis = a\<rparr> \<in> set refs \<Longrightarrow> has_axis_ref refs a"
  unfolding has_axis_ref_def list_ex_iff by (rule bexI) simp_all

lemma axis_keys_apply:
  "axis_keys resolve refs clientIP connID a =
     (if a = AxisRouter \<and> has_axis_ref refs AxisRouter \<and> clientIP \<noteq> [] \<and> snd (resolve clientIP) \<noteq> []
      then Some (snd (resolve clientIP))
      else if a = AxisNet \<and> has_axis_ref refs AxisNet \<and> clientIP \<noteq> [] \<and> fst (resolve clientIP) \<noteq> []
      then Some (fst (resolve clientIP))
      else if a = AxisConn \<and> has_axis_ref refs AxisConn \<and> connID \<noteq> [] then Some (''conn:'' @ connID)
      else if a = AxisIP \<and> has_axis_ref refs AxisIP \<and> clientIP \<noteq> [] then Some (IPKey clientIP) else None)"
  by (cases "(has_axis_ref refs AxisNet \<or> has_axis_ref refs AxisRouter) \<and> clientIP \<noteq> []")
     (simp_all only: axis_keys_def Let_def put_if_apply case_prod_unfold if_True if_False simp_thms, auto)

lemma axis_keys_direct:
  assumes "has_axis_ref refs a" and "a \<in> {AxisIP, AxisNet, AxisRouter, AxisConn}"
  shows "axis_keys resolve refs clientIP connID a =
    direct_key resolve hash c clientIP headers sessions connID n a"
  using assms
  unfolding axis_keys_apply
  by (elim insertE emptyE; simp add: direct_key_def nonempty_def)

lemma axis_keys_other: "a \<notin> {AxisIP, AxisNet, AxisRouter, AxisConn} \<Longrightarrow> axis_keys resolve refs clientIP connID a = None"
  by (simp add: axis_keys_apply)

section \<open>Properties\<close>

text \<open>
  C38 (roundtrip): from the cookie line that a browser sends for a jar, each cookie reads back as
  the first pair of its name, and a name that is not in the jar reads as empty.
\<close>

theorem cookie_reads_back:
  assumes "list_all cookie_ok jar"
  shows "cookieFrom (cookie_line jar) name = (case map_of jar name of None \<Rightarrow> [] | Some v \<Rightarrow> v)"
  using cookieFrom_line [OF assms, of "[]" name] by simp

theorem cookie_reads_back_witness:
  "cookieFrom ''a=1; waf_cid=x=y; b=2'' ''waf_cid'' = ''x=y''"
proof -
  have "list_all cookie_ok [(''a'', ''1''), (''waf_cid'', ''x=y''), (''b'', ''2'')]"
    by code_simp
  from cookie_reads_back [OF this, of "''waf_cid''"] show ?thesis by simp
qed

text \<open>The value of a list of sessions is that of the one that leads it.\<close>

lemma value_leads: "\<exists>s \<in> set ss. eligible field s \<Longrightarrow> \<exists>s. leads field ss s \<and> sessionValue ss field = session_field field s"
  using chosen_fold [of field ss] by (auto simp: chosen_def sessionValue_def)

lemma value_none: "\<not> (\<exists>s \<in> set ss. eligible field s) \<Longrightarrow> sessionValue ss field = []"
  using chosen_fold [of field ss] by (simp add: chosen_def sessionValue_def)

text \<open>
  C36 (safety): the user or session id that counts is the one of a verified session that names one: every
  such session before it in the list has a greater key of inspector and source, and none behind it a smaller one, so
  of equal keys the first counts.  Without such a session there is no subject.  Where equal keys
  name the same user, the order of the list makes no difference.
\<close>

theorem session_subject_verified:
  "(if \<exists>s \<in> set ss. se_verified s \<and> session_field field s \<noteq> []
    then \<exists>xs s ys. ss = xs @ s # ys \<and> se_verified s \<and> session_field field s \<noteq> [] \<and> sessionValue ss field = session_field field s \<and>
           (\<forall>s' \<in> set xs. se_verified s' \<and> session_field field s' \<noteq> [] \<longrightarrow> session_key s < session_key s') \<and>
           (\<forall>s' \<in> set ys. se_verified s' \<and> session_field field s' \<noteq> [] \<longrightarrow> session_key s \<le> session_key s')
    else sessionValue ss field = []) \<and>
   (\<forall>ss'. set ss' = set ss \<and>
      (\<forall>a \<in> set ss. \<forall>b \<in> set ss. eligible field a \<and> eligible field b \<and> session_key a = session_key b \<longrightarrow>
         session_field field a = session_field field b) \<longrightarrow>
      sessionValue ss' field = sessionValue ss field)"
proof (intro conjI allI impI)
  show "if \<exists>s \<in> set ss. se_verified s \<and> session_field field s \<noteq> []
    then \<exists>xs s ys. ss = xs @ s # ys \<and> se_verified s \<and> session_field field s \<noteq> [] \<and> sessionValue ss field = session_field field s \<and>
           (\<forall>s' \<in> set xs. se_verified s' \<and> session_field field s' \<noteq> [] \<longrightarrow> session_key s < session_key s') \<and>
           (\<forall>s' \<in> set ys. se_verified s' \<and> session_field field s' \<noteq> [] \<longrightarrow> session_key s \<le> session_key s')
    else sessionValue ss field = []"
  proof (cases "\<exists>s \<in> set ss. eligible field s")
    case True
    from value_leads [OF this] show ?thesis using True unfolding leads_def eligible_def by (simp only: if_True) blast
  next
    case False
    from value_none [OF this] show ?thesis using False unfolding eligible_def by (simp only: if_False)
  qed
next
  fix ss'
  assume a: "set ss' = set ss \<and>
      (\<forall>a \<in> set ss. \<forall>b \<in> set ss. eligible field a \<and> eligible field b \<and> session_key a = session_key b \<longrightarrow>
         session_field field a = session_field field b)"
  show "sessionValue ss' field = sessionValue ss field"
  proof (cases "\<exists>s \<in> set ss. eligible field s")
    case False
    with a show ?thesis using value_none [of ss field] value_none [of ss' field] by simp
  next
    case True
    obtain s where s: "leads field ss s" "sessionValue ss field = session_field field s" using value_leads [OF True] by blast
    obtain s' where s': "leads field ss' s'" "sessionValue ss' field = session_field field s'"
      using value_leads [of ss' field] True a by auto
    have "session_key s = session_key s'" using leads_least [OF s(1)] leads_least [OF s'(1)] a by (auto intro: order.antisym)
    with a leads_least [OF s(1)] leads_least [OF s'(1)] show ?thesis unfolding s(2) s'(2) by metis
  qed
qed

definition demo_session :: "string \<Rightarrow> bool \<Rightarrow> string \<Rightarrow> session" where
  "demo_session inspector verified user =
     \<lparr>se_inspector = inspector, se_source = ''jwt'', se_kind = [], se_user = user, se_id = [],
      se_verified = verified, se_groups = [], se_issued = 0, se_expires = 0\<rparr>"

theorem session_subject_verified_witness:
  "sessionValue [demo_session ''b'' True ''bob'', demo_session ''a'' False ''eve'', demo_session ''a'' True ''ann''] ''user'' =
   sessionValue [demo_session ''a'' True ''ann'', demo_session ''b'' True ''bob'', demo_session ''a'' False ''eve''] ''user'' \<and>
   sessionValue [demo_session ''a'' True ''ann'', demo_session ''b'' True ''bob'', demo_session ''a'' False ''eve''] ''user'' = ''ann''"
  (is "sessionValue ?ss _ = sessionValue ?ss' _ \<and> _")
proof
  have "set ?ss' = set ?ss" by auto
  moreover have "\<forall>a \<in> set ?ss. \<forall>b \<in> set ?ss. eligible ''user'' a \<and> eligible ''user'' b \<and> session_key a = session_key b \<longrightarrow>
      session_field ''user'' a = session_field ''user'' b"
    by code_simp
  ultimately have "sessionValue ?ss' ''user'' = sessionValue ?ss ''user''"
    using session_subject_verified [of ?ss "''user''"] by blast
  then show "sessionValue ?ss ''user'' = sessionValue ?ss' ''user''" ..
  show "sessionValue ?ss' ''user'' = ''ann''" by code_simp
qed

text \<open>
  C37 (refinement): the two maps that a request's references build give every axis that is referred
  to the key that the request itself determines: another rule, another counter or another phase
  with the same objects never changes whose bucket is meant.
\<close>

theorem subject_key_direct:
  assumes "\<lparr>sr_counter = n, sr_axis = a\<rparr> \<in> set refs"
  shows "subject_key (subjectsOf resolve hash refs c clientIP headers sessions connID) n a =
    direct_key resolve hash c clientIP headers sessions connID n a"
proof -
  note l = ref_sources_listed [OF assms, of c] and h = has_axis_ref_listed [OF assms]
  show ?thesis
  proof (cases "a = AxisSess")
    case True
    with l(1) show ?thesis by (simp add: subject_key_def subjectsOf_def source_steps direct_key_def nonempty_def)
  next
    case sess: False
    show ?thesis
    proof (cases "a = AxisUser")
      case True
      with l(2) show ?thesis
        by (simp add: subject_key_def subjectsOf_def source_steps direct_key_def nonempty_def Let_def)
    next
      case user: False
      then have "subject_key (subjectsOf resolve hash refs c clientIP headers sessions connID) n a =
          axis_keys resolve refs clientIP connID a"
        using sess by (simp add: subject_key_def subjectsOf_def)
      also have "\<dots> = direct_key resolve hash c clientIP headers sessions connID n a"
      proof (cases "a \<in> {AxisIP, AxisNet, AxisRouter, AxisConn}")
        case True
        with h show ?thesis by (rule axis_keys_direct)
      next
        case False
        with sess user show ?thesis
          using axis_keys_other [of a resolve refs clientIP connID] by (simp add: direct_key_def)
      qed
      finally show ?thesis .
    qed
  qed
qed

theorem subject_key_direct_witness:
  "subject_key (subjectsOf (\<lambda>_. (''as64500'', [])) id [\<lparr>sr_counter = ''api'', sr_axis = ''asn_net''\<rparr>]
     \<lparr>cs_counters = [], cs_subjects = \<lparr>sess_cookie = ''waf_cid'', user_from = []\<rparr>\<rparr> ''192.0.2.7'' [] [] [])
     ''api'' ''asn_net'' = Some ''as64500''"
  by (subst subject_key_direct) (simp_all add: direct_key_def nonempty_def)

end
