(* ===== verification/Bucket_Contract.thy ===== *)
theory Bucket_Contract
  imports Bucket_Laws
begin

text \<open>
  What the callers of \<open>buckets.Store\<close> rely on, as an interface, and its first provider: the ledger
  of a process without Redis.  The second one is the Redis pipeline of \<open>Buckets_Redis\<close>.
\<close>

section \<open>The interface of the buckets\<close>

definition percent_ok :: "f64 \<Rightarrow> bool" where
  "percent_ok v \<longleftrightarrow> fle (Fin 0) v \<and> fle v (Fin 100)"

lemma percent_ok_0 [simp]: "percent_ok (Fin 0)"
  by (simp add: percent_ok_def)

text \<open>
  What the handler needs of a bucket store: from a sane state, with sane tiers and charges, a call
  leaves a sane state and its levels are percentages.
\<close>

locale bucket_store =
  fixes store_apply :: "'s \<Rightarrow> tiers \<Rightarrow> charge list \<Rightarrow> bref list \<Rightarrow> int \<Rightarrow> 's \<times> (err + level list)"
    and sane :: "'s \<Rightarrow> bool"
  assumes keeps_sane: "sane s \<Longrightarrow> tiers_ok ts \<Longrightarrow> charges_ok cs \<Longrightarrow> sane (fst (store_apply s ts cs rs now))"
    and percents: "sane s \<Longrightarrow> tiers_ok ts \<Longrightarrow> charges_ok cs \<Longrightarrow> snd (store_apply s ts cs rs now) = Inr ls \<Longrightarrow>
      list_all (\<lambda>l. percent_ok (lv_percent l)) ls"
begin

lemma runs_sane:
  assumes "sane s" and "\<forall>c \<in> set calls. tiers_ok (fst c) \<and> charges_ok (fst (snd c))"
  shows "sane (foldl (\<lambda>s (ts, cs, rs, now). fst (store_apply s ts cs rs now)) s calls)"
  using assms by (induction calls arbitrary: s) (auto simp: keeps_sane)

end

section \<open>The buckets of the process\<close>

definition local_apply ::
    "(string list \<Rightarrow> string list) \<Rightarrow> ledger \<Rightarrow> tiers \<Rightarrow> charge list \<Rightarrow> bref list \<Rightarrow> int
     \<Rightarrow> ledger \<times> (err + level list)" where
  "local_apply iter l ts cs rs now = (case Apply iter l ts cs rs now of (l', ls) \<Rightarrow> (l', Inr ls))"

interpretation lb: bucket_store "local_apply iter" "\<lambda>l. ledger_ok (l_m l)" for iter
proof
  fix s :: ledger and ts :: tiers and cs :: "charge list" and rs :: "bref list" and now :: int and ls :: "level list"
  assume h: "ledger_ok (l_m s)" "tiers_ok ts" "charges_ok cs"
  obtain l' ls' where a: "Apply iter s ts cs rs now = (l', ls')" by force
  note ok = Apply_ok [OF h(2,1,3) a]
  show "ledger_ok (l_m (fst (local_apply iter s ts cs rs now)))" using ok by (simp add: local_apply_def a)
  show "snd (local_apply iter s ts cs rs now) = Inr ls \<Longrightarrow> list_all (\<lambda>l. percent_ok (lv_percent l)) ls"
    using ok by (auto simp: local_apply_def a level_ok_def percent_ok_def list_all_iff)
qed

end
