(* ===== verification/Buckets_Redis.thy ===== *)
theory Buckets_Redis
  imports Bucket_Contract
begin

text \<open>
  The Redis side of \<open>internal/buckets/buckets.go\<close>: \<open>applyRedis\<close> and \<open>fixer\<close>.  The server is a
  parameter: a function from its state and the commands of a pipeline to the new state and one
  reply per command.  A value that \<open>formatBase\<close> writes is the number that its text denotes, as
  \<open>strconv\<close> formats the shortest text that parses back.
\<close>

section \<open>Pipelines\<close>

datatype rcmd =
    SetNX string f64 int
  | IncrByFloat string f64
  | PExpire string int
  | GetFloat string
  | SetKey string f64 int

text \<open>A number, a text that is none, success, the absent key, and the failure of a command.\<close>

datatype rreply = RNum f64 | RText | ROk | RNil | RFail err

type_synonym 'r server = "'r \<Rightarrow> rcmd list \<Rightarrow> 'r \<times> rreply list"

text \<open>The error of \<open>Exec\<close> is the first one of its commands; \<open>redis.Nil\<close> is let pass.\<close>

fun is_error :: "rreply \<Rightarrow> bool" where
  "is_error RNil = True"
| "is_error (RFail e) = True"
| "is_error r = False"

definition exec_error :: "rreply list \<Rightarrow> err option" where
  "exec_error reps = (case find is_error reps of Some (RFail e) \<Rightarrow> Some e | _ \<Rightarrow> None)"

section \<open>\<open>applyRedis\<close>\<close>

definition base_of :: "tier \<Rightarrow> int \<Rightarrow> f64" where
  "base_of t now = fmul (ratePerSec t) (epoch now)"

definition ref_cmds :: "tiers \<Rightarrow> (bref \<rightharpoonup> f64) \<Rightarrow> int \<Rightarrow> bref \<Rightarrow> rcmd list" where
  "ref_cmds ts csum now r =
     (let t = tier_of ts (ref_kind r); key = store_key r in
      case csum r of
        Some delta \<Rightarrow> [SetNX key (base_of t now) (lifetime t), IncrByFloat key delta, PExpire key (lifetime t)]
      | None \<Rightarrow> [GetFloat key])"

text \<open>The reply that a reference reads: its second command where it is charged, else its only one.\<close>

definition reply_at :: "rreply list \<Rightarrow> nat \<Rightarrow> rreply" where
  "reply_at reps k = (if k < length reps then reps ! k else RFail (Err ''redis'' ''no reply''))"

fun stored_replies :: "(bref \<rightharpoonup> f64) \<Rightarrow> bref list \<Rightarrow> rreply list \<Rightarrow> rreply list" where
  "stored_replies csum [] reps = []"
| "stored_replies csum (r # rs) reps =
     (if csum r = None then reply_at reps 0 # stored_replies csum rs (drop 1 reps)
      else reply_at reps 1 # stored_replies csum rs (drop 3 reps))"

definition fixer :: "string \<Rightarrow> tier \<Rightarrow> f64 \<Rightarrow> int \<Rightarrow> rcmd" where
  "fixer key t effective now = SetKey key (fadd (base_of t now) effective) (lifetime t)"

text \<open>One turn of the second loop: the level of a reference, and the repairs it asks for.\<close>

definition redis_level :: "tiers \<Rightarrow> (bref \<rightharpoonup> f64) \<Rightarrow> int \<Rightarrow> bref \<Rightarrow> rreply \<Rightarrow> level \<times> rcmd list" where
  "redis_level ts csum now r rep =
     (let t = tier_of ts (ref_kind r); key = store_key r in
      case rep of
        RNum raw \<Rightarrow>
          (let effective = fsub raw (base_of t now); charged = csum r \<noteq> None;
               sum = (case csum r of None \<Rightarrow> Fin 0 | Some v \<Rightarrow> v)
           in if charged \<and> flt effective sum then
                (let eff = clamp sum (Fin 0) (t_max t) in (level_at r t eff, [fixer key t eff now]))
              else if flt (t_max t) effective then
                (level_at r t (t_max t), if charged then [fixer key t (t_max t) now] else [])
              else if flt effective (Fin 0) then (level_at r t (Fin 0), [])
              else (level_at r t effective, []))
      | _ \<Rightarrow> (\<lparr>lv_ref = r, lv_score = Fin 0, lv_percent = Fin 0\<rparr>, []))"

definition applyRedis ::
    "'r server \<Rightarrow> 'r \<Rightarrow> tiers \<Rightarrow> charge list \<Rightarrow> bref list \<Rightarrow> int \<Rightarrow> 'r \<times> (err + level list)" where
  "applyRedis exec s ts charges refs now =
     (let csum = sums_of charges in
      case exec s (concat (map (ref_cmds ts csum now) refs)) of
        (s1, reps) \<Rightarrow>
          (case exec_error reps of
             Some e \<Rightarrow> (s1, Inl e)
           | None \<Rightarrow>
               (let rows = map2 (redis_level ts csum now) refs (stored_replies csum refs reps);
                    fixes = concat (map snd rows)
                in if fixes = [] then (s1, Inr (map fst rows))
                   else case exec s1 fixes of
                          (s2, reps2) \<Rightarrow>
                            (case exec_error reps2 of Some e \<Rightarrow> (s2, Inl e) | None \<Rightarrow> (s2, Inr (map fst rows))))))"

text \<open>\<open>Store.Apply\<close> of a store with a client.\<close>

definition ApplyClient ::
    "'r server \<Rightarrow> 'r \<Rightarrow> tiers \<Rightarrow> charge list \<Rightarrow> bref list \<Rightarrow> int \<Rightarrow> 'r \<times> (err + level list)" where
  "ApplyClient exec s ts charges reads now =
     (let live = live_charges ts charges; refs = refUnion live reads ts
      in if refs = [] then (s, Inr []) else applyRedis exec s ts live refs now)"

section \<open>Whatever the server answers\<close>

text \<open>A server that never answers with NaN: Redis refuses to store one.\<close>

definition no_NaN :: "rreply list \<Rightarrow> bool" where
  "no_NaN reps \<longleftrightarrow> RNum NaN \<notin> set reps"

lemma length_stored_replies [simp]: "length (stored_replies csum refs reps) = length refs"
  by (induction csum refs reps rule: stored_replies.induct) auto

lemma reply_at_NaN: "no_NaN reps \<Longrightarrow> reply_at reps k \<noteq> RNum NaN"
  by (auto simp: reply_at_def no_NaN_def dest: nth_mem)

lemma no_NaN_drop: "no_NaN reps \<Longrightarrow> no_NaN (drop k reps)"
  by (auto simp: no_NaN_def dest: in_set_dropD)

lemma stored_replies_NaN: "no_NaN reps \<Longrightarrow> no_NaN (stored_replies csum refs reps)"
proof (induction csum refs reps rule: stored_replies.induct)
  case (1 csum reps)
  then show ?case by (simp add: no_NaN_def)
next
  case (2 csum r rs reps)
  note ih = "2.IH"(1) [OF _ no_NaN_drop [OF "2.prems"]] "2.IH"(2) [OF _ no_NaN_drop [OF "2.prems"]]
  show ?case
    using ih reply_at_NaN [OF "2.prems", of 0] reply_at_NaN [OF "2.prems", of 1]
    by (cases "csum r = None") (auto simp: no_NaN_def)
qed

lemma fsub_nonNaN: "raw \<noteq> NaN \<Longrightarrow> fsub raw (Fin b) \<noteq> NaN"
  by (cases raw) (simp_all add: fsub_def)

text \<open>The level is a clamped number of its tier in every branch, and never less than its own charge.\<close>

lemma clamp_cases: "0 < m \<Longrightarrow> v \<noteq> NaN \<Longrightarrow> \<exists>x. clamp v (Fin 0) (Fin m) = Fin x \<and> 0 \<le> x \<and> x \<le> m"
  by (rule clamp_range)

lemma between_Fin:
  "v \<noteq> NaN \<Longrightarrow> \<not> flt (Fin m) v \<Longrightarrow> \<not> flt v (Fin 0) \<Longrightarrow> \<exists>x. v = Fin x \<and> 0 \<le> x \<and> x \<le> m"
  by (cases v) auto

lemma clamp_le:
  assumes "0 < m" and "c \<noteq> NaN" and "\<not> flt (Fin x) c" and "0 \<le> x"
  shows "fle (clamp c (Fin 0) (Fin m)) (Fin x)"
  using assms by (cases c) (auto simp: clamp_def)

lemma redis_level_ok:
  assumes t: "tier_ok (tier_of ts (ref_kind r))" and raw: "rep \<noteq> RNum NaN"
    and c: "\<And>v. csum r = Some v \<Longrightarrow> v \<noteq> NaN"
  shows "lv_ref (fst (redis_level ts csum now r rep)) = r \<and> level_ok ts (fst (redis_level ts csum now r rep)) \<and>
    (\<forall>v x. csum r = Some v \<longrightarrow> rep = RNum x \<longrightarrow>
       fle (clamp v (Fin 0) (t_max (tier_of ts (ref_kind r)))) (lv_score (fst (redis_level ts csum now r rep)))) \<and>
    (\<forall>k v ttl. SetKey k v ttl \<in> set (snd (redis_level ts csum now r rep)) \<longrightarrow> (\<exists>x. v = Fin x))"
proof -
  let ?t = "tier_of ts (ref_kind r)"
  obtain m l where m: "t_max ?t = Fin m" "0 < m" "m \<le> 2 ^ 900" using tier_okE [OF t] by metis
  have zero: "level_ok ts \<lparr>lv_ref = r, lv_score = Fin 0, lv_percent = Fin 0\<rparr>"
    using m by (simp add: level_ok_def)
  have lv: "level_ok ts (level_at r ?t (Fin x))" if "0 \<le> x" "x \<le> m" for x
    by (rule level_at_ok [OF m(1,2) that])
  have base: "\<exists>y. fadd (base_of ?t now) (Fin x) = Fin y" if "0 \<le> x" "x \<le> m" for x
  proof -
    have b: "base_of ?t now = Fin (leak_val ?t now)" "\<bar>leak_val ?t now\<bar> \<le> 2 ^ 935"
      using leak_Fin [OF t, of now] by (simp_all add: base_of_def)
    have "(2::rat) ^ 900 \<le> 2 ^ 935" by (rule power_increasing) simp_all
    with that m(3) have x: "\<bar>x\<bar> \<le> 2 ^ 935" by linarith
    have "\<bar>leak_val ?t now + x\<bar> \<le> 2 ^ 935 + 2 ^ 935" using add_mono [OF b(2) x] abs_triangle_ineq order_trans by blast
    also have "\<dots> = (2::rat) ^ 936" by (simp only: mult_2 [symmetric] power_Suc [symmetric]) simp
    finally have "\<bar>leak_val ?t now + x\<bar> \<le> 2 ^ 936" .
    then have "f64_of (leak_val ?t now + x) = Fin (rnd64 (leak_val ?t now + x))" by (rule f64_of_bounded) simp
    then show ?thesis by (simp add: b(1))
  qed
  show ?thesis
  proof (cases rep)
    case (RNum raw)
    let ?e = "fsub raw (base_of ?t now)"
    have e: "?e \<noteq> NaN" using raw leak_Fin(1) [OF t, of now] by (simp add: RNum base_of_def fsub_nonNaN)
    consider (own) v where "csum r = Some v" "flt ?e v"
      | (full) "\<not> (\<exists>v. csum r = Some v \<and> flt ?e v)" "flt (Fin m) ?e"
      | (empty) "\<not> (\<exists>v. csum r = Some v \<and> flt ?e v)" "\<not> flt (Fin m) ?e" "flt ?e (Fin 0)"
      | (mid) "\<not> (\<exists>v. csum r = Some v \<and> flt ?e v)" "\<not> flt (Fin m) ?e" "\<not> flt ?e (Fin 0)"
      by blast
    then show ?thesis
    proof cases
      case own
      obtain x where "clamp v (Fin 0) (Fin m) = Fin x" "0 \<le> x" "x \<le> m"
        using clamp_cases [OF m(2) c [OF own(1)]] by blast
      then show ?thesis
        using own lv base by (simp add: RNum redis_level_def m(1) Let_def fixer_def) (simp add: level_at_def)
    next
      case full
      have "fle (clamp v (Fin 0) (Fin m)) (Fin m)" if "csum r = Some v" for v
        using clamp_cases [OF m(2) c [OF that]] by auto
      with full show ?thesis using lv [of m] base [of m] m(2)
        by (auto simp: RNum redis_level_def m(1) Let_def fixer_def split: option.splits) (simp_all add: level_at_def)
    next
      case empty
      have "fle (clamp v (Fin 0) (Fin m)) (Fin 0)" if "csum r = Some v" for v
      proof (rule clamp_le [OF m(2) c [OF that]])
        show "\<not> flt (Fin 0) v" using empty(1,3) that e by (cases ?e; cases v) auto
      qed simp
      with empty show ?thesis using lv [of 0] m(2)
        by (auto simp: RNum redis_level_def m(1) Let_def split: option.splits) (simp_all add: level_at_def)
    next
      case mid
      obtain x where x: "?e = Fin x" "0 \<le> x" "x \<le> m" using between_Fin [OF e mid(2,3)] by blast
      have "fle (clamp v (Fin 0) (Fin m)) (Fin x)" if "csum r = Some v" for v
        using clamp_le [OF m(2) c [OF that] _ x(2)] mid(1) that by (auto simp: x(1))
      with mid x show ?thesis using lv [of x]
        by (auto simp: RNum redis_level_def m(1) Let_def split: option.splits) (simp_all add: level_at_def)
    qed
  qed (use zero in \<open>simp_all add: redis_level_def Let_def\<close>)
qed

text \<open>A text like \<open>nan\<close>, which \<open>ParseFloat\<close> takes for a number, gives a level that is none.\<close>

lemma redis_level_NaN:
  assumes "tier_ok (tier_of ts (ref_kind r))"
  shows "fst (redis_level ts csum now r (RNum NaN)) = \<lparr>lv_ref = r, lv_score = NaN, lv_percent = NaN\<rparr>"
proof -
  obtain m l where "t_max (tier_of ts (ref_kind r)) = Fin m" "0 < m" using tier_okE [OF assms] by metis
  then show ?thesis by (simp add: redis_level_def Let_def fsub_def level_at_def)
qed

lemma applyRedis_levels:
  assumes "applyRedis exec s ts charges refs now = (s', Inr ls)"
  shows "exec_error (snd (exec s (concat (map (ref_cmds ts (sums_of charges) now) refs)))) = None \<and>
    ls = map fst (map2 (redis_level ts (sums_of charges) now) refs
      (stored_replies (sums_of charges) refs (snd (exec s (concat (map (ref_cmds ts (sums_of charges) now) refs))))))"
  using assms by (auto simp: applyRedis_def Let_def split: prod.splits option.splits if_splits)

lemma sums_of_live_nonNaN: "charges_ok cs \<Longrightarrow> sums_of (live_charges ts cs) r = Some v \<Longrightarrow> v \<noteq> NaN"
  using sums_NaN_free [OF charges_ok_live] by blast

text \<open>The levels read off the replies of a pipeline, for the references of a call.\<close>

lemma redis_rows_ok:
  fixes ts :: tiers and cs :: "charge list" and rs :: "bref list"
  defines "csum \<equiv> sums_of (live_charges ts cs)" and "refs \<equiv> refUnion (live_charges ts cs) rs ts"
  assumes "tiers_ok ts" and "charges_ok cs" and "no_NaN reps"
    and ls: "ls = map fst (map2 (redis_level ts csum now) refs (stored_replies csum refs reps))"
  shows "map lv_ref ls = refs \<and> list_all (level_ok ts) ls"
proof -
  let ?reps = "stored_replies csum refs reps"
  have row: "lv_ref (fst (redis_level ts csum now r rep)) = r \<and> level_ok ts (fst (redis_level ts csum now r rep))"
    if "(r, rep) \<in> set (zip refs ?reps)" for r rep
  proof -
    from that have "r \<in> set refs" and "rep \<in> set ?reps" by (rule set_zip_leftD, rule set_zip_rightD)
    then have "tier_ok (tier_of ts (ref_kind r))" using tiers_ok_Enabled [OF assms(3)] by (auto simp: set_refUnion refs_def)
    moreover have "rep \<noteq> RNum NaN"
      using stored_replies_NaN [OF assms(5), of csum refs] \<open>rep \<in> set ?reps\<close> by (auto simp: no_NaN_def)
    ultimately show ?thesis
      using redis_level_ok [of ts r rep csum now] sums_of_live_nonNaN [OF assms(4)] unfolding csum_def by blast
  qed
  have "map lv_ref ls = map fst (zip refs ?reps)"
    unfolding ls map_map by (rule map_cong) (use row in \<open>auto simp: split_beta\<close>)
  moreover have "list_all (level_ok ts) ls"
    unfolding ls list_all_iff using row by (auto simp: split_beta)
  ultimately show ?thesis by simp
qed

lemma ApplyClient_rows:
  assumes "tiers_ok ts" and "charges_ok cs" and "no_NaN (snd (exec s (concat (map (ref_cmds ts (sums_of (live_charges ts cs)) now)
      (refUnion (live_charges ts cs) rs ts)))))"
    and "ApplyClient exec s ts cs rs now = (s', Inr ls)"
  shows "map lv_ref ls = refUnion (live_charges ts cs) rs ts \<and> list_all (level_ok ts) ls"
proof (cases "refUnion (live_charges ts cs) rs ts = []")
  case True
  with assms(4) show ?thesis by (simp add: ApplyClient_def Let_def)
next
  case False
  with assms(4) applyRedis_levels [of exec s ts "live_charges ts cs" "refUnion (live_charges ts cs) rs ts" now s' ls]
  show ?thesis by (intro redis_rows_ok [OF assms(1-3), where now = now]) (simp add: ApplyClient_def Let_def)
qed

text \<open>The replies that the references of a call read, whatever the server answers.\<close>

definition redis_replies :: "'r server \<Rightarrow> 'r \<Rightarrow> tiers \<Rightarrow> charge list \<Rightarrow> bref list \<Rightarrow> int \<Rightarrow> rreply list" where
  "redis_replies exec s ts cs rs now =
     (let csum = sums_of (live_charges ts cs); refs = refUnion (live_charges ts cs) rs ts
      in stored_replies csum refs (snd (exec s (concat (map (ref_cmds ts csum now) refs)))))"

lemma ApplyClient_each:
  assumes "tiers_ok ts" and "charges_ok cs" and "ApplyClient exec s ts cs rs now = (s', Inr ls)"
  shows "map lv_ref ls = refUnion (live_charges ts cs) rs ts \<and>
    (\<forall>i < length ls. level_ok ts (ls ! i) \<or> redis_replies exec s ts cs rs now ! i = RNum NaN \<and> lv_percent (ls ! i) = NaN)"
proof -
  define csum where "csum = sums_of (live_charges ts cs)"
  define refs where "refs = refUnion (live_charges ts cs) rs ts"
  define reps where "reps = redis_replies exec s ts cs rs now"
  have len: "length reps = length refs" by (simp add: reps_def refs_def redis_replies_def Let_def)
  have ls: "ls = map fst (map2 (redis_level ts csum now) refs reps)"
  proof (cases "refs = []")
    case True
    with assms(3) show ?thesis by (simp add: ApplyClient_def refs_def)
  next
    case False
    with assms(3) applyRedis_levels [of exec s ts "live_charges ts cs" refs now s' ls] show ?thesis
      by (simp add: ApplyClient_def Let_def refs_def reps_def csum_def redis_replies_def)
  qed
  have row: "lv_ref (ls ! i) = refs ! i \<and> (level_ok ts (ls ! i) \<or> reps ! i = RNum NaN \<and> lv_percent (ls ! i) = NaN)"
    if i: "i < length refs" for i
  proof -
    have at_i: "ls ! i = fst (redis_level ts csum now (refs ! i) (reps ! i))" using i len by (simp add: ls)
    have "refs ! i \<in> set refs" using i by simp
    then have t: "tier_ok (tier_of ts (ref_kind (refs ! i)))"
      using tiers_ok_Enabled [OF assms(1)] by (auto simp: set_refUnion refs_def)
    show ?thesis
    proof (cases "reps ! i = RNum NaN")
      case True
      with redis_level_NaN [OF t, of csum now] show ?thesis by (simp add: at_i)
    next
      case False
      with redis_level_ok [OF t False, of csum now] sums_of_live_nonNaN [OF assms(2)] show ?thesis
        unfolding at_i csum_def by blast
    qed
  qed
  have "length ls = length refs" using len by (simp add: ls)
  with row have "map lv_ref ls = refs" by (intro nth_equalityI) simp_all
  with row \<open>length ls = length refs\<close> show ?thesis by (simp add: refs_def reps_def)
qed

section \<open>A server\<close>

text \<open>
  A key space of numbers that answers as the documentation of the commands says: \<open>INCRBYFLOAT\<close>
  starts at zero and fails where the result would not be a number.  The lifetimes only decide
  when a key disappears between two pipelines.
\<close>

type_synonym keyspace = "string \<rightharpoonup> f64"

fun key_cmd :: "keyspace \<Rightarrow> rcmd \<Rightarrow> keyspace \<times> rreply" where
  "key_cmd m (SetNX k v ttl) = (if m k = None then m(k \<mapsto> v) else m, ROk)"
| "key_cmd m (IncrByFloat k d) =
     (case fadd (case m k of None \<Rightarrow> Fin 0 | Some v \<Rightarrow> v) d of
        Fin x \<Rightarrow> (m(k \<mapsto> Fin x), RNum (Fin x)) | _ \<Rightarrow> (m, RFail (Err k ''increment would produce NaN or Infinity'')))"
| "key_cmd m (PExpire k ttl) = (m, ROk)"
| "key_cmd m (GetFloat k) = (m, case m k of None \<Rightarrow> RNil | Some v \<Rightarrow> RNum v)"
| "key_cmd m (SetKey k v ttl) = (m(k \<mapsto> v), ROk)"

fun key_exec :: "keyspace server" where
  "key_exec m [] = (m, [])"
| "key_exec m (c # cs) =
     (case key_cmd m c of (m1, r) \<Rightarrow> (case key_exec m1 cs of (m2, rs) \<Rightarrow> (m2, r # rs)))"

definition keys_ok :: "keyspace \<Rightarrow> bool" where
  "keys_ok m \<longleftrightarrow> (\<forall>k v. m k = Some v \<longrightarrow> (\<exists>x. v = Fin x))"

text \<open>Commands that write numbers.\<close>

definition cmd_ok :: "rcmd \<Rightarrow> bool" where
  "cmd_ok c \<longleftrightarrow> (case c of SetNX k v ttl \<Rightarrow> \<exists>x. v = Fin x | SetKey k v ttl \<Rightarrow> \<exists>x. v = Fin x | _ \<Rightarrow> True)"

lemma key_cmd_ok:
  "keys_ok m \<Longrightarrow> cmd_ok c \<Longrightarrow> keys_ok (fst (key_cmd m c)) \<and> snd (key_cmd m c) \<noteq> RNum NaN"
  by (cases c) (fastforce simp: keys_ok_def cmd_ok_def split: f64.splits option.splits)+

lemma key_exec_ok:
  "keys_ok m \<Longrightarrow> list_all cmd_ok cs \<Longrightarrow> keys_ok (fst (key_exec m cs)) \<and> no_NaN (snd (key_exec m cs))"
proof (induction cs arbitrary: m)
  case Nil
  then show ?case by (simp add: no_NaN_def)
next
  case (Cons c cs)
  from key_cmd_ok [of m c] Cons.prems have "keys_ok (fst (key_cmd m c))" "snd (key_cmd m c) \<noteq> RNum NaN" by simp_all
  with Cons.IH [of "fst (key_cmd m c)"] Cons.prems show ?case by (auto simp: no_NaN_def split_beta)
qed

lemma ref_cmds_ok:
  assumes "tiers_ok ts" and "\<forall>r \<in> set refs. Enabled (tier_of ts (ref_kind r))"
  shows "list_all cmd_ok (concat (map (ref_cmds ts csum now) refs))"
proof -
  have "list_all cmd_ok (ref_cmds ts csum now r)" if "r \<in> set refs" for r
    using leak_Fin(1) [OF tiers_ok_Enabled [OF assms(1)], of "ref_kind r" now] that assms(2)
    by (simp add: ref_cmds_def cmd_ok_def base_of_def Let_def split: option.split)
  then show ?thesis by (auto simp: list_all_iff)
qed

lemma redis_level_fixes: "c \<in> set (snd (redis_level ts csum now r rep)) \<Longrightarrow> \<exists>k v ttl. c = SetKey k v ttl"
  by (cases rep) (auto simp: redis_level_def Let_def fixer_def split: if_splits)

lemma fixes_ok:
  assumes "tiers_ok ts" and "charges_ok cs" and "no_NaN reps"
    and "refs = refUnion (live_charges ts cs) rs ts" and "csum = sums_of (live_charges ts cs)"
  shows "list_all cmd_ok (concat (map snd (map2 (redis_level ts csum now) refs (stored_replies csum refs reps))))"
proof -
  have "cmd_ok c" if "(r, rep) \<in> set (zip refs (stored_replies csum refs reps))"
      "c \<in> set (snd (redis_level ts csum now r rep))" for r rep c
  proof -
    from that(1) have "r \<in> set refs" and rep: "rep \<in> set (stored_replies csum refs reps)"
      by (rule set_zip_leftD, rule set_zip_rightD)
    then have "tier_ok (tier_of ts (ref_kind r))"
      using tiers_ok_Enabled [OF assms(1)] by (auto simp: set_refUnion assms(4))
    moreover have "rep \<noteq> RNum NaN"
      using stored_replies_NaN [OF assms(3), of csum refs] rep by (auto simp: no_NaN_def)
    ultimately have "\<exists>x. v = Fin x" if "c = SetKey k v ttl" for k v ttl
      using redis_level_ok [of ts r rep csum now] sums_of_live_nonNaN [OF assms(2)] that
        \<open>c \<in> set (snd (redis_level ts csum now r rep))\<close> unfolding assms(5) by blast
    then show ?thesis using redis_level_fixes [OF that(2)] by (auto simp: cmd_ok_def)
  qed
  then show ?thesis by (auto simp: list_all_iff split_beta)
qed

lemma key_apply_ok:
  assumes "keys_ok s" and "tiers_ok ts" and "charges_ok cs"
  shows "keys_ok (fst (ApplyClient key_exec s ts cs rs now))"
proof -
  let ?live = "live_charges ts cs"
  let ?refs = "refUnion ?live rs ts" and ?csum = "sums_of ?live"
  let ?cmds = "concat (map (ref_cmds ts ?csum now) ?refs)"
  obtain s1 reps where e: "key_exec s ?cmds = (s1, reps)" by force
  have "list_all cmd_ok ?cmds" by (rule ref_cmds_ok [OF assms(2)]) (auto simp: set_refUnion)
  from key_exec_ok [OF assms(1) this] e have s1: "keys_ok s1" and n: "no_NaN reps" by simp_all
  have "keys_ok (fst (key_exec s1 (concat (map snd (map2 (redis_level ts ?csum now) ?refs (stored_replies ?csum ?refs reps))))))"
    using key_exec_ok [OF s1 fixes_ok [OF assms(2,3) n refl refl, of now rs]] by blast
  then show ?thesis
    using assms(1) s1 by (auto simp: ApplyClient_def applyRedis_def Let_def e split: prod.split option.split)
qed

interpretation rb: bucket_store "ApplyClient key_exec" keys_ok
proof
  fix s :: keyspace and ts :: tiers and cs :: "charge list" and rs :: "bref list" and now :: int and ls :: "level list"
  assume h: "keys_ok s" "tiers_ok ts" "charges_ok cs"
  show "keys_ok (fst (ApplyClient key_exec s ts cs rs now))" by (rule key_apply_ok [OF h])
  let ?cmds = "concat (map (ref_cmds ts (sums_of (live_charges ts cs)) now) (refUnion (live_charges ts cs) rs ts))"
  have "list_all cmd_ok ?cmds" by (rule ref_cmds_ok [OF h(2)]) (auto simp: set_refUnion)
  from key_exec_ok [OF h(1) this] have n: "no_NaN (snd (key_exec s ?cmds))" by blast
  assume "snd (ApplyClient key_exec s ts cs rs now) = Inr ls"
  then have "ApplyClient key_exec s ts cs rs now = (fst (ApplyClient key_exec s ts cs rs now), Inr ls)"
    by (metis prod.collapse)
  from ApplyClient_rows [OF h(2,3) n this] show "list_all (\<lambda>l. percent_ok (lv_percent l)) ls"
    by (auto simp: level_ok_def percent_ok_def list_all_iff)
qed

section \<open>Errors that go unseen\<close>

text \<open>
  The error of a pipeline is the first of its commands, and an absent key is let pass: a command
  that fails behind the read of an empty bucket is not reported, and its level is zero.
\<close>

lemma nil_masks_failure: "exec_error (RNil # reps) = None"
  by (simp add: exec_error_def)

lemma failed_reply_level: "lv_percent (fst (redis_level ts csum now r (RFail e))) = Fin 0"
  by (simp add: redis_level_def)

text \<open>The repair is a plain write: what another process added in between is overwritten.\<close>

lemma fixer_overwrites: "fst (key_cmd m (fixer k t v now)) = m(k \<mapsto> fadd (base_of t now) v)"
  by (simp add: fixer_def)

section \<open>Properties\<close>

text \<open>A server whose commands never fail never makes the call fail.\<close>

lemma ApplyClient_ok:
  assumes "\<And>s cmds. exec_error (snd (exec s cmds)) = None"
  shows "\<exists>s' ls. ApplyClient exec s ts cs rs now = (s', Inr ls)"
proof -
  have *: "exec_error reps = None" if "exec s0 cmds = (s1, reps)" for s0 cmds s1 reps
    using assms [of s0 cmds] that by simp
  show ?thesis
    by (auto simp: ApplyClient_def applyRedis_def Let_def split: prod.split option.split dest!: *)
qed

text \<open>
  C24 (bounds): whatever a Redis server answers, and whatever it forgot or other processes wrote in
  between, a call that succeeds returns one level for every bucket it was asked for, in order, each
  between 0 and the capacity of its tier and between 0 and 100 percent.  The one exception is a bucket
  whose own value another writer has set to a text like \<open>nan\<close>, which parses as a number and is none:
  its level is not a number either, and the levels of the other buckets are not touched by it.
\<close>

theorem redis_levels_bounded:
  assumes "tiers_ok ts" and "charges_ok cs" and "ApplyClient exec s ts cs rs now = (s', Inr ls)"
  shows "map lv_ref ls = refUnion (live_charges ts cs) rs ts \<and>
    (\<forall>i < length ls. level_ok ts (ls ! i) \<or> redis_replies exec s ts cs rs now ! i = RNum NaN \<and> lv_percent (ls ! i) = NaN)"
  by (rule ApplyClient_each [OF assms])

definition forgetful :: "unit server" where
  "forgetful s cmds = (s, map (\<lambda>c. case c of IncrByFloat k d \<Rightarrow> RNum (Fin 7) | GetFloat k \<Rightarrow> RNum PInf | _ \<Rightarrow> ROk) cmds)"

theorem redis_levels_bounded_witness:
  "\<exists>ls. snd (ApplyClient forgetful () api_tiers [\<lparr>ch_ref = api_ref, ch_add = Fin 3\<rparr>] [] 1704067300000000000) = Inr ls \<and>
     map lv_ref ls = [api_ref] \<and> list_all (level_ok api_tiers) ls"
proof -
  let ?cs = "[\<lparr>ch_ref = api_ref, ch_add = Fin 3\<rparr>]"
  have "exec_error (snd (forgetful s cmds)) = None" for s cmds
  proof -
    have "find is_error (snd (forgetful s cmds)) = None"
      by (auto simp: find_None_iff forgetful_def split: rcmd.splits)
    then show ?thesis by (simp add: exec_error_def)
  qed
  from ApplyClient_ok [of forgetful, OF this] obtain s' ls
    where a: "ApplyClient forgetful () api_tiers ?cs [] 1704067300000000000 = (s', Inr ls)" by blast
  have "charges_ok ?cs" by (simp add: charges_ok_def)
  note h = redis_levels_bounded [OF api_tiers_ok(1) this a]
  have live: "live_charges api_tiers ?cs = ?cs" using api_tiers_ok(3) by (simp add: live_charges_def)
  have refs: "refUnion ?cs [] api_tiers = [api_ref]"
    using api_tiers_ok(3) by (simp add: refUnion_def ref_add_def) (simp add: api_ref_def)
  have "sums_of ?cs api_ref = Some (fadd (Fin 0) (Fin 3))" by (simp add: sums_of_def sum_add_def)
  then have reps: "redis_replies forgetful () api_tiers ?cs [] 1704067300000000000 = [RNum (Fin 7)]"
    by (simp add: redis_replies_def Let_def live refs ref_cmds_def forgetful_def reply_at_def)
  have m: "map lv_ref ls = [api_ref]" using h by (simp add: live refs)
  then obtain l where l: "ls = [l]" by auto
  then have "level_ok api_tiers l" using h by (auto simp: reps)
  with m l show ?thesis by (auto simp: a)
qed

end
