(* ===== verification/Redis_Race.thy ===== *)
theory Redis_Race
  imports Buckets_Redis Gcra
begin

text \<open>
  Several processes over one Redis: \<open>applyRedis\<close> again, now command by command.  A pipeline is not a
  transaction, so the commands of other processes come between those of a call; keys reach
  the end of their lifetime at any moment; and a call that times out returns an error while the
  commands it has sent may still be executed.
\<close>

section \<open>Calls\<close>

record rcall =
  rc_tiers :: tiers
  rc_charges :: "charge list"
  rc_reads :: "bref list"
  rc_now :: int

definition call_live :: "rcall \<Rightarrow> charge list" where
  "call_live c = live_charges (rc_tiers c) (rc_charges c)"

definition call_refs :: "rcall \<Rightarrow> bref list" where
  "call_refs c = refUnion (call_live c) (rc_reads c) (rc_tiers c)"

definition call_sums :: "rcall \<Rightarrow> bref \<rightharpoonup> f64" where
  "call_sums c = sums_of (call_live c)"

definition call_cmds :: "rcall \<Rightarrow> rcmd list" where
  "call_cmds c = concat (map (ref_cmds (rc_tiers c) (call_sums c) (rc_now c)) (call_refs c))"

text \<open>
  A call that sends its first pipeline, one that sends its repairs, and one that has returned, with
  the commands that the server has not executed yet and the replies received so far.
\<close>

datatype rproc =
    Sending rcall "rcmd list" "rreply list"
  | Repairing rcall "rreply list" "level list" "rcmd list" "rreply list"
  | Returned rcall "rreply list" "err + level list" "rcmd list"

definition call_start :: "rcall \<Rightarrow> rproc" where
  "call_start c = (if call_refs c = [] then Returned c [] (Inr []) [] else Sending c (call_cmds c) [])"

text \<open>Between the two pipelines: the levels, and the repairs they ask for.\<close>

definition received_all :: "rcall \<Rightarrow> rreply list \<Rightarrow> rproc" where
  "received_all c reps =
     (case exec_error reps of
        Some e \<Rightarrow> Returned c reps (Inl e) []
      | None \<Rightarrow>
          (let rows = map2 (redis_level (rc_tiers c) (call_sums c) (rc_now c)) (call_refs c)
                 (stored_replies (call_sums c) (call_refs c) reps);
               fixes = concat (map snd rows)
           in if fixes = [] then Returned c reps (Inr (map fst rows)) []
              else Repairing c reps (map fst rows) fixes []))"

fun proc_step :: "keyspace \<Rightarrow> rproc \<Rightarrow> keyspace \<times> rproc" where
  "proc_step m (Sending c (cmd # cmds) reps) = (case key_cmd m cmd of (m', r) \<Rightarrow> (m', Sending c cmds (reps @ [r])))"
| "proc_step m (Sending c [] reps) = (m, received_all c reps)"
| "proc_step m (Repairing c reps ls (cmd # cmds) reps2) =
     (case key_cmd m cmd of (m', r) \<Rightarrow> (m', Repairing c reps ls cmds (reps2 @ [r])))"
| "proc_step m (Repairing c reps ls [] reps2) =
     (m, Returned c reps (case exec_error reps2 of Some e \<Rightarrow> Inl e | None \<Rightarrow> Inr ls) [])"
| "proc_step m (Returned c reps res (cmd # cmds)) = (fst (key_cmd m cmd), Returned c reps res cmds)"
| "proc_step m (Returned c reps res []) = (m, Returned c reps res [])"

text \<open>The deadline of the context, in either pipeline.\<close>

fun give_up :: "err \<Rightarrow> rproc \<Rightarrow> rproc" where
  "give_up e (Sending c cmds reps) = Returned c reps (Inl e) cmds"
| "give_up e (Repairing c reps ls cmds reps2) = Returned c reps (Inl e) cmds"
| "give_up e (Returned c reps res cmds) = Returned c reps res cmds"

record shared =
  sh_keys :: keyspace
  sh_procs :: "rproc list"

definition sane_call :: "rcall \<Rightarrow> bool" where
  "sane_call c \<longleftrightarrow> tiers_ok (rc_tiers c) \<and> charges_ok (rc_charges c)"

inductive redis_step :: "shared \<Rightarrow> shared \<Rightarrow> bool" where
  call: "sane_call c \<Longrightarrow> redis_step sh (sh\<lparr>sh_procs := sh_procs sh @ [call_start c]\<rparr>)"
| run: "i < length (sh_procs sh) \<Longrightarrow> proc_step (sh_keys sh) (sh_procs sh ! i) = (m, p) \<Longrightarrow>
        redis_step sh (sh\<lparr>sh_keys := m, sh_procs := (sh_procs sh)[i := p]\<rparr>)"
| timeout: "i < length (sh_procs sh) \<Longrightarrow> redis_step sh (sh\<lparr>sh_procs := (sh_procs sh)[i := give_up e (sh_procs sh ! i)]\<rparr>)"
| expire: "redis_step sh (sh\<lparr>sh_keys := (sh_keys sh)(k := None)\<rparr>)"

definition redis_start :: "keyspace \<Rightarrow> shared" where
  "redis_start m = \<lparr>sh_keys = m, sh_procs = []\<rparr>"

section \<open>A process alone\<close>

fun steps_alone :: "nat \<Rightarrow> keyspace \<times> rproc \<Rightarrow> keyspace \<times> rproc" where
  "steps_alone 0 x = x"
| "steps_alone (Suc k) x = steps_alone k (proc_step (fst x) (snd x))"

lemma steps_alone_add: "steps_alone (j + k) x = steps_alone k (steps_alone j x)"
  by (induction j arbitrary: x) simp_all

lemma sends_alone:
  "steps_alone (length cmds) (m, Sending c cmds reps) =
     (fst (key_exec m cmds), Sending c [] (reps @ snd (key_exec m cmds)))"
  by (induction cmds arbitrary: m reps) (simp_all add: split_beta)

lemma repairs_alone:
  "steps_alone (length cmds) (m, Repairing c reps ls cmds reps2) =
     (fst (key_exec m cmds), Repairing c reps ls [] (reps2 @ snd (key_exec m cmds)))"
  by (induction cmds arbitrary: m reps2) (simp_all add: split_beta)

text \<open>Undisturbed, the steps of a call are \<open>applyRedis\<close> over the key space.\<close>

lemma alone_is_ApplyClient:
  "\<exists>k reps. steps_alone k (m, call_start c) =
     (case ApplyClient key_exec m (rc_tiers c) (rc_charges c) (rc_reads c) (rc_now c) of
        (m', res) \<Rightarrow> (m', Returned c reps res []))"
proof (cases "call_refs c = []")
  case True
  then show ?thesis
    by (intro exI [of _ 0] exI [of _ "[]"])
      (simp add: call_start_def ApplyClient_def Let_def call_refs_def call_live_def)
next
  case False
  obtain m1 reps where e: "key_exec m (call_cmds c) = (m1, reps)" by force
  define rows where "rows = map2 (redis_level (rc_tiers c) (call_sums c) (rc_now c)) (call_refs c)
    (stored_replies (call_sums c) (call_refs c) reps)"
  define repairs where "repairs = concat (map snd rows)"
  obtain m2 reps2 where e2: "key_exec m1 repairs = (m2, reps2)" by force
  have A: "ApplyClient key_exec m (rc_tiers c) (rc_charges c) (rc_reads c) (rc_now c) =
      (case exec_error reps of
         Some e \<Rightarrow> (m1, Inl e)
       | None \<Rightarrow> if repairs = [] then (m1, Inr (map fst rows))
           else (m2, case exec_error reps2 of Some e \<Rightarrow> Inl e | None \<Rightarrow> Inr (map fst rows)))"
    unfolding ApplyClient_def applyRedis_def Let_def call_live_def [symmetric] call_refs_def [symmetric]
      call_sums_def [symmetric] call_cmds_def [symmetric] e prod.case rows_def [symmetric] repairs_def [symmetric] e2
    using False by (simp split: option.split)
  have r: "received_all c reps = (case exec_error reps of
      Some e \<Rightarrow> Returned c reps (Inl e) []
    | None \<Rightarrow> if repairs = [] then Returned c reps (Inr (map fst rows)) [] else Repairing c reps (map fst rows) repairs [])"
    unfolding received_all_def Let_def rows_def [symmetric] repairs_def [symmetric] ..
  have first: "steps_alone (length (call_cmds c) + 1) (m, call_start c) = (m1, received_all c reps)"
    unfolding steps_alone_add using False sends_alone [of "call_cmds c" m c "[]"] by (simp add: call_start_def e)
  show ?thesis
  proof (cases "exec_error reps = None \<and> repairs \<noteq> []")
    case no: False
    then have "(m1, received_all c reps) =
        (case ApplyClient key_exec m (rc_tiers c) (rc_charges c) (rc_reads c) (rc_now c) of
           (m', res) \<Rightarrow> (m', Returned c reps res []))"
      unfolding A r by (cases "exec_error reps") auto
    with first show ?thesis by metis
  next
    case True
    have second: "steps_alone (length repairs + 1) (m1, Repairing c reps (map fst rows) repairs []) =
        (m2, Returned c reps (case exec_error reps2 of Some e \<Rightarrow> Inl e | None \<Rightarrow> Inr (map fst rows)) [])"
      unfolding steps_alone_add using repairs_alone [of repairs m1 c reps "map fst rows" "[]"] by (simp add: e2)
    have "steps_alone ((length (call_cmds c) + 1) + (length repairs + 1)) (m, call_start c) =
        (m2, Returned c reps (case exec_error reps2 of Some e \<Rightarrow> Inl e | None \<Rightarrow> Inr (map fst rows)) [])"
      unfolding steps_alone_add [of "length (call_cmds c) + 1"] first using True second by (simp add: r)
    moreover have "\<dots> = (case ApplyClient key_exec m (rc_tiers c) (rc_charges c) (rc_reads c) (rc_now c) of
        (m', res) \<Rightarrow> (m', Returned c reps res []))"
      unfolding A using True by simp
    ultimately show ?thesis by metis
  qed
qed

section \<open>The invariant\<close>

inductive redis_reach :: "shared \<Rightarrow> shared \<Rightarrow> bool" for s0 where
  start: "redis_reach s0 s0"
| step: "redis_reach s0 s \<Longrightarrow> redis_step s s' \<Longrightarrow> redis_reach s0 s'"

text \<open>A reply that a command can have: an increment answers with a number or fails.\<close>

fun fits :: "rcmd \<Rightarrow> rreply \<Rightarrow> bool" where
  "fits (IncrByFloat k d) (RNum x) = True"
| "fits (IncrByFloat k d) (RFail e) = True"
| "fits (IncrByFloat k d) r = False"
| "fits c r = True"

lemma key_cmd_fits: "fits c (snd (key_cmd m c))"
  by (cases c) (simp_all split: f64.split)

lemma stored_number:
  assumes "list_all2 fits (concat (map (ref_cmds ts csum now) refs)) reps" and "\<And>e. RFail e \<notin> set reps"
    and "(r, rep) \<in> set (zip refs (stored_replies csum refs reps))" and "csum r \<noteq> None"
  shows "\<exists>x. rep = RNum x"
  using assms(1-3)
proof (induction refs arbitrary: reps)
  case Nil
  then show ?case by simp
next
  case (Cons r1 refs)
  from Cons.prems(1) obtain us vs where reps: "reps = us @ vs"
    and us: "list_all2 fits (ref_cmds ts csum now r1) us"
    and vs: "list_all2 fits (concat (map (ref_cmds ts csum now) refs)) vs"
    by (auto simp: list_all2_append1)
  have no: "\<And>e. RFail e \<notin> set vs" using Cons.prems(2) by (simp add: reps)
  show ?case
  proof (cases "csum r1")
    case None
    with us obtain u where "us = [u]" by (auto simp: ref_cmds_def Let_def list_all2_Cons1)
    with Cons.IH [OF vs no] Cons.prems(3) None assms(4) show ?thesis by (auto simp: reps)
  next
    case (Some d)
    with us obtain u1 u2 u3 where u: "us = [u1, u2, u3]" "fits (IncrByFloat (store_key r1) d) u2"
      by (auto simp: ref_cmds_def Let_def list_all2_Cons1)
    have "RFail e \<noteq> u2" for e using Cons.prems(2) [of e] by (auto simp: reps u(1))
    then have "\<exists>x. u2 = RNum x" using u(2) by (cases u2) auto
    with Cons.IH [OF vs no] Cons.prems(3) Some show ?thesis by (auto simp: reps u(1) reply_at_def)
  qed
qed

text \<open>
  What a call may say: a level for each of its buckets within the bounds; and unless a command
  failed, no charged bucket is lower than what the call itself has charged, up to the capacity.
\<close>

definition levels_true :: "rcall \<Rightarrow> rreply list \<Rightarrow> level list \<Rightarrow> bool" where
  "levels_true c reps ls \<longleftrightarrow>
     map lv_ref ls = call_refs c \<and> list_all (level_ok (rc_tiers c)) ls \<and>
     ((\<forall>e. RFail e \<notin> set reps) \<longrightarrow>
        (\<forall>l \<in> set ls. \<forall>v. call_sums c (lv_ref l) = Some v \<longrightarrow>
           fle (clamp v (Fin 0) (t_max (tier_of (rc_tiers c) (ref_kind (lv_ref l))))) (lv_score l)))"

fun proc_ok :: "rproc \<Rightarrow> bool" where
  "proc_ok (Sending c cmds reps) \<longleftrightarrow> sane_call c \<and> no_NaN reps \<and>
     (\<exists>sent. call_cmds c = sent @ cmds \<and> list_all2 fits sent reps)"
| "proc_ok (Repairing c reps ls cmds reps2) \<longleftrightarrow> list_all cmd_ok cmds \<and> levels_true c reps ls"
| "proc_ok (Returned c reps res cmds) \<longleftrightarrow> list_all cmd_ok cmds \<and> (\<forall>ls. res = Inr ls \<longrightarrow> levels_true c reps ls)"

lemma call_cmds_ok: "sane_call c \<Longrightarrow> list_all cmd_ok (call_cmds c)"
  unfolding call_cmds_def by (rule ref_cmds_ok) (auto simp: sane_call_def call_refs_def set_refUnion)

lemma levels_true_read:
  assumes "sane_call c" and "no_NaN reps" and "list_all2 fits (call_cmds c) reps"
  shows "levels_true c reps (map fst (map2 (redis_level (rc_tiers c) (call_sums c) (rc_now c)) (call_refs c)
    (stored_replies (call_sums c) (call_refs c) reps)))"
    (is "levels_true c reps (map fst (map2 ?f ?refs ?reps))")
proof -
  have s: "tiers_ok (rc_tiers c)" "charges_ok (rc_charges c)" using assms(1) by (simp_all add: sane_call_def)
  have "map lv_ref (map fst (map2 ?f ?refs ?reps)) = ?refs \<and>
      list_all (level_ok (rc_tiers c)) (map fst (map2 ?f ?refs ?reps))"
    unfolding call_refs_def call_sums_def call_live_def by (rule redis_rows_ok [OF s assms(2) refl])
  moreover have "fle (clamp v (Fin 0) (t_max (tier_of (rc_tiers c) (ref_kind (lv_ref l))))) (lv_score l)"
    if no: "\<forall>e. RFail e \<notin> set reps" and l: "l \<in> set (map fst (map2 ?f ?refs ?reps))"
      and v: "call_sums c (lv_ref l) = Some v" for l v
  proof -
    from l obtain r rep where r: "(r, rep) \<in> set (zip ?refs ?reps)" "l = fst (?f r rep)" by auto
    have "tier_ok (tier_of (rc_tiers c) (ref_kind r))"
      using tiers_ok_Enabled [OF s(1)] set_zip_leftD [OF r(1)] by (auto simp: set_refUnion call_refs_def)
    moreover have "rep \<noteq> RNum NaN"
      using stored_replies_NaN [OF assms(2), of "call_sums c" ?refs] set_zip_rightD [OF r(1)] by (auto simp: no_NaN_def)
    ultimately have ok: "lv_ref l = r"
        "\<And>v x. call_sums c r = Some v \<Longrightarrow> rep = RNum x \<Longrightarrow>
           fle (clamp v (Fin 0) (t_max (tier_of (rc_tiers c) (ref_kind r)))) (lv_score l)"
      using redis_level_ok [of "rc_tiers c" r rep "call_sums c" "rc_now c"] sums_of_live_nonNaN [OF s(2)]
      unfolding r(2) call_sums_def call_live_def by blast+
    have "\<exists>x. rep = RNum x"
      by (rule stored_number [OF assms(3) [unfolded call_cmds_def] _ r(1)]) (use no v ok(1) in auto)
    with ok v show ?thesis by auto
  qed
  ultimately show ?thesis unfolding levels_true_def by blast
qed

lemma received_all_ok:
  assumes "sane_call c" and "no_NaN reps" and "list_all2 fits (call_cmds c) reps"
  shows "proc_ok (received_all c reps)"
proof -
  have s: "tiers_ok (rc_tiers c)" "charges_ok (rc_charges c)" using assms(1) by (simp_all add: sane_call_def)
  have "list_all cmd_ok (concat (map snd (map2 (redis_level (rc_tiers c) (call_sums c) (rc_now c)) (call_refs c)
      (stored_replies (call_sums c) (call_refs c) reps))))"
    using fixes_ok [OF s assms(2) refl refl, of "rc_now c" "rc_reads c"]
    unfolding call_refs_def call_sums_def call_live_def .
  with levels_true_read [OF assms] show ?thesis
    by (simp add: received_all_def Let_def split: option.split)
qed

lemma call_start_ok:
  assumes "sane_call c"
  shows "proc_ok (call_start c)"
proof (cases "call_refs c = []")
  case True
  then show ?thesis by (simp add: call_start_def levels_true_def)
next
  case False
  with assms show ?thesis by (simp add: call_start_def no_NaN_def)
qed

lemma proc_step_ok:
  assumes "proc_step m p = (m', p')" and "keys_ok m" and "proc_ok p"
  shows "keys_ok m' \<and> proc_ok p'"
  using assms
proof (induction m p rule: proc_step.induct)
  case (1 m c cmd cmds reps)
  obtain r where r: "key_cmd m cmd = (m', r)" "p' = Sending c cmds (reps @ [r])"
    using 1(1) by (auto split: prod.splits)
  obtain sent where sent: "call_cmds c = sent @ cmd # cmds" "list_all2 fits sent reps" using 1(3) by auto
  have "cmd_ok cmd" using call_cmds_ok [of c] 1(3) by (simp add: sent(1))
  with key_cmd_ok [of m cmd] 1(2) r(1) have "keys_ok m'" "r \<noteq> RNum NaN" by simp_all
  moreover have "list_all2 fits (sent @ [cmd]) (reps @ [r])"
    using sent(2) key_cmd_fits [of cmd m] r(1) by (simp add: list_all2_appendI)
  moreover have "call_cmds c = (sent @ [cmd]) @ cmds" by (simp add: sent(1))
  ultimately show ?case using 1(3) r(2) unfolding r(2) proc_ok.simps by (auto simp: no_NaN_def)
next
  case (2 m c reps)
  then show ?case using received_all_ok [of c reps] by auto
next
  case (3 m c reps ls cmd cmds reps2)
  then show ?case using key_cmd_ok [of m cmd] by (auto split: prod.splits)
next
  case (4 m c reps ls reps2)
  then show ?case by (auto split: option.splits)
next
  case (5 m c reps res cmd cmds)
  then show ?case using key_cmd_ok [of m cmd] by auto
qed auto

lemma give_up_ok: "proc_ok p \<Longrightarrow> proc_ok (give_up e p)"
proof (cases p)
  case (Sending c cmds reps)
  assume "proc_ok p"
  then obtain sent where "sane_call c" "call_cmds c = sent @ cmds" by (auto simp: Sending)
  then show ?thesis using call_cmds_ok [of c] by (simp add: Sending)
qed simp_all

definition shared_ok :: "shared \<Rightarrow> bool" where
  "shared_ok sh \<longleftrightarrow> keys_ok (sh_keys sh) \<and> list_all proc_ok (sh_procs sh)"

lemma list_all_update: "list_all P xs \<Longrightarrow> P x \<Longrightarrow> list_all P (xs[i := x])"
  by (auto simp: list_all_iff dest: set_update_subset_insert [THEN subsetD])

lemma redis_step_ok: "redis_step sh sh' \<Longrightarrow> shared_ok sh \<Longrightarrow> shared_ok sh'"
proof (induction rule: redis_step.induct)
  case (call c sh)
  then show ?case using call_start_ok by (simp add: shared_ok_def)
next
  case (run i sh m p)
  then have "proc_ok (sh_procs sh ! i)" by (simp add: shared_ok_def list_all_length)
  with proc_step_ok [OF run(2)] run(3) show ?case by (simp add: shared_ok_def list_all_update)
next
  case (timeout i sh e)
  then have "proc_ok (sh_procs sh ! i)" by (simp add: shared_ok_def list_all_length)
  with timeout(2) give_up_ok show ?case by (simp add: shared_ok_def list_all_update)
next
  case (expire sh k)
  then show ?case by (simp add: shared_ok_def keys_ok_def)
qed

lemma redis_reach_ok: "redis_reach sh0 sh \<Longrightarrow> shared_ok sh0 \<Longrightarrow> shared_ok sh"
  by (induction rule: redis_reach.induct) (auto dest: redis_step_ok)

section \<open>A charge that is lost\<close>

text \<open>
  Two processes charge a bucket that has run empty but whose key is still there.  Each sees its own
  charge below zero and repairs the key with a plain write; the later write takes the charge of
  the other with it, where two calls one after the other add up.
\<close>

definition redis_exec :: "nat list \<Rightarrow> shared \<Rightarrow> shared" where
  "redis_exec is sh = foldl (\<lambda>s i. case proc_step (sh_keys s) (sh_procs s ! i) of
     (m, p) \<Rightarrow> s\<lparr>sh_keys := m, sh_procs := (sh_procs s)[i := p]\<rparr>) sh is"

definition idle_keys :: keyspace where
  "idle_keys = [store_key api_ref \<mapsto> Fin 1700]"

definition charge_call :: "rat \<Rightarrow> rcall" where
  "charge_call x = \<lparr>rc_tiers = api_tiers, rc_charges = [\<lparr>ch_ref = api_ref, ch_add = Fin x\<rparr>], rc_reads = [],
     rc_now = at_second 100\<rparr>"

definition two_calls :: shared where
  "two_calls = \<lparr>sh_keys = idle_keys, sh_procs = [call_start (charge_call 3), call_start (charge_call 4)]\<rparr>"

definition interleaved :: "nat list" where
  "interleaved = [0, 0, 0, 0, 1, 1, 1, 1, 0, 0, 1, 1]"

definition in_turn :: "nat list" where
  "in_turn = [0, 0, 0, 0, 0, 0, 1, 1, 1, 1, 1]"

abbreviation api_tier :: tier where
  "api_tier \<equiv> \<lparr>t_max = Fin 1000, t_loss = Fin 2\<rparr>"

lemma api_tier_of: "tier_of api_tiers (ref_kind api_ref) = api_tier"
  by (simp add: api_tiers_def api_ref_def tier_of_def)

lemma api_tier_exact: "exact_tier 1000 20 api_tier"
  by (simp add: exact_tier_def tier_ok.simps api_rate)

lemma api_base: "base_of api_tier (at_second 100) = Fin 2000"
proof -
  have "tier_ok api_tier" using api_tier_exact by (simp add: exact_tier_def)
  from leak_Fin(1) [OF this, of "at_second 100"] leak_exact [OF api_tier_exact, of 100] show ?thesis
    by (simp add: base_of_def)
qed

lemma whole: "\<bar>n\<bar> < 2 ^ 53 \<Longrightarrow> f64_of (of_int n) = Fin (of_int n)"
  using f64_of_int_small [of n] by (simp add: f64_of_int_def)

lemma whole_sums:
  "f64_of 3 = Fin 3" "f64_of 4 = Fin 4" "f64_of 7 = Fin 7" "f64_of 1703 = Fin 1703" "f64_of 1707 = Fin 1707"
  "f64_of (-297) = Fin (-297)" "f64_of (-293) = Fin (-293)" "f64_of 2003 = Fin 2003" "f64_of 2004 = Fin 2004"
  "f64_of 2007 = Fin 2007"
  using whole [of 3] whole [of 4] whole [of 7] whole [of 1703] whole [of 1707] whole [of "-297"] whole [of "-293"]
    whole [of 2003] whole [of 2004] whole [of 2007] by simp_all

lemma charge_call_refs:
  assumes "f64_of x = Fin x" and "x \<noteq> 0"
  shows "call_refs (charge_call x) = [api_ref]" and "call_sums (charge_call x) = [api_ref \<mapsto> Fin x]"
    and "call_cmds (charge_call x) = [SetNX (store_key api_ref) (Fin 2000) (lifetime api_tier),
      IncrByFloat (store_key api_ref) (Fin x), PExpire (store_key api_ref) (lifetime api_tier)]"
proof -
  have live: "call_live (charge_call x) = [\<lparr>ch_ref = api_ref, ch_add = Fin x\<rparr>]"
    using api_tiers_ok(3) assms(2) by (simp add: call_live_def charge_call_def live_charges_def)
  show refs: "call_refs (charge_call x) = [api_ref]"
    unfolding call_refs_def live using api_tiers_ok(3)
    by (simp add: charge_call_def refUnion_def ref_add_def) (simp add: api_ref_def)
  show csum: "call_sums (charge_call x) = [api_ref \<mapsto> Fin x]"
    unfolding call_sums_def live using assms(1) by (simp add: sums_of_def sum_add_def)
  show "call_cmds (charge_call x) = [SetNX (store_key api_ref) (Fin 2000) (lifetime api_tier),
      IncrByFloat (store_key api_ref) (Fin x), PExpire (store_key api_ref) (lifetime api_tier)]"
    unfolding call_cmds_def refs csum by (simp add: ref_cmds_def charge_call_def api_tier_of api_base Let_def)
qed

lemmas charge_call_simps =
  charge_call_refs [OF whole_sums(1)] charge_call_refs [OF whole_sums(2)]

lemma charge_call_fields: "rc_tiers (charge_call x) = api_tiers" "rc_now (charge_call x) = at_second 100"
  by (simp_all add: charge_call_def)

lemmas redis_simps = redis_exec_def two_calls_def idle_keys_def call_start_def charge_call_simps charge_call_fields
  received_all_def exec_error_def redis_level_def api_tier_of api_base reply_at_def fixer_def clamp_def whole_sums Let_def

lemma charge_is_lost:
  "sh_keys (redis_exec interleaved two_calls) (store_key api_ref) = Some (Fin 2004)"
  by (simp add: interleaved_def redis_simps)

lemma charges_add_up:
  "sh_keys (redis_exec in_turn two_calls) (store_key api_ref) = Some (Fin 2007)"
  by (simp add: in_turn_def redis_simps)

lemma interleaved_returns:
  "sh_procs (redis_exec interleaved two_calls) =
     [Returned (charge_call 3) [ROk, RNum (Fin 1703), ROk] (Inr [level_at api_ref api_tier (Fin 3)]) [],
      Returned (charge_call 4) [ROk, RNum (Fin 1707), ROk] (Inr [level_at api_ref api_tier (Fin 4)]) []]"
  by (simp add: interleaved_def redis_simps)

lemma redis_exec_reach:
  "list_all (\<lambda>i. i < length (sh_procs sh)) is \<Longrightarrow> redis_reach s0 sh \<Longrightarrow> redis_reach s0 (redis_exec is sh)"
proof (induction "is" arbitrary: sh)
  case Nil
  then show ?case by (simp add: redis_exec_def)
next
  case (Cons i "is")
  obtain m p where p: "proc_step (sh_keys sh) (sh_procs sh ! i) = (m, p)" by force
  let ?s = "sh\<lparr>sh_keys := m, sh_procs := (sh_procs sh)[i := p]\<rparr>"
  have "redis_step sh ?s" using Cons.prems(1) p by (intro redis_step.run) simp_all
  with Cons.prems(2) have "redis_reach s0 ?s" by (rule redis_reach.step)
  with Cons.IH [of ?s] Cons.prems(1) p show ?case by (simp add: redis_exec_def)
qed

lemma charge_call_sane: "sane_call (charge_call x)"
  using api_tiers_ok(1) by (simp add: sane_call_def charge_call_def charges_ok_def)

lemma two_calls_reach: "redis_reach (redis_start idle_keys) two_calls"
proof -
  let ?s1 = "\<lparr>sh_keys = idle_keys, sh_procs = [call_start (charge_call 3)]\<rparr>"
  have "redis_step (redis_start idle_keys) ?s1"
    using redis_step.call [OF charge_call_sane, of "redis_start idle_keys" 3] by (simp add: redis_start_def)
  moreover have "redis_step ?s1 two_calls"
    using redis_step.call [OF charge_call_sane, of ?s1 4] by (simp add: two_calls_def)
  ultimately show ?thesis by (blast intro: redis_reach.intros)
qed

lemma interleaved_reach: "redis_reach (redis_start idle_keys) (redis_exec interleaved two_calls)"
  by (rule redis_exec_reach [OF _ two_calls_reach]) (simp add: interleaved_def two_calls_def)

section \<open>Property\<close>

text \<open>
  C25 (safety): over one Redis that any number of processes use at once, with their commands
  interleaved in any way, keys that expire at any moment and calls that time out with commands
  still on their way: the keys hold numbers, and every call that returns without an error gives one
  level for each of its buckets, in order, within the capacity and 0 to 100 percent; and unless a
  command of it failed, it never sees a bucket lower than what it has charged itself, up to the capacity.
\<close>

theorem redis_race_levels:
  assumes "keys_ok m" and "redis_reach (redis_start m) sh"
  shows "keys_ok (sh_keys sh) \<and>
    (\<forall>c reps ls left. Returned c reps (Inr ls) left \<in> set (sh_procs sh) \<longrightarrow>
       map lv_ref ls = call_refs c \<and> list_all (level_ok (rc_tiers c)) ls \<and>
       ((\<forall>e. RFail e \<notin> set reps) \<longrightarrow>
          (\<forall>l \<in> set ls. \<forall>v. call_sums c (lv_ref l) = Some v \<longrightarrow>
             fle (clamp v (Fin 0) (t_max (tier_of (rc_tiers c) (ref_kind (lv_ref l))))) (lv_score l))))"
proof -
  have "shared_ok (redis_start m)" using assms(1) by (simp add: shared_ok_def redis_start_def)
  from redis_reach_ok [OF assms(2) this] have "keys_ok (sh_keys sh)" "\<forall>p \<in> set (sh_procs sh). proc_ok p"
    by (simp_all add: shared_ok_def list_all_iff)
  then show ?thesis unfolding levels_true_def [symmetric] by fastforce
qed

theorem redis_race_levels_witness:
  "keys_ok (sh_keys (redis_exec interleaved two_calls)) \<and>
   fle (clamp (Fin 4) (Fin 0) (Fin 1000)) (lv_score (level_at api_ref api_tier (Fin 4)))"
proof -
  have "keys_ok idle_keys" by (simp add: keys_ok_def idle_keys_def)
  note all = redis_race_levels [OF this interleaved_reach]
  have "Returned (charge_call 4) [ROk, RNum (Fin 1707), ROk] (Inr [level_at api_ref api_tier (Fin 4)]) []
      \<in> set (sh_procs (redis_exec interleaved two_calls))" by (simp add: interleaved_returns)
  with all have "\<forall>l \<in> set [level_at api_ref api_tier (Fin 4)]. \<forall>v. call_sums (charge_call 4) (lv_ref l) = Some v \<longrightarrow>
      fle (clamp v (Fin 0) (t_max (tier_of (rc_tiers (charge_call 4)) (ref_kind (lv_ref l))))) (lv_score l)" by fastforce
  with all show ?thesis by (simp add: level_at_def charge_call_simps charge_call_fields api_tier_of)
qed

end
