(* ===== verification/Profile_Store.thy ===== *)
theory Profile_Store
  imports Shipped
begin

text \<open>
  \<open>internal/config/profiles.go\<close>: the profiles on disk and the snapshot of them that requests are
  judged with.  A directory is what the calls of the package \<open>os\<close> answer about it at one moment;
  the reading of a snapshot and the taking of its fingerprint are two moments, so they get two
  file systems.  The YAML decoders, the compiler of regular expressions and SHA-256 are
  parameters.
\<close>

section \<open>Directories\<close>

datatype file_state = Absent | Unreadable | Contents string

record tree =
  tr_entries :: "(string \<times> bool) list option"
  tr_counters :: file_state
  tr_profile :: "string \<Rightarrow> file_state"
  tr_files :: "(string \<times> int \<times> int) list option"

type_synonym fs = "string \<Rightarrow> tree"

record parsers =
  ps_counters :: "string \<Rightarrow> counters option"
  ps_profile :: "string \<Rightarrow> profile \<Rightarrow> profile option"
  ps_compiles :: "string \<Rightarrow> bool"
  ps_hash :: "string \<Rightarrow> string"

abbreviation SharedDir :: string where "SharedDir \<equiv> ''_shared''"

section \<open>Snapshots\<close>

record snapshot =
  sn_gen :: int
  sn_fingerprint :: string
  sn_by_name :: "string \<rightharpoonup> profile"
  sn_names :: "string list"
  sn_counters :: counters
  sn_tiers :: tiers

definition snap_profile :: "snapshot option \<Rightarrow> string \<Rightarrow> profile option" where
  "snap_profile so name =
     (case so of
        None \<Rightarrow> None
      | Some s \<Rightarrow> sn_by_name s (if name = [] then DefaultName else name))"

definition snap_names :: "snapshot option \<Rightarrow> string list" where
  "snap_names so = (case so of None \<Rightarrow> [] | Some s \<Rightarrow> sn_names s)"

definition All :: "snapshot option \<Rightarrow> profile option list" where
  "All so = (case so of None \<Rightarrow> [] | Some s \<Rightarrow> map (sn_by_name s) (sn_names s))"

text \<open>\<open>strconv.FormatInt(n, 10)\<close>.\<close>

fun format_nat :: "nat \<Rightarrow> string" where
  "format_nat n = (if n < 10 then [char_of (48 + n)] else format_nat (n div 10) @ [char_of (48 + n mod 10)])"

declare format_nat.simps [simp del]

definition format_int :: "int \<Rightarrow> string" where
  "format_int n = (if n < 0 then CHR ''-'' # format_nat (nat (- n)) else format_nat (nat n))"

definition NUL :: char where
  "NUL = CHR 0x00"

definition stamp :: "string \<times> int \<times> int \<Rightarrow> string" where
  "stamp f = (case f of (rel, sz, mtime) \<Rightarrow>
     rel @ [NUL] @ format_int sz @ [NUL] @ format_int mtime @ [NUL])"

definition fingerprint :: "parsers \<Rightarrow> fs \<Rightarrow> string \<Rightarrow> err + string" where
  "fingerprint ps f dir =
     (case tr_files (f dir) of
        None \<Rightarrow> Inl (Err ''profiles'' ''walk'')
      | Some files \<Rightarrow> Inr (ps_hash ps (concat (map stamp files))))"

text \<open>\<open>readProfile\<close>: no profile where the directory has no file of that name.\<close>

definition readProfile :: "parsers \<Rightarrow> fs \<Rightarrow> string \<Rightarrow> string \<Rightarrow> counters \<Rightarrow> err + profile option" where
  "readProfile ps f dir name c =
     (case tr_profile (f dir) name of
        Absent \<Rightarrow> Inr None
      | Unreadable \<Rightarrow> Inl (Err ''profiles'' ''read'')
      | Contents raw \<Rightarrow>
          (case ParseProfile (ps_profile ps) name raw of
             Inl e \<Rightarrow> Inl e
           | Inr p0 \<Rightarrow>
               (case Validate (ps_compiles ps) p0 of
                  Inl e \<Rightarrow> Inl e
                | Inr p \<Rightarrow> (case ValidateAgainst p c of Some e \<Rightarrow> Inl e | None \<Rightarrow> Inr (Some p)))))"

type_synonym named = "(string \<rightharpoonup> profile) \<times> string list"

definition add_named :: "string \<Rightarrow> profile \<Rightarrow> named \<Rightarrow> named" where
  "add_named name p st = (case st of (m, names) \<Rightarrow> (m(name \<mapsto> p), names @ [name]))"

fun read_entries :: "parsers \<Rightarrow> fs \<Rightarrow> string \<Rightarrow> counters \<Rightarrow> (string \<times> bool) list \<Rightarrow> named \<Rightarrow> err + named" where
  "read_entries ps f dir c [] st = Inr st"
| "read_entries ps f dir c ((name, is_dir) # es) st =
     (if \<not> is_dir \<or> name = SharedDir then read_entries ps f dir c es st
      else case readProfile ps f dir name c of
             Inl e \<Rightarrow> Inl e
           | Inr None \<Rightarrow> read_entries ps f dir c es st
           | Inr (Some p) \<Rightarrow> read_entries ps f dir c es (add_named name p st))"

text \<open>The probe profile of the base directory, where the directory has none of its own.\<close>

definition add_probe :: "parsers \<Rightarrow> fs \<Rightarrow> string \<Rightarrow> string \<Rightarrow> counters \<Rightarrow> named \<Rightarrow> named" where
  "add_probe ps f base dir c st =
     (if fst st ProbeName = None \<and> base \<noteq> dir then
        (case readProfile ps f base ProbeName c of
           Inl _ \<Rightarrow> st
         | Inr None \<Rightarrow> st
         | Inr (Some p) \<Rightarrow> add_named ProbeName p st)
      else st)"

section \<open>The store\<close>

record store =
  st_dir :: string
  st_base :: string
  st_cur :: "snapshot option"
  st_gen :: int

text \<open>\<open>read\<close>: the files are read from \<open>f\<close> and fingerprinted in \<open>f'\<close>.\<close>

definition read_counters :: "parsers \<Rightarrow> fs \<Rightarrow> string \<Rightarrow> err + counters" where
  "read_counters ps f dir =
     (case tr_counters (f dir) of
        Contents raw \<Rightarrow> ParseCounters (ps_counters ps raw)
      | _ \<Rightarrow> Inl (Err ''profiles'' ''shared counters''))"

definition read_named :: "parsers \<Rightarrow> fs \<Rightarrow> string \<Rightarrow> string \<Rightarrow> err + (counters \<times> named)" where
  "read_named ps f base dir =
     (case tr_entries (f dir) of
        None \<Rightarrow> Inl (Err ''profiles'' ''read dir'')
      | Some es \<Rightarrow>
          (case read_counters ps f dir of
             Inl e \<Rightarrow> Inl e
           | Inr c \<Rightarrow>
               (case read_entries ps f dir c es (Map.empty, []) of
                  Inl e \<Rightarrow> Inl e
                | Inr st0 \<Rightarrow>
                    (let st = add_probe ps f base dir c st0
                     in if fst st DefaultName = None then Inl (Err ''profiles'' ''default is missing'')
                        else Inr (c, st)))))"

definition read_store :: "parsers \<Rightarrow> fs \<Rightarrow> fs \<Rightarrow> store \<Rightarrow> err + snapshot" where
  "read_store ps f f' s =
     (case read_named ps f (st_base s) (st_dir s) of
        Inl e \<Rightarrow> Inl e
      | Inr (c, m, names) \<Rightarrow>
          (case fingerprint ps f' (st_dir s) of
             Inl e \<Rightarrow> Inl e
           | Inr fp \<Rightarrow>
               Inr \<lparr>sn_gen = wrap64 (st_gen s + 1), sn_fingerprint = fp, sn_by_name = m, sn_names = sort names,
                    sn_counters = c, sn_tiers = Tiers c\<rparr>))"

definition serve :: "snapshot \<Rightarrow> store \<Rightarrow> store" where
  "serve sn s = s\<lparr>st_cur := Some sn, st_gen := sn_gen sn\<rparr>"

definition LoadProfiles :: "parsers \<Rightarrow> fs \<Rightarrow> fs \<Rightarrow> string \<Rightarrow> err + store" where
  "LoadProfiles ps f f' dir =
     (let s = \<lparr>st_dir = dir, st_base = dir, st_cur = None, st_gen = 0\<rparr>
      in case read_store ps f f' s of Inl e \<Rightarrow> Inl e | Inr sn \<Rightarrow> Inr (serve sn s))"

definition ReloadFrom :: "parsers \<Rightarrow> fs \<Rightarrow> fs \<Rightarrow> string \<Rightarrow> store \<Rightarrow> store \<times> err option" where
  "ReloadFrom ps f f' dir s =
     (let s1 = s\<lparr>st_dir := dir\<rparr>
      in case read_store ps f f' s1 of
           Inl e \<Rightarrow> (s1\<lparr>st_dir := st_dir s\<rparr>, Some e)
         | Inr sn \<Rightarrow> (serve sn s1, None))"

text \<open>\<open>Reload\<close> looks at the fingerprint first, at a third moment.\<close>

definition Reload :: "parsers \<Rightarrow> fs \<Rightarrow> fs \<Rightarrow> fs \<Rightarrow> store \<Rightarrow> store \<times> (err + bool)" where
  "Reload ps f0 f f' s =
     (case fingerprint ps f0 (st_dir s) of
        Inl e \<Rightarrow> (s, Inl e)
      | Inr fp \<Rightarrow>
          if map_option sn_fingerprint (st_cur s) = Some fp then (s, Inr False)
          else case read_store ps f f' s of
                 Inl e \<Rightarrow> (s, Inl e)
               | Inr sn \<Rightarrow> (serve sn s, Inr True))"

text \<open>
  The life of a store: loaded once, then reloaded by the watcher and by the desired state, each
  under any state of the file system.
\<close>

inductive store_reach :: "parsers \<Rightarrow> store \<Rightarrow> bool" for ps where
  load: "LoadProfiles ps f f' dir = Inr s \<Longrightarrow> store_reach ps s"
| reload: "store_reach ps s \<Longrightarrow> store_reach ps (fst (Reload ps f0 f f' s))"
| reload_from: "store_reach ps s \<Longrightarrow> store_reach ps (fst (ReloadFrom ps f f' dir s))"

section \<open>What a snapshot holds\<close>

text \<open>A profile that passed every check of its file.\<close>

definition served_ok :: "parsers \<Rightarrow> counters \<Rightarrow> string \<Rightarrow> profile \<Rightarrow> bool" where
  "served_ok ps c name p \<longleftrightarrow>
     pf_name p = name \<and> Validate (ps_compiles ps) p = Inr p \<and> ValidateAgainst p c = None"

definition snap_ok :: "parsers \<Rightarrow> snapshot \<Rightarrow> bool" where
  "snap_ok ps sn \<longleftrightarrow>
     sn_by_name sn DefaultName \<noteq> None \<and>
     (\<exists>raw. ParseCounters (ps_counters ps raw) = Inr (sn_counters sn)) \<and> sn_tiers sn = Tiers (sn_counters sn) \<and>
     (\<forall>name p. sn_by_name sn name = Some p \<longrightarrow> served_ok ps (sn_counters sn) name p) \<and>
     sorted (sn_names sn) \<and> set (sn_names sn) = dom (sn_by_name sn)"

definition named_ok :: "parsers \<Rightarrow> counters \<Rightarrow> named \<Rightarrow> bool" where
  "named_ok ps c st \<longleftrightarrow>
     (\<forall>name p. fst st name = Some p \<longrightarrow> served_ok ps c name p) \<and> set (snd st) = dom (fst st)"

lemma Validate_name: "Validate compiles p = Inr q \<Longrightarrow> pf_name q = pf_name p"
  by (auto simp: Validate_def split: option.splits sum.splits if_splits)

lemma readProfile_ok: "readProfile ps f dir name c = Inr (Some p) \<Longrightarrow> served_ok ps c name p"
  by (auto simp: readProfile_def ParseProfile_def served_ok_def dest: Validate_name Validate_again
      split: file_state.splits sum.splits option.splits)

lemma add_named_ok: "named_ok ps c st \<Longrightarrow> served_ok ps c name p \<Longrightarrow> named_ok ps c (add_named name p st)"
  by (cases st) (auto simp: named_ok_def add_named_def split: if_splits)

lemma read_entries_ok: "read_entries ps f dir c es st = Inr st' \<Longrightarrow> named_ok ps c st \<Longrightarrow> named_ok ps c st'"
proof (induction es arbitrary: st)
  case Nil
  then show ?case by simp
next
  case (Cons e es)
  obtain name d where e: "e = (name, d)" by (cases e)
  have step: "named_ok ps c (add_named name p st)" if "readProfile ps f dir name c = Inr (Some p)" for p
    using that Cons.prems(2) by (intro add_named_ok readProfile_ok)
  from Cons.prems show ?case
    unfolding e by (auto split: if_splits sum.splits option.splits intro: Cons.IH step simp del: split_paired_All)
qed

lemma add_probe_ok: "named_ok ps c st \<Longrightarrow> named_ok ps c (add_probe ps f base dir c st)"
  by (auto simp: add_probe_def split: sum.splits option.splits intro: add_named_ok readProfile_ok)

lemma read_named_ok:
  assumes "read_named ps f base dir = Inr (c, st)"
  shows "named_ok ps c st \<and> fst st DefaultName \<noteq> None \<and> (\<exists>raw. ParseCounters (ps_counters ps raw) = Inr c)"
proof -
  obtain es where es: "tr_entries (f dir) = Some es" using assms by (auto simp: read_named_def split: option.splits)
  obtain c' where c': "read_counters ps f dir = Inr c'"
    using assms by (auto simp: read_named_def es split: sum.splits)
  obtain st0 where st0: "read_entries ps f dir c' es (Map.empty, []) = Inr st0"
    using assms by (auto simp: read_named_def es c' split: sum.splits)
  have st: "c = c'" "st = add_probe ps f base dir c' st0" "fst st DefaultName \<noteq> None"
    using assms by (auto simp: read_named_def es c' st0 Let_def split: if_splits)
  have "named_ok ps c' (Map.empty, [])" by (simp add: named_ok_def)
  then have "named_ok ps c' st" unfolding st(2) by (intro add_probe_ok read_entries_ok [OF st0])
  moreover from c' have "\<exists>raw. ParseCounters (ps_counters ps raw) = Inr c'"
    by (auto simp: read_counters_def split: file_state.splits)
  ultimately show ?thesis using st(1,3) by blast
qed

lemma read_store_ok: "read_store ps f f' s = Inr sn \<Longrightarrow> snap_ok ps sn"
  using read_named_ok [of ps f "st_base s" "st_dir s"]
  by (force simp: read_store_def snap_ok_def named_ok_def split: sum.splits)

lemma serve_cur [simp]: "st_cur (serve sn s) = Some sn"
  by (simp add: serve_def)

lemma Reload_outcome:
  "Reload ps f0 f f' s = (s', r) \<Longrightarrow>
   (s' = s \<and> r \<noteq> Inr True) \<or> (\<exists>sn. read_store ps f f' s = Inr sn \<and> s' = serve sn s \<and> r = Inr True)"
  by (cases "fingerprint ps f0 (st_dir s)"; cases "read_store ps f f' s") (auto simp: Reload_def split: if_splits)

lemma ReloadFrom_outcome:
  "ReloadFrom ps f f' dir s = (s', r) \<Longrightarrow>
   (s' = s \<and> r \<noteq> None) \<or>
   (\<exists>sn. read_store ps f f' (s\<lparr>st_dir := dir\<rparr>) = Inr sn \<and> s' = serve sn (s\<lparr>st_dir := dir\<rparr>) \<and> r = None)"
  by (cases "read_store ps f f' (s\<lparr>st_dir := dir\<rparr>)") (auto simp: ReloadFrom_def Let_def)

lemma store_reach_ok: "store_reach ps s \<Longrightarrow> \<exists>sn. st_cur s = Some sn \<and> snap_ok ps sn"
proof (induction rule: store_reach.induct)
  case (load f f' dir s)
  then show ?case by (auto simp: LoadProfiles_def Let_def dest: read_store_ok split: sum.splits)
next
  case (reload s f0 f f')
  from Reload_outcome [OF prod.collapse [symmetric], of ps f0 f f' s] reload.IH show ?case
    using read_store_ok by force
next
  case (reload_from s f f' dir)
  from ReloadFrom_outcome [OF prod.collapse [symmetric], of ps f f' dir s] reload_from.IH show ?case
    using read_store_ok by force
qed

section \<open>Fingerprints\<close>

lemma format_nat_chars: "c \<in> set (format_nat n) \<Longrightarrow> \<exists>d < 10. c = char_of (48 + d :: nat)"
proof (induction n rule: format_nat.induct)
  case (1 n)
  show ?case
  proof (cases "n < 10")
    case True
    with "1.prems" show ?thesis by (subst (asm) format_nat.simps) auto
  next
    case False
    with "1.prems" have "c \<in> set (format_nat (n div 10)) \<or> c = char_of (48 + n mod 10)"
      by (subst (asm) format_nat.simps) auto
    with "1.IH" [OF False] show ?thesis by (auto intro: exI [of _ "n mod 10"])
  qed
qed

lemma digit_char: "d < 10 \<Longrightarrow> digit_val (char_of (48 + d :: nat)) = int d"
  using of_nat_of_char [of "char_of (48 + d)", where 'a = int] by (simp add: digit_val_def)

lemma digits_format: "digits_val (format_nat n) = int n"
proof (induction n rule: format_nat.induct)
  case (1 n)
  show ?case
  proof (cases "n < 10")
    case True
    then show ?thesis by (subst format_nat.simps) (simp add: digits_val_def digit_char)
  next
    case False
    with 1 have "digits_val (format_nat n) = 10 * int (n div 10) + int (n mod 10)"
      by (subst format_nat.simps) (simp add: digits_val_def digit_char)
    then show ?thesis by (metis mult_div_mod_eq of_nat_add of_nat_mult of_nat_numeral)
  qed
qed

lemma format_nat_inj: "format_nat m = format_nat n \<Longrightarrow> m = n"
  by (metis digits_format of_nat_eq_iff)

lemma format_nat_digits: "c \<in> set (format_nat n) \<Longrightarrow> 0 \<le> digit_val c"
  using format_nat_chars digit_char by (metis of_nat_0_le_iff)

lemma format_nat_ne: "CHR ''-'' # s \<noteq> format_nat n"
proof
  assume h: "CHR ''-'' # s = format_nat n"
  have "CHR ''-'' \<in> set (format_nat n)" unfolding h [symmetric] by simp
  from format_nat_digits [OF this] show False by (simp add: digit_val_def)
qed

lemma format_int_inj: "format_int a = format_int b \<Longrightarrow> a = b"
  by (auto simp: format_int_def format_nat_ne format_nat_ne [symmetric] dest: format_nat_inj split: if_splits)

lemma format_int_no_NUL: "NUL \<notin> set (format_int n)"
  using format_nat_digits [of NUL] by (auto simp: format_int_def NUL_def digit_val_def)

lemma split_at:
  "a @ c # b = a' @ c # b' \<Longrightarrow> c \<notin> set a \<Longrightarrow> c \<notin> set a' \<Longrightarrow> a = a' \<and> b = b'"
proof (induction a arbitrary: a')
  case Nil
  then show ?case by (cases a') auto
next
  case (Cons x xs)
  then show ?case by (cases a') auto
qed

lemma stamp_append:
  "stamp (r, z, m) @ rest = r @ NUL # format_int z @ NUL # format_int m @ NUL # rest"
  by (simp add: stamp_def)

lemma stamps_inj:
  assumes "concat (map stamp xs) = concat (map stamp ys)"
    and "\<forall>x \<in> set xs. NUL \<notin> set (fst x)" and "\<forall>y \<in> set ys. NUL \<notin> set (fst y)"
  shows "xs = ys"
  using assms
proof (induction xs arbitrary: ys)
  case Nil
  then show ?case by (cases ys) (auto simp: stamp_def)
next
  case (Cons x xs)
  obtain y ys' where ys: "ys = y # ys'" using Cons.prems(1) by (cases ys) (auto simp: stamp_def split: prod.splits)
  obtain r z m r' z' m' where x: "x = (r, z, m)" and y: "y = (r', z', m')" by (cases x, cases y)
  have "r @ NUL # format_int z @ NUL # format_int m @ NUL # concat (map stamp xs) =
      r' @ NUL # format_int z' @ NUL # format_int m' @ NUL # concat (map stamp ys')"
    using Cons.prems(1) by (simp only: ys x y list.map concat.simps stamp_append)
  from split_at [OF this] Cons.prems(2,3) have r: "r = r'"
    and rest: "format_int z @ NUL # format_int m @ NUL # concat (map stamp xs) =
      format_int z' @ NUL # format_int m' @ NUL # concat (map stamp ys')" by (simp_all add: ys x y)
  from split_at [OF rest format_int_no_NUL format_int_no_NUL] have z: "z = z'"
    and rest2: "format_int m @ NUL # concat (map stamp xs) = format_int m' @ NUL # concat (map stamp ys')"
    by (auto dest: format_int_inj)
  from split_at [OF rest2 format_int_no_NUL format_int_no_NUL] have "m = m'"
    and "concat (map stamp xs) = concat (map stamp ys')" by (auto dest: format_int_inj)
  with Cons r z show ?case by (simp add: ys x y)
qed

section \<open>Properties\<close>

text \<open>
  Whatever happens to the files, a store that has started always serves a snapshot
  in which the default profile exists, every profile passed its own validation and the one against
  the counters of the same snapshot, and the tiers are those of these counters.
\<close>

theorem store_serves_valid:
  assumes "store_reach ps s"
  shows "\<exists>sn raw. st_cur s = Some sn \<and> snap_profile (st_cur s) [] \<noteq> None \<and>
    ParseCounters (ps_counters ps raw) = Inr (sn_counters sn) \<and> sn_tiers sn = Tiers (sn_counters sn) \<and>
    (\<forall>name p. snap_profile (st_cur s) name = Some p \<longrightarrow>
       pf_name p = (if name = [] then DefaultName else name) \<and>
       Validate (ps_compiles ps) p = Inr p \<and> ValidateAgainst p (sn_counters sn) = None) \<and>
    sorted (snap_names (st_cur s)) \<and> set (snap_names (st_cur s)) = dom (sn_by_name sn)"
  using store_reach_ok [OF assms] by (auto simp: snap_ok_def served_ok_def snap_profile_def snap_names_def)

text \<open>A configuration directory with the shipped counters and the default profile.\<close>

definition demo_parsers :: parsers where
  "demo_parsers = \<lparr>ps_counters = \<lambda>_. Some shipped_counters, ps_profile = \<lambda>_ _. Some default_profile,
     ps_compiles = \<lambda>_. True, ps_hash = \<lambda>s. s\<rparr>"

definition demo_fs :: fs where
  "demo_fs = (\<lambda>_. \<lparr>tr_entries = Some [(''_shared'', True), (''default'', True), (''README'', False)],
     tr_counters = Contents ''counters'', tr_profile = (\<lambda>n. if n = ''default'' then Contents ''profile'' else Absent),
     tr_files = Some [(''default/profile.yaml'', 700, 5)]\<rparr>)"

lemma demo_counters: "ParseCounters (Some shipped_counters) = Inr shipped_counters"
  by (rule shipped_parsed)

lemma demo_read:
  "readProfile demo_parsers demo_fs dir ''default'' shipped_counters = Inr (Some default_profile)"
proof -
  have "default_profile\<lparr>pf_name := ''default''\<rparr> = default_profile" by (simp add: default_profile_def defaults_def)
  then show ?thesis
    by (simp add: readProfile_def demo_fs_def demo_parsers_def ParseProfile_def default_profile_accepted
        default_profile_declared)
qed

definition demo_snapshot :: snapshot where
  "demo_snapshot = \<lparr>sn_gen = 1, sn_fingerprint = stamp (''default/profile.yaml'', 700, 5),
     sn_by_name = [''default'' \<mapsto> default_profile], sn_names = [''default''],
     sn_counters = shipped_counters, sn_tiers = Tiers shipped_counters\<rparr>"

definition demo_store :: store where
  "demo_store = \<lparr>st_dir = ''profiles'', st_base = ''profiles'', st_cur = Some demo_snapshot, st_gen = 1\<rparr>"

lemma demo_read_store:
  "read_store demo_parsers demo_fs demo_fs \<lparr>st_dir = ''profiles'', st_base = ''profiles'', st_cur = c, st_gen = 0\<rparr> =
   Inr demo_snapshot"
proof -
  have "read_counters demo_parsers demo_fs ''profiles'' = Inr shipped_counters"
    by (simp add: read_counters_def demo_fs_def demo_parsers_def shipped_parsed)
  moreover have "tr_entries (demo_fs ''profiles'') = Some [(''_shared'', True), (''default'', True), (''README'', False)]"
    by (simp add: demo_fs_def)
  ultimately have "read_named demo_parsers demo_fs ''profiles'' ''profiles'' =
      Inr (shipped_counters, [''default'' \<mapsto> default_profile], [''default''])"
    by (simp add: read_named_def demo_read add_named_def add_probe_def)
  moreover have "fingerprint demo_parsers demo_fs ''profiles'' = Inr (stamp (''default/profile.yaml'', 700, 5))"
    by (simp add: fingerprint_def demo_parsers_def demo_fs_def)
  ultimately show ?thesis
    by (simp add: read_store_def demo_snapshot_def wrap64_id in64_def)
qed

lemma demo_load: "LoadProfiles demo_parsers demo_fs demo_fs ''profiles'' = Inr demo_store"
  by (simp add: LoadProfiles_def demo_read_store serve_def demo_store_def Let_def) (simp add: demo_snapshot_def)

theorem store_serves_valid_witness: "snap_profile (st_cur demo_store) [] \<noteq> None"
  using store_serves_valid [OF store_reach.load [OF demo_load]] by blast

text \<open>
  A reload that fails, for whatever reason and however far it got, leaves the store
  exactly as it was: the directory, the generation and the profiles that requests are judged with.
\<close>

theorem failed_reload_keeps:
  "(snd (Reload ps f0 f f' s) \<noteq> Inr True \<longrightarrow> fst (Reload ps f0 f f' s) = s) \<and>
   (snd (ReloadFrom ps f f' dir s) \<noteq> None \<longrightarrow> fst (ReloadFrom ps f f' dir s) = s)"
  using Reload_outcome [OF prod.collapse [symmetric], of ps f0 f f' s]
    ReloadFrom_outcome [OF prod.collapse [symmetric], of ps f f' dir s] by auto

definition broken_fs :: fs where
  "broken_fs = (\<lambda>d. (demo_fs d)\<lparr>tr_counters := Unreadable\<rparr>)"

theorem failed_reload_keeps_witness:
  "snd (ReloadFrom demo_parsers broken_fs broken_fs ''next'' demo_store) \<noteq> None \<and>
   fst (ReloadFrom demo_parsers broken_fs broken_fs ''next'' demo_store) = demo_store"
proof -
  have "snd (ReloadFrom demo_parsers broken_fs broken_fs ''next'' demo_store) \<noteq> None"
    by (simp add: ReloadFrom_def read_store_def read_named_def read_counters_def broken_fs_def demo_fs_def Let_def)
  with failed_reload_keeps [of demo_parsers demo_fs broken_fs broken_fs demo_store "''next''"] show ?thesis by blast
qed

text \<open>
  When the files stood still while a snapshot was read, and SHA-256 keeps the two
  listings apart, a later look at the directory that finds nothing to reload means that every file
  still has the name, the size and the time of change that it had when it was read.
\<close>

theorem unchanged_is_current:
  assumes "read_store ps f f' s0 = Inr sn" and "tr_files (f' (st_dir s0)) = tr_files (f (st_dir s0))"
    and "st_cur s = Some sn" and "st_dir s = st_dir s0" and "snd (Reload ps f1 f2 f2' s) = Inr False"
    and "\<And>a b. ps_hash ps a = ps_hash ps b \<Longrightarrow> a = b"
    and "\<And>g files. g = f \<or> g = f1 \<Longrightarrow> tr_files (g (st_dir s)) = Some files \<Longrightarrow> \<forall>x \<in> set files. NUL \<notin> set (fst x)"
  shows "tr_files (f1 (st_dir s)) = tr_files (f (st_dir s))"
proof -
  obtain a where a: "tr_files (f (st_dir s)) = Some a" and fa: "sn_fingerprint sn = ps_hash ps (concat (map stamp a))"
    using assms(1,2,4) by (auto simp: read_store_def fingerprint_def split: sum.splits option.splits)
  obtain b where b: "tr_files (f1 (st_dir s)) = Some b" and fb: "sn_fingerprint sn = ps_hash ps (concat (map stamp b))"
    using assms(3,5) by (auto simp: Reload_def fingerprint_def split: sum.splits option.splits if_splits)
  from fa fb assms(6) have "concat (map stamp b) = concat (map stamp a)" by metis
  with assms(7) [of f a] assms(7) [of f1 b] a b assms(4) have "b = a" by (intro stamps_inj) auto
  with a b show ?thesis by simp
qed

theorem unchanged_is_current_witness:
  "snd (Reload demo_parsers demo_fs demo_fs demo_fs demo_store) = Inr False \<and>
   tr_files (demo_fs (st_dir demo_store)) = tr_files (demo_fs (st_dir demo_store))"
proof -
  let ?s0 = "\<lparr>st_dir = ''profiles'', st_base = ''profiles'', st_cur = None, st_gen = 0\<rparr>"
  have r: "snd (Reload demo_parsers demo_fs demo_fs demo_fs demo_store) = Inr False"
    by (simp add: Reload_def demo_store_def fingerprint_def demo_fs_def demo_parsers_def demo_snapshot_def)
  moreover have "tr_files (demo_fs (st_dir demo_store)) = tr_files (demo_fs (st_dir demo_store))"
    by (rule unchanged_is_current [OF demo_read_store [of None] _ _ _ r])
      (auto simp: demo_store_def demo_parsers_def demo_fs_def NUL_def)
  ultimately show ?thesis by (rule conjI)
qed

text \<open>
  The hypothesis that the files stood still is needed: the fingerprint is taken after the files
  were read, so whatever changed in between is never noticed.
\<close>

lemma change_during_read_is_lost:
  assumes "read_store ps f f' s = Inr sn"
  shows "Reload ps f' f2 f2' (serve sn s) = (serve sn s, Inr False)"
  using assms by (auto simp: read_store_def Reload_def serve_def fingerprint_def split: sum.splits option.splits)

end
