(* ===== verification/Body.thy ===== *)
theory Body
  imports Protocol
begin

text \<open>
  \<open>internal/body/body.go\<close> and \<open>redis.go\<close>: fetching the objects of a request from the exchange
  store, one by one or in one batch, with decryption and the check of the digest.  The Redis
  client, the secrets and the primitives (SHA-256, AES-GCM once its key and nonce have the right
  lengths) are parameters; a context's deadline is one of the reasons for which a client may answer
  with an error.  A panic is \<open>None\<close>: \<open>Open\<close> of the GCM panics on a nonce of the wrong length, and a
  batch may be shorter than its keys.
\<close>

section \<open>The object store\<close>

datatype get_error = ErrUnknownDriver | StoreFailed

type_synonym getter = "string \<Rightarrow> string \<Rightarrow> string \<Rightarrow> get_error + string"
type_synonym many_getter = "string \<Rightarrow> string \<Rightarrow> string list \<Rightarrow> get_error + string option list"

text \<open>The interface \<open>Store\<close>, with \<open>MultiStore\<close> where the implementation has it.\<close>

record obj_client =
  ob_get :: getter
  ob_get_many :: "many_getter option"

record crypto =
  cr_digest :: "string \<Rightarrow> string"
  cr_open :: "string \<Rightarrow> string \<Rightarrow> string \<Rightarrow> string option"

record loader =
  ld_store :: "obj_client option"
  ld_keys :: "(string \<Rightarrow> string option) option"

text \<open>The implementation over Redis: \<open>GET\<close> and \<open>MGET\<close> of one client.\<close>

record redis_client =
  rd_get :: "string \<Rightarrow> string option"
  rd_mget :: "string list \<Rightarrow> string option list option"

definition redis_Get :: "redis_client \<Rightarrow> getter" where
  "redis_Get cl driver store key =
     (if driver \<noteq> ''redis'' then Inl ErrUnknownDriver
      else case rd_get cl key of None \<Rightarrow> Inl StoreFailed | Some v \<Rightarrow> Inr v)"

definition redis_GetMany :: "redis_client \<Rightarrow> many_getter" where
  "redis_GetMany cl driver store keys =
     (if driver \<noteq> ''redis'' then Inl ErrUnknownDriver
      else if keys = [] then Inr []
      else case rd_mget cl keys of
             None \<Rightarrow> Inl StoreFailed
           | Some vals \<Rightarrow> if length vals \<noteq> length keys then Inl StoreFailed else Inr vals)"

definition redis_store :: "redis_client \<Rightarrow> obj_client" where
  "redis_store cl = \<lparr>ob_get = redis_Get cl, ob_get_many = Some (redis_GetMany cl)\<rparr>"

section \<open>Loading\<close>

record body =
  bd_data :: string
  bd_truncated :: bool
  bd_unavailable :: string
  bd_fault :: bool
  bd_sha256 :: string

abbreviation unavailableNoStore :: string where "unavailableNoStore \<equiv> ''store_unconfigured''"
abbreviation unavailableStoreError :: string where "unavailableStoreError \<equiv> ''store_error''"
abbreviation unavailableUnknownDrv :: string where "unavailableUnknownDrv \<equiv> ''unknown_driver''"
abbreviation unavailableDecryptFail :: string where "unavailableDecryptFail \<equiv> ''decrypt_failed''"
abbreviation unavailableDigestFail :: string where "unavailableDigestFail \<equiv> ''digest_mismatch''"

definition empty_body :: body where
  "empty_body = \<lparr>bd_data = [], bd_truncated = False, bd_unavailable = [], bd_fault = False, bd_sha256 = []\<rparr>"

definition fault :: "string \<Rightarrow> body" where
  "fault why = empty_body\<lparr>bd_unavailable := why, bd_fault := True\<rparr>"

definition Available :: "body \<Rightarrow> bool" where
  "Available b \<longleftrightarrow> bd_unavailable b = []"

definition Failed :: "body \<Rightarrow> bool" where
  "Failed b = bd_fault b"

text \<open>
  \<open>base64.StdEncoding.DecodeString\<close>: line ends are skipped, the rest are groups of four characters of
  which the last may end in one or two signs of padding.
\<close>

definition b64_val :: "char \<Rightarrow> nat option" where
  "b64_val c =
     (let n = of_char c in
      if 65 \<le> n \<and> n \<le> 90 then Some (n - 65) else if 97 \<le> n \<and> n \<le> 122 then Some (n - 71)
      else if 48 \<le> n \<and> n \<le> 57 then Some (n + 4) else if n = 43 then Some 62 else if n = 47 then Some 63 else None)"

text \<open>The bytes that two, three or four values of six bits hold; what is left over is dropped.\<close>

definition b64_bytes :: "nat list \<Rightarrow> string" where
  "b64_bytes vs =
     (case vs of
        [a, b] \<Rightarrow> [char_of (4 * a + b div 16)]
      | [a, b, c] \<Rightarrow> [char_of (4 * a + b div 16), char_of (16 * (b mod 16) + c div 4)]
      | [a, b, c, d] \<Rightarrow>
          [char_of (4 * a + b div 16), char_of (16 * (b mod 16) + c div 4), char_of (64 * (c mod 4) + d)]
      | _ \<Rightarrow> [])"

definition b64_group :: "string \<Rightarrow> string option" where
  "b64_group cs = map_option b64_bytes (those (map b64_val cs))"

fun b64_groups :: "string \<Rightarrow> string option" where
  "b64_groups [] = Some []"
| "b64_groups (a # b # c # d # rest) =
     (if d = CHR ''='' then (if rest \<noteq> [] then None else b64_group (if c = CHR ''='' then [a, b] else [a, b, c]))
      else case b64_group [a, b, c, d] of
             None \<Rightarrow> None
           | Some bytes \<Rightarrow> map_option ((@) bytes) (b64_groups rest))"
| "b64_groups _ = None"

definition base64_decode :: "string \<Rightarrow> string option" where
  "base64_decode s = b64_groups (filter (\<lambda>c. c \<noteq> CHR 0x0A \<and> c \<noteq> CHR 0x0D) s)"

text \<open>\<open>aes.NewCipher\<close> takes keys of three lengths; the nonce of \<open>cipher.NewGCM\<close> has twelve bytes.\<close>

definition aes_key :: "string \<Rightarrow> bool" where
  "aes_key key \<longleftrightarrow> length key \<in> {16, 24, 32}"

abbreviation gcm_nonce_size :: nat where "gcm_nonce_size \<equiv> 12"

text \<open>The outer \<open>None\<close> is the panic, the inner one an error.\<close>

definition decrypt :: "crypto \<Rightarrow> loader \<Rightarrow> enc \<Rightarrow> string \<Rightarrow> string option option" where
  "decrypt cr l e raw =
     (case ld_keys l of
        None \<Rightarrow> Some None
      | Some key_of \<Rightarrow>
          if enc_alg e \<noteq> ''aes-256-gcm'' then Some None
          else case key_of (enc_kid e) of
                 None \<Rightarrow> Some None
               | Some key \<Rightarrow>
                   if \<not> aes_key key then Some None
                   else case base64_decode (enc_nonce e) of
                          None \<Rightarrow> Some None
                        | Some nonce \<Rightarrow>
                            if length nonce \<noteq> gcm_nonce_size then None else Some (cr_open cr key nonce raw))"

text \<open>The digest that the content has to have; empty where none is demanded.\<close>

definition wanted_digest :: "locator \<Rightarrow> string" where
  "wanted_digest loc =
     (if lo_processed_sha256 loc \<noteq> [] then lo_processed_sha256 loc
      else if lo_truncated loc then [] else lo_sha256 loc)"

definition finish :: "crypto \<Rightarrow> loader \<Rightarrow> locator \<Rightarrow> string \<Rightarrow> body option" where
  "finish cr l loc raw0 =
     (case (case lo_enc loc of None \<Rightarrow> Some (Some raw0) | Some e \<Rightarrow> decrypt cr l e raw0) of
        None \<Rightarrow> None
      | Some None \<Rightarrow> Some (fault unavailableDecryptFail)
      | Some (Some raw) \<Rightarrow>
          (let digest = cr_digest cr raw; want = wanted_digest loc
           in if want \<noteq> [] \<and> want \<noteq> digest then Some (fault unavailableDigestFail)
              else Some \<lparr>bd_data = raw, bd_truncated = lo_truncated loc, bd_unavailable = [],
                     bd_fault = False, bd_sha256 = digest\<rparr>))"

definition get_result :: "crypto \<Rightarrow> loader \<Rightarrow> locator \<Rightarrow> get_error + string \<Rightarrow> body option" where
  "get_result cr l loc res =
     (case res of
        Inl ErrUnknownDriver \<Rightarrow> Some (fault unavailableUnknownDrv)
      | Inl StoreFailed \<Rightarrow> Some (fault unavailableStoreError)
      | Inr raw \<Rightarrow> finish cr l loc raw)"

definition Load :: "crypto \<Rightarrow> loader \<Rightarrow> locator option \<Rightarrow> body option" where
  "Load cr l lo =
     (case lo of
        None \<Rightarrow> Some empty_body
      | Some loc \<Rightarrow>
          if lo_unavailable loc \<noteq> [] then Some (empty_body\<lparr>bd_unavailable := lo_unavailable loc\<rparr>)
          else if lo_driver loc \<noteq> [] then
            (case ld_store l of
               None \<Rightarrow> Some (fault unavailableNoStore)
             | Some st \<Rightarrow> get_result cr l loc (ob_get st (lo_driver loc) (lo_store loc) (lo_key loc)))
          else Some empty_body)"

text \<open>
  The batch of \<open>LoadMany\<close>: the addressed locators of the driver and store of the first one, with
  their positions.
\<close>

definition addressed :: "locator option \<Rightarrow> bool" where
  "addressed lo = (case lo of None \<Rightarrow> False | Some loc \<Rightarrow> lo_unavailable loc = [] \<and> lo_driver loc \<noteq> [])"

fun batch :: "(string \<times> string) option \<Rightarrow> nat \<Rightarrow> locator option list \<Rightarrow> (nat \<times> locator) list" where
  "batch ds i [] = []"
| "batch ds i (None # los) = batch ds (Suc i) los"
| "batch ds i (Some loc # los) =
     (if \<not> addressed (Some loc) then batch ds (Suc i) los
      else case ds of
        Some d \<Rightarrow> if (lo_driver loc, lo_store loc) \<noteq> d then batch ds (Suc i) los
                  else (i, loc) # batch ds (Suc i) los
      | None \<Rightarrow> (i, loc) # batch (Some (lo_driver loc, lo_store loc)) (Suc i) los)"

definition batch_one :: "crypto \<Rightarrow> loader \<Rightarrow> locator \<Rightarrow> string option \<Rightarrow> body option" where
  "batch_one cr l loc raw =
     (case raw of None \<Rightarrow> Some (fault unavailableStoreError) | Some r \<Rightarrow> finish cr l loc r)"

fun put_bodies :: "'b list \<Rightarrow> (nat \<times> 'b) list \<Rightarrow> 'b list" where
  "put_bodies out [] = out"
| "put_bodies out ((i, b) # bs) = put_bodies (out[i := b]) bs"

text \<open>The loop over the answers: it reads \<open>raws[n]\<close> for every key of the batch.\<close>

definition batch_bodies :: "crypto \<Rightarrow> loader \<Rightarrow> (nat \<times> locator) list \<Rightarrow> string option list \<Rightarrow> (nat \<times> body option) list" where
  "batch_bodies cr l bat raws =
     map (\<lambda>n. (fst (bat ! n), if n < length raws then batch_one cr l (snd (bat ! n)) (raws ! n) else None))
       [0..<length bat]"

text \<open>The bodies, or the panic of any of the steps.\<close>

definition LoadMany :: "crypto \<Rightarrow> loader \<Rightarrow> locator option list \<Rightarrow> body list option" where
  "LoadMany cr l los =
     (case (case ld_store l of None \<Rightarrow> None | Some st \<Rightarrow> ob_get_many st) of
        None \<Rightarrow> those (map (Load cr l) los)
      | Some get_many \<Rightarrow>
          (let bat = batch None 0 los; idx = map fst bat;
               single = (\<lambda>i lo. if i \<in> set idx then Some empty_body else Load cr l lo);
               out = map2 single [0..<length los] los
           in those
             (if length bat < 2 then put_bodies out (map (\<lambda>(i, loc). (i, Load cr l (Some loc))) bat)
              else case get_many (lo_driver (snd (hd bat))) (lo_store (snd (hd bat))) (map (lo_key \<circ> snd) bat) of
                Inl ErrUnknownDriver \<Rightarrow> put_bodies out (map (\<lambda>i. (i, Some (fault unavailableUnknownDrv))) idx)
              | Inl StoreFailed \<Rightarrow> put_bodies out (map (\<lambda>i. (i, Some (fault unavailableStoreError))) idx)
              | Inr raws \<Rightarrow> put_bodies out (batch_bodies cr l bat raws))))"

section \<open>The interface of a store that answers in batches\<close>

text \<open>
  What \<open>LoadMany\<close> needs of a store: a batch answers for every key what a single request would
  have answered, with an absent value where that is a plain failure.
\<close>

locale batch_store =
  fixes get :: getter and get_many :: many_getter
  assumes many_error: "get_many d s ks = Inl e \<Longrightarrow> k \<in> set ks \<Longrightarrow> get d s k = Inl e"
    and many_values: "get_many d s ks = Inr vs \<Longrightarrow> length vs = length ks \<and>
      (\<forall>i < length ks. get d s (ks ! i) = (case vs ! i of None \<Rightarrow> Inl StoreFailed | Some v \<Rightarrow> Inr v))"
begin

lemma many_value_at:
  "get_many d s ks = Inr vs \<Longrightarrow> i < length ks \<Longrightarrow>
   get d s (ks ! i) = (case vs ! i of None \<Rightarrow> Inl StoreFailed | Some v \<Rightarrow> Inr v)"
  using many_values by blast

lemma batch_body:
  assumes "get_many d s ks = Inr vs" and "i < length ks" and "lo_key loc = ks ! i"
  shows "batch_one cr l loc (vs ! i) = get_result cr l loc (get d s (lo_key loc))"
  using many_value_at [OF assms(1,2)] assms(3)
  by (simp add: batch_one_def get_result_def split: option.split)

end

text \<open>
  Redis is such a store when \<open>MGET\<close> is the \<open>GET\<close> of each key, as its documentation says, and
  when a client that fails one of them fails the other.
\<close>

locale redis_laws =
  fixes cl :: redis_client
  assumes mget_values: "rd_mget cl ks = Some vs \<Longrightarrow> vs = map (rd_get cl) ks"
    and mget_fails: "rd_mget cl ks = None \<Longrightarrow> k \<in> set ks \<Longrightarrow> rd_get cl k = None"
begin

lemma redis_batch: "batch_store (redis_Get cl) (redis_GetMany cl)"
proof
  fix d s ks e k
  assume "redis_GetMany cl d s ks = Inl e" and "k \<in> set ks"
  then show "redis_Get cl d s k = Inl e"
    using mget_values [of ks] mget_fails [of ks k]
    by (auto simp: redis_GetMany_def redis_Get_def split: if_splits option.splits)
next
  fix d s ks vs
  assume h: "redis_GetMany cl d s ks = Inr vs"
  show "length vs = length ks \<and>
      (\<forall>i < length ks. redis_Get cl d s (ks ! i) = (case vs ! i of None \<Rightarrow> Inl StoreFailed | Some v \<Rightarrow> Inr v))"
    using h mget_values [of ks]
    by (auto simp: redis_GetMany_def redis_Get_def split: if_splits option.splits)
qed

end

text \<open>A server: unreachable, or a keyspace that both commands read.\<close>

definition redis_server :: "(string \<rightharpoonup> string) option \<Rightarrow> redis_client" where
  "redis_server up =
     (case up of
        None \<Rightarrow> \<lparr>rd_get = \<lambda>_. None, rd_mget = \<lambda>_. None\<rparr>
      | Some m \<Rightarrow> \<lparr>rd_get = m, rd_mget = \<lambda>ks. Some (map m ks)\<rparr>)"

interpretation redis_laws "redis_server up" for up
  by unfold_locales (auto simp: redis_server_def split: option.splits)

interpretation rs: batch_store "redis_Get (redis_server up)" "redis_GetMany (redis_server up)" for up
  by (rule redis_batch)

section \<open>A batch is its single loads\<close>

lemma nth_Cons_shift: "Suc k \<le> i \<Longrightarrow> (x # xs) ! (i - k) = xs ! (i - Suc k)"
  by (simp add: nth_Cons')

lemma batch_positions:
  "(i, loc) \<in> set (batch ds k los) \<Longrightarrow>
   k \<le> i \<and> i < k + length los \<and> los ! (i - k) = Some loc \<and> addressed (Some loc)"
proof (induction ds k los rule: batch.induct)
  case (1 ds k)
  then show ?case by simp
next
  case (2 ds k los)
  then show ?case by (simp add: nth_Cons_shift)
next
  case (3 ds k l los)
  show ?case
    using 3 by (auto simp: nth_Cons_shift split: if_splits option.splits)
qed

lemma batch_same:
  "(i, loc) \<in> set (batch (Some d) k los) \<Longrightarrow> (lo_driver loc, lo_store loc) = d"
  by (induction "Some d" k los rule: batch.induct) (auto split: if_splits)

lemma batch_hd:
  "batch None k los = (i, loc) # bs \<Longrightarrow> (j, loc') \<in> set bs \<Longrightarrow>
   lo_driver loc' = lo_driver loc \<and> lo_store loc' = lo_store loc"
  by (induction "None :: (string \<times> string) option" k los rule: batch.induct)
     (auto split: if_splits dest: batch_same)

lemma batch_distinct: "distinct (map fst (batch ds k los)) \<and> (\<forall>i \<in> fst ` set (batch ds k los). k \<le> i)"
proof (induction ds k los rule: batch.induct)
  case (1 ds k)
  then show ?case by simp
next
  case (2 ds k los)
  then show ?case by auto
next
  case (3 ds k l los)
  then show ?case by (auto split: option.splits) (fastforce dest: Suc_leD)+
qed

lemma put_bodies_length [simp]: "length (put_bodies out bs) = length out"
  by (induction out bs rule: put_bodies.induct) auto

lemma put_bodies_other: "i \<notin> fst ` set bs \<Longrightarrow> put_bodies out bs ! i = out ! i"
  by (induction out bs rule: put_bodies.induct) auto

lemma put_bodies_at:
  "distinct (map fst bs) \<Longrightarrow> (i, b) \<in> set bs \<Longrightarrow> i < length out \<Longrightarrow> put_bodies out bs ! i = b"
  by (induction out bs rule: put_bodies.induct) (auto simp: put_bodies_other image_iff)

definition spread :: "body option list \<Rightarrow> (nat \<times> locator) list \<Rightarrow> (nat \<times> locator \<Rightarrow> body option) \<Rightarrow> body option list" where
  "spread out bat f = put_bodies out (map (\<lambda>p. (fst p, f p)) bat)"

lemma spread_loads:
  assumes "bat = batch None 0 los"
    and "\<And>i loc. (i, loc) \<in> set bat \<Longrightarrow> f (i, loc) = Load cr l (Some loc)"
  shows "spread (map2 (\<lambda>i lo. if i \<in> set (map fst bat) then Some empty_body else Load cr l lo) [0..<length los] los) bat f =
    map (Load cr l) los" (is "spread ?out bat f = _")
proof (rule nth_equalityI)
  show "length (spread ?out bat f) = length (map (Load cr l) los)" by (simp add: spread_def)
next
  fix i assume "i < length (spread ?out bat f)"
  then have i: "i < length los" by (simp add: spread_def)
  let ?bs = "map (\<lambda>p. (fst p, f p)) bat"
  have fst: "map fst ?bs = map fst bat" by (simp add: comp_def)
  show "spread ?out bat f ! i = map (Load cr l) los ! i"
  proof (cases "i \<in> set (map fst bat)")
    case True
    then obtain loc where p: "(i, loc) \<in> set bat" by auto
    then have "(i, f (i, loc)) \<in> set ?bs" by force
    moreover have "distinct (map fst ?bs)" unfolding fst using batch_distinct assms(1) by blast
    ultimately have "spread ?out bat f ! i = f (i, loc)"
      unfolding spread_def using i by (intro put_bodies_at) simp_all
    moreover have "los ! i = Some loc" using batch_positions [of i loc None 0 los] p assms(1) by simp
    ultimately show ?thesis using assms(2) [OF p] i by simp
  next
    case False
    then have "i \<notin> fst ` set ?bs" by (simp add: image_image)
    then have "spread ?out bat f ! i = ?out ! i" unfolding spread_def by (rule put_bodies_other)
    with False i show ?thesis by simp
  qed
qed

lemma Load_addressed:
  "addressed (Some loc) \<Longrightarrow> ld_store l = Some st \<Longrightarrow>
   Load cr l (Some loc) = get_result cr l loc (ob_get st (lo_driver loc) (lo_store loc) (lo_key loc))"
  by (simp add: Load_def addressed_def)

context batch_store begin

text \<open>The client's lemma: over a store with these laws, loading many is loading each.\<close>

lemma load_many:
  assumes st: "ld_store l = Some st" and g: "ob_get st = get" and m: "ob_get_many st = Some get_many"
  shows "LoadMany cr l los = those (map (Load cr l) los)"
proof -
  define bat where bat: "bat = batch None 0 los"
  define out where out: "out = map2 (\<lambda>i lo. if i \<in> set (map fst bat) then Some empty_body else Load cr l lo) [0..<length los] los"
  define d where d: "d = lo_driver (snd (hd bat))"
  define s where s: "s = lo_store (snd (hd bat))"
  have same: "lo_driver loc = d \<and> lo_store loc = s \<and> addressed (Some loc)" if "(i, loc) \<in> set bat" for i loc
  proof (cases bat)
    case Nil
    with that show ?thesis by simp
  next
    case (Cons p bs)
    obtain i0 l0 where p: "p = (i0, l0)" by (cases p)
    have "batch None 0 los = (i0, l0) # bs" using Cons bat p by simp
    from batch_hd [OF this] that Cons p show ?thesis
      using batch_positions [of i loc None 0 los] bat by (auto simp: d s)
  qed
  have load: "Load cr l (Some loc) = get_result cr l loc (get d s (lo_key loc))" if "(i, loc) \<in> set bat" for i loc
    using same [OF that] Load_addressed [OF _ st, of loc cr] by (simp add: g)
  have all: "spread out bat f = map (Load cr l) los"
    if "\<And>i loc. (i, loc) \<in> set bat \<Longrightarrow> f (i, loc) = Load cr l (Some loc)" for f
    unfolding out by (rule spread_loads [OF bat that])
  have unfold: "LoadMany cr l los = those
      (if length bat < 2 then put_bodies out (map (\<lambda>(i, loc). (i, Load cr l (Some loc))) bat)
       else case get_many d s (map (lo_key \<circ> snd) bat) of
         Inl ErrUnknownDriver \<Rightarrow> put_bodies out (map (\<lambda>i. (i, Some (fault unavailableUnknownDrv))) (map fst bat))
       | Inl StoreFailed \<Rightarrow> put_bodies out (map (\<lambda>i. (i, Some (fault unavailableStoreError))) (map fst bat))
       | Inr raws \<Rightarrow> put_bodies out (batch_bodies cr l bat raws))"
    by (simp only: LoadMany_def st m option.case Let_def bat [symmetric] out [symmetric] d [symmetric] s [symmetric])
  show ?thesis
  proof (cases "length bat < 2")
    case True
    then show ?thesis
      using all [of "\<lambda>p. Load cr l (Some (snd p))"] unfolding unfold spread_def
      by (simp add: case_prod_unfold)
  next
    case big: False
    show ?thesis
    proof (cases "get_many d s (map (lo_key \<circ> snd) bat)")
      case (Inl e)
      have f: "get_result cr l loc (Inl e) = Load cr l (Some loc)" if p: "(i, loc) \<in> set bat" for i loc
        using many_error [OF Inl, of "lo_key loc"] p load [OF p] by force
      have "spread out bat (\<lambda>p. get_result cr l (snd p) (Inl e)) = map (Load cr l) los"
        by (rule all) (use f in simp)
      then show ?thesis
        using big Inl unfolding unfold spread_def by (cases e) (simp_all add: get_result_def comp_def)
    next
      case (Inr raws)
      let ?ks = "map (lo_key \<circ> snd) bat"
      have len: "length raws = length bat" using many_values [OF Inr] by simp
      have one: "batch_one cr l (snd (bat ! n)) (raws ! n) = Load cr l (Some (snd (bat ! n)))" if "n < length bat" for n
      proof -
        have "(fst (bat ! n), snd (bat ! n)) \<in> set bat" using that by simp
        from load [OF this] batch_body [OF Inr, of n "snd (bat ! n)" cr l] that show ?thesis by simp
      qed
      have "batch_bodies cr l bat raws = map (\<lambda>n. (fst (bat ! n), Load cr l (Some (snd (bat ! n))))) [0..<length bat]"
        using one by (simp add: batch_bodies_def len)
      also have "\<dots> = map (\<lambda>p. (fst p, Load cr l (Some (snd p)))) bat"
        by (rule nth_equalityI) simp_all
      finally show ?thesis
        using big Inr all [of "\<lambda>p. Load cr l (Some (snd p))"] unfolding unfold spread_def by simp
    qed
  qed
qed

end

section \<open>Panics\<close>

text \<open>An encrypted object makes \<open>Open\<close> panic when everything before it is in order and the nonce is not.\<close>

definition bad_nonce :: "loader \<Rightarrow> enc \<Rightarrow> bool" where
  "bad_nonce l e \<longleftrightarrow>
     (\<exists>key_of key nonce. ld_keys l = Some key_of \<and> enc_alg e = ''aes-256-gcm'' \<and> key_of (enc_kid e) = Some key \<and>
        aes_key key \<and> base64_decode (enc_nonce e) = Some nonce \<and> length nonce \<noteq> gcm_nonce_size)"

lemma decrypt_panics: "decrypt cr l e raw = None \<longleftrightarrow> bad_nonce l e"
  by (auto simp: decrypt_def bad_nonce_def split: option.split)

lemma finish_panics: "finish cr l loc raw = None \<longleftrightarrow> (\<exists>e. lo_enc loc = Some e \<and> bad_nonce l e)"
  by (auto simp: finish_def Let_def decrypt_panics [symmetric, where cr = cr and raw = raw] split: option.split)

lemma get_result_panics:
  "get_result cr l loc res = None \<longleftrightarrow> (\<exists>raw e. res = Inr raw \<and> lo_enc loc = Some e \<and> bad_nonce l e)"
  by (auto simp: get_result_def finish_panics split: sum.split get_error.split)

lemma Load_panics: "Load cr l lo = None \<Longrightarrow> \<exists>loc e. lo = Some loc \<and> lo_enc loc = Some e \<and> bad_nonce l e"
  by (auto simp: Load_def get_result_panics split: option.splits if_splits)

lemma those_None: "those xs = None \<longleftrightarrow> None \<in> set xs"
  by (induction xs) (auto split: option.splits)

lemma those_Some: "those xs = Some ys \<longleftrightarrow> xs = map Some ys"
proof (induction xs arbitrary: ys)
  case Nil
  then show ?case by auto
next
  case (Cons x xs)
  then show ?case by (cases ys) (auto split: option.splits)
qed

lemma put_bodies_set: "set (put_bodies out bs) \<subseteq> set out \<union> snd ` set bs"
proof (induction out bs rule: put_bodies.induct)
  case (2 out i b bs)
  then show ?case using set_update_subset_insert [of out i b] by auto
qed simp

text \<open>A batch that answers for fewer keys than it was asked for.\<close>

definition short_store :: "loader \<Rightarrow> bool" where
  "short_store l \<longleftrightarrow>
     (\<exists>st get_many d s ks vs. ld_store l = Some st \<and> ob_get_many st = Some get_many \<and> get_many d s ks = Inr vs \<and>
        length vs < length ks)"

lemma LoadMany_panics:
  assumes "LoadMany cr l los = None"
  shows "(\<exists>loc e. Some loc \<in> set los \<and> lo_enc loc = Some e \<and> bad_nonce l e) \<or> short_store l"
proof (rule ccontr)
  assume h: "\<not> ?thesis"
  have one: "Load cr l lo \<noteq> None" if "lo \<in> set los" for lo
    using h Load_panics [of cr l lo] that by blast
  show False
  proof (cases "case ld_store l of None \<Rightarrow> None | Some st \<Rightarrow> ob_get_many st")
    case None
    with assms have "None \<in> Load cr l ` set los" by (simp add: LoadMany_def those_None)
    with one show False by (metis imageE)
  next
    case (Some get_many)
    then obtain st where st: "ld_store l = Some st" "ob_get_many st = Some get_many" by (auto split: option.splits)
    let ?bat = "batch None 0 los"
    let ?out = "map2 (\<lambda>i lo. if i \<in> set (map fst ?bat) then Some empty_body else Load cr l lo) [0..<length los] los"
    have inl: "Some loc \<in> set los" if "(i, loc) \<in> set ?bat" for i loc
      using batch_positions [OF that] nth_mem [of i los] by simp
    have out: "None \<notin> set ?out"
    proof
      assume "None \<in> set ?out"
      then obtain p where p: "p \<in> set (zip [0..<length los] los)"
          "None = (case p of (i, lo) \<Rightarrow> if i \<in> set (map fst ?bat) then Some empty_body else Load cr l lo)"
        unfolding set_map by (rule imageE)
      obtain i lo where "p = (i, lo)" by (cases p)
      with p have "lo \<in> set los" "Load cr l lo = None" by (auto dest: set_zip_rightD split: if_splits)
      with one show False by blast
    qed
    have put: "None \<notin> set (put_bodies ?out bs)" if "None \<notin> snd ` set bs" for bs
      using put_bodies_set [of ?out bs] out that by blast
    have bat: "None \<notin> snd ` set (map (\<lambda>(i, loc). (i, Load cr l (Some loc))) ?bat)"
      using one inl by fastforce
    have raws: "None \<notin> snd ` set (batch_bodies cr l ?bat raws)"
      if r: "get_many d s (map (lo_key \<circ> snd) ?bat) = Inr raws" for d s raws
    proof -
      have "length ?bat \<le> length raws" using h st r unfolding short_store_def by (metis length_map not_less)
      moreover have "batch_one cr l (snd (?bat ! n)) x \<noteq> None" if "n < length ?bat" for n x
        using h inl [of "fst (?bat ! n)" "snd (?bat ! n)"] nth_mem [OF that] finish_panics [of cr l]
        unfolding batch_one_def by (cases x) fastforce+
      ultimately have "y \<noteq> None" if "y \<in> snd ` set (batch_bodies cr l ?bat raws)" for y
        using that unfolding batch_bodies_def by (elim imageE) (simp, elim imageE, simp)
      then show ?thesis by blast
    qed
    have errs: "None \<notin> snd ` set (map (\<lambda>i. (i, Some (fault w))) (map fst ?bat))" for w by auto
    note all = put [OF bat] put [OF errs] put [OF raws]
    have p: "None \<in> set (if length ?bat < 2 then put_bodies ?out (map (\<lambda>(i, loc). (i, Load cr l (Some loc))) ?bat)
       else case get_many (lo_driver (snd (hd ?bat))) (lo_store (snd (hd ?bat))) (map (lo_key \<circ> snd) ?bat) of
         Inl ErrUnknownDriver \<Rightarrow> put_bodies ?out (map (\<lambda>i. (i, Some (fault unavailableUnknownDrv))) (map fst ?bat))
       | Inl StoreFailed \<Rightarrow> put_bodies ?out (map (\<lambda>i. (i, Some (fault unavailableStoreError))) (map fst ?bat))
       | Inr raws \<Rightarrow> put_bodies ?out (batch_bodies cr l ?bat raws))"
      using assms unfolding LoadMany_def Some option.case Let_def those_None .
    show False
    proof (cases "length ?bat < 2")
      case True
      with p all(1) show False by (simp only: if_True)
    next
      case False
      note q = p [unfolded if_not_P [OF False]]
      show False
      proof (cases "get_many (lo_driver (snd (hd ?bat))) (lo_store (snd (hd ?bat))) (map (lo_key \<circ> snd) ?bat)")
        case (Inl x)
        with q all(2) show False by (cases x) (simp_all only: sum.case get_error.case)
      next
        case (Inr raws)
        from q [unfolded Inr sum.case] all(3) [OF Inr] show False by blast
      qed
    qed
  qed
qed

text \<open>The loader of the process has no keys, and no store or Redis: it never panics.\<close>

definition plain_loader :: "loader \<Rightarrow> bool" where
  "plain_loader l \<longleftrightarrow> ld_keys l = None \<and> (ld_store l = None \<or> (\<exists>cl. ld_store l = Some (redis_store cl)))"

lemma redis_never_short: "redis_GetMany cl d s ks = Inr vs \<Longrightarrow> length vs = length ks"
  by (auto simp: redis_GetMany_def split: if_splits option.splits)

lemma plain_loader_loads:
  assumes "plain_loader l"
  shows "Load cr l lo \<noteq> None" and "LoadMany cr l los \<noteq> None" and "\<not> bad_nonce l e" and "\<not> short_store l"
proof -
  show n: "\<not> bad_nonce l e" for e using assms by (simp add: plain_loader_def bad_nonce_def)
  show s: "\<not> short_store l"
    using assms redis_never_short by (fastforce simp: plain_loader_def short_store_def redis_store_def)
  show "Load cr l lo \<noteq> None" using n Load_panics by blast
  show "LoadMany cr l los \<noteq> None" using n s LoadMany_panics by blast
qed

section \<open>Properties\<close>

text \<open>
  Over Redis, fetching the objects of a request in one \<open>MGET\<close> gives, position by
  position, what fetching each alone would have given, errors and panics included; objects of another
  store or driver and objects the module withheld keep their own answers.
\<close>

lemma many_is_each:
  assumes "\<And>ks vs. rd_mget cl ks = Some vs \<Longrightarrow> vs = map (rd_get cl) ks"
    and "\<And>ks k. rd_mget cl ks = None \<Longrightarrow> k \<in> set ks \<Longrightarrow> rd_get cl k = None"
    and "ld_store l = Some (redis_store cl)"
  shows "LoadMany cr l los = those (map (Load cr l) los)"
proof -
  have "redis_laws cl" by unfold_locales (use assms(1,2) in blast)+
  from batch_store.load_many [OF redis_laws.redis_batch [OF this] assms(3)] show ?thesis
    by (simp add: redis_store_def)
qed

text \<open>What the content of an object is: what Redis has under its key, decrypted, with its digest.\<close>

definition meant :: "crypto \<Rightarrow> loader \<Rightarrow> redis_client \<Rightarrow> locator \<Rightarrow> string \<Rightarrow> bool" where
  "meant cr l cl loc d \<longleftrightarrow>
     lo_driver loc = ''redis'' \<and>
     (\<exists>raw. rd_get cl (lo_key loc) = Some raw \<and>
        (case lo_enc loc of None \<Rightarrow> d = raw | Some e \<Rightarrow> decrypt cr l e raw = Some (Some d))) \<and>
     (wanted_digest loc = [] \<or> cr_digest cr d = wanted_digest loc)"

text \<open>What a body says of the object that a locator names.\<close>

definition body_of :: "crypto \<Rightarrow> loader \<Rightarrow> redis_client \<Rightarrow> locator option \<Rightarrow> body \<Rightarrow> bool" where
  "body_of cr l cl lo b \<longleftrightarrow>
     (case lo of
        None \<Rightarrow> b = empty_body
      | Some loc \<Rightarrow>
          if \<not> addressed lo then b = empty_body\<lparr>bd_unavailable := lo_unavailable loc\<rparr>
          else (Failed b \<longleftrightarrow> (\<nexists>d. meant cr l cl loc d)) \<and> (Failed b \<longrightarrow> bd_data b = [] \<and> \<not> Available b) \<and>
            (\<not> Failed b \<longrightarrow> Available b \<and> meant cr l cl loc (bd_data b) \<and> bd_truncated b = lo_truncated loc))"

lemma empty_body_same [simp]: "empty_body\<lparr>bd_unavailable := []\<rparr> = empty_body"
  by (simp add: empty_body_def)

lemma fault_fields [simp]:
  "bd_data (fault w) = []" "bd_unavailable (fault w) = w" "bd_fault (fault w)"
  by (simp_all add: fault_def empty_body_def)

lemma finish_body:
  assumes "finish cr l loc raw = Some b" and "rd_get cl (lo_key loc) = Some raw" and "lo_driver loc = ''redis''"
    and "addressed (Some loc)"
  shows "body_of cr l cl (Some loc) b"
proof -
  define dec where "dec = (case lo_enc loc of None \<Rightarrow> Some (Some raw) | Some e \<Rightarrow> decrypt cr l e raw)"
  have m: "meant cr l cl loc d \<longleftrightarrow> dec = Some (Some d) \<and> (wanted_digest loc = [] \<or> cr_digest cr d = wanted_digest loc)" for d
    using assms(2,3) by (auto simp: meant_def dec_def split: option.splits)
  have b: "b = (case the dec of
        None \<Rightarrow> fault unavailableDecryptFail
      | Some d \<Rightarrow> if wanted_digest loc \<noteq> [] \<and> wanted_digest loc \<noteq> cr_digest cr d then fault unavailableDigestFail
          else \<lparr>bd_data = d, bd_truncated = lo_truncated loc, bd_unavailable = [], bd_fault = False,
                 bd_sha256 = cr_digest cr d\<rparr>)" and dec: "dec \<noteq> None"
    using assms(1) by (auto simp: finish_def dec_def [symmetric] Let_def split: option.splits if_splits)
  then obtain x where x: "dec = Some x" by blast
  show ?thesis
    unfolding body_of_def option.case b m x option.sel
    using assms(4) by (cases x) (auto simp: Failed_def Available_def)
qed

lemma Load_body:
  assumes "ld_store l = Some (redis_store cl)" and "Load cr l lo = Some b"
  shows "body_of cr l cl lo b"
proof (cases lo)
  case None
  with assms(2) show ?thesis by (simp add: Load_def body_of_def)
next
  case (Some loc)
  show ?thesis
  proof (cases "addressed lo")
    case False
    with Some assms(2) show ?thesis
      by (cases "lo_unavailable loc = []") (auto simp: Load_def addressed_def body_of_def)
  next
    case True
    with Load_addressed [of loc l "redis_store cl" cr] assms Some
    have r: "get_result cr l loc (redis_Get cl (lo_driver loc) (lo_store loc) (lo_key loc)) = Some b"
      by (simp add: redis_store_def)
    show ?thesis
    proof (cases "lo_driver loc = ''redis''")
      case False
      then have "b = fault unavailableUnknownDrv" using r by (simp add: redis_Get_def get_result_def)
      with False True Some show ?thesis by (simp add: body_of_def meant_def Failed_def Available_def)
    next
      case redis: True
      show ?thesis
      proof (cases "rd_get cl (lo_key loc)")
        case None
        then have "b = fault unavailableStoreError" using r redis by (simp add: redis_Get_def get_result_def)
        with None True Some show ?thesis by (simp add: body_of_def meant_def Failed_def Available_def)
      next
        case found: (Some raw)
        then have "finish cr l loc raw = Some b" using r redis by (simp add: redis_Get_def get_result_def)
        from finish_body [OF this found redis] True Some show ?thesis by simp
      qed
    qed
  qed
qed

text \<open>
  C19 (safety): over Redis an object reaches the inspector exactly as it was meant, fetched alone or
  in a batch: position by position, content arrives if and only if the store has something under the
  key of the locator that decrypts and has the digest the locator demands (it demands none where it
  names none, or where the object was truncated and not processed), and then it is that content; any
  other addressed object is a fault without data; an object that the module itself declared
  unavailable has no data either, but is no fault.  A batch that panics met a nonce of the wrong
  length.  What is assumed of Redis is that \<open>MGET\<close> is the \<open>GET\<close> of each key and fails only where
  \<open>GET\<close> does.
\<close>

theorem load_trustworthy:
  assumes "\<And>ks vs. rd_mget cl ks = Some vs \<Longrightarrow> vs = map (rd_get cl) ks"
    and "\<And>ks k. rd_mget cl ks = None \<Longrightarrow> k \<in> set ks \<Longrightarrow> rd_get cl k = None"
    and "ld_store l = Some (redis_store cl)"
  shows "(case LoadMany cr l los of
       None \<Rightarrow> \<exists>loc e. Some loc \<in> set los \<and> lo_enc loc = Some e \<and> bad_nonce l e
     | Some bodies \<Rightarrow> length bodies = length los \<and>
         (\<forall>i < length los. Load cr l (los ! i) = Some (bodies ! i) \<and> body_of cr l cl (los ! i) (bodies ! i)))"
proof (cases "LoadMany cr l los")
  case None
  with many_is_each [OF assms, where cr = cr and los = los] have "those (map (Load cr l) los) = None" by simp
  then have "None \<in> Load cr l ` set los" by (simp add: those_None)
  then obtain lo where "lo \<in> set los" "Load cr l lo = None" by (metis imageE)
  with Load_panics [of cr l lo] None show ?thesis by auto
next
  case (Some bodies)
  then have b: "map (Load cr l) los = map Some bodies"
    using many_is_each [OF assms] by (simp add: those_Some)
  then have len: "length bodies = length los" by (metis length_map)
  have "Load cr l (los ! i) = Some (bodies ! i)" if "i < length los" for i
    using arg_cong [OF b, of "\<lambda>xs. xs ! i"] that len by simp
  with Load_body [OF assms(3)] Some len show ?thesis by simp
qed

definition a_locator :: "string \<Rightarrow> string \<Rightarrow> locator" where
  "a_locator key sha = \<lparr>lo_store = ''x'', lo_driver = ''redis'', lo_key = key, lo_unavailable = [], lo_size = 4,
     lo_declared_size = 4, lo_sha256 = sha, lo_processed_sha256 = [], lo_transformed = False,
     lo_complete = True, lo_truncated = False, lo_encoding = [], lo_expires_at = 0, lo_hint = [], lo_enc = None\<rparr>"

definition plain_crypto :: crypto where
  "plain_crypto = \<lparr>cr_digest = id, cr_open = \<lambda>_ _ _. None\<rparr>"

definition two_keys :: redis_client where
  "two_keys = redis_server (Some [''k'' \<mapsto> ''evil'', ''h'' \<mapsto> ''good''])"

theorem load_trustworthy_witness:
  "\<exists>a b. LoadMany plain_crypto \<lparr>ld_store = Some (redis_store two_keys), ld_keys = None\<rparr>
       [Some (a_locator ''k'' ''good''), Some (a_locator ''h'' ''good'')] = Some [a, b] \<and>
     Failed a \<and> bd_data a = [] \<and> \<not> Failed b \<and> bd_data b = ''good''"
proof -
  let ?l = "\<lparr>ld_store = Some (redis_store two_keys), ld_keys = None\<rparr>"
  let ?los = "[Some (a_locator ''k'' ''good''), Some (a_locator ''h'' ''good'')]"
  have r: "rd_mget two_keys ks = Some vs \<Longrightarrow> vs = map (rd_get two_keys) ks"
    "rd_mget two_keys ks = None \<Longrightarrow> k \<in> set ks \<Longrightarrow> rd_get two_keys k = None" "ld_store ?l = Some (redis_store two_keys)" for ks vs k
    by (auto simp: two_keys_def redis_server_def)
  have ad: "addressed (Some (a_locator k d))" for k d by (simp add: addressed_def a_locator_def)
  have m: "meant plain_crypto ?l two_keys (a_locator ''k'' ''good'') d = False"
    "meant plain_crypto ?l two_keys (a_locator ''h'' ''good'') d \<longleftrightarrow> d = ''good''" for d
    by (auto simp: meant_def a_locator_def two_keys_def redis_server_def plain_crypto_def wanted_digest_def)
  have "LoadMany plain_crypto ?l ?los \<noteq> None"
    by (rule plain_loader_loads(2)) (auto simp: plain_loader_def)
  then obtain bs where bs: "LoadMany plain_crypto ?l ?los = Some bs" by blast
  from load_trustworthy [OF r, where cr = plain_crypto and los = ?los]
  have h: "length bs = 2" "\<And>i. i < 2 \<Longrightarrow> body_of plain_crypto ?l two_keys (?los ! i) (bs ! i)"
    unfolding bs option.case by simp_all
  from h(1) obtain a b where ab: "bs = [a, b]" by (auto simp: numeral_2_eq_2 length_Suc_conv)
  have "body_of plain_crypto ?l two_keys (Some (a_locator ''k'' ''good'')) a"
    "body_of plain_crypto ?l two_keys (Some (a_locator ''h'' ''good'')) b"
    using h(2) [of 0] h(2) [of 1] by (simp_all add: ab)
  then show ?thesis unfolding bs ab by (auto simp: body_of_def ad m)
qed

text \<open>The RFC's example of base64, and a nonce that is too short.\<close>

lemma base64_examples:
  "base64_decode ''Zm9vYmFy'' = Some ''foobar''" "base64_decode ''Zm9vYg=='' = Some ''foob''"
  "base64_decode ''Zm9vYmE='' = Some ''fooba''" "base64_decode ''Zm9vYg='' = None" "base64_decode ''Zg==Zg=='' = None"
  by (simp_all add: base64_decode_def b64_group_def b64_bytes_def b64_val_def char_of_def bit_numeral_rec bit_0)

end
