(* ===== verification/Queue.thy ===== *)
theory Queue
  imports Buckets Protocol
begin

text \<open>
  \<open>internal/queue/queue.go\<close>: the bounded queue between the subscription and the workers.  Every
  critical section of its mutex is one step of a thread, and so is every call of the handler
  outside of it; a schedule is any interleaving of such steps.  \<open>sync.Cond\<close> is the set of the
  threads that wait: \<open>Broadcast\<close> wakes all of them, \<open>Signal\<close> some one of them.  The clock of a
  step is arbitrary.  The throughput statistics of \<open>flow\<close> are outside.
\<close>

section \<open>Tasks and the pool\<close>

abbreviation ReasonQueueLimit :: string where "ReasonQueueLimit \<equiv> ''COUNTER_QUEUE_LIMIT''"
abbreviation ReasonDeadlineExceeded :: string where "ReasonDeadlineExceeded \<equiv> ''COUNTER_DEADLINE_EXCEEDED''"
abbreviation FullDrop :: string where "FullDrop \<equiv> ''drop''"
abbreviation FullWait :: string where "FullWait \<equiv> ''wait''"

record task =
  tk_req :: request
  tk_reply :: string
  tk_personal :: bool
  tk_fill :: int
  tk_enqueued :: int

record pool =
  po_q :: "task list"
  po_depth :: int
  po_closed :: bool
  po_stop :: bool
  po_full :: string
  po_reserve :: int
  po_min :: int
  po_accepted :: int
  po_shed :: int
  po_expired :: int

definition newPool :: "int \<Rightarrow> int \<Rightarrow> int \<Rightarrow> string \<Rightarrow> pool" where
  "newPool depth reserveMS minBudgetMS full =
     \<lparr>po_q = [], po_depth = (if depth < 1 then 1 else depth), po_closed = False, po_stop = False,
      po_full = (if full = [] then FullDrop else full),
      po_reserve = wrap64 (reserveMS * 1000000), po_min = wrap64 (minBudgetMS * 1000000),
      po_accepted = 0, po_shed = 0, po_expired = 0\<rparr>"

definition leftAt :: "pool \<Rightarrow> task \<Rightarrow> int \<Rightarrow> int" where
  "leftAt p t now =
     wrap64 (wrap64 (wrap64 (rq_deadline_ms (tk_req t) * 1000000) - time_sub now (tk_enqueued t)) - po_reserve p)"

definition q_len :: "pool \<Rightarrow> int" where
  "q_len p = int (length (po_q p))"

definition fillLocked :: "pool \<Rightarrow> int" where
  "fillLocked p = (if q_len p \<ge> po_depth p then 100 else (q_len p * 100) sdiv po_depth p)"

definition enqueueLocked :: "task \<Rightarrow> pool \<Rightarrow> pool" where
  "enqueueLocked t p = p\<lparr>po_q := po_q p @ [t], po_accepted := po_accepted p + 1\<rparr>"

definition is_expired :: "pool \<Rightarrow> int \<Rightarrow> task \<Rightarrow> bool" where
  "is_expired p now t \<longleftrightarrow> leftAt p t now < po_min p"

text \<open>The pool that stays, and the tasks taken out of it; it broadcasts when there are any.\<close>

definition takeExpiredLocked :: "int \<Rightarrow> pool \<Rightarrow> pool \<times> task list" where
  "takeExpiredLocked now p =
     (p\<lparr>po_q := filter (\<lambda>t. \<not> is_expired p now t) (po_q p)\<rparr>, filter (is_expired p now) (po_q p))"

section \<open>Threads\<close>

text \<open>
  Where a thread goes on after it has answered the expired tasks that it took: a submission
  takes the lock, or looks at the queue again (with the flag of its timer); a worker runs its
  task, pops again or stops; the sweeper waits for its next tick.
\<close>

datatype cont = CLock task | CLoop task bool | CRun task | CPop | CStop | CSweep | CEnd

datatype thread =
    Submitting task
  | Collecting task
  | SubLock task
  | SubWaiting task
  | SubWoken task bool
  | Shedding task
  | SubDone
  | WorkPop
  | WorkWaiting
  | WorkWoken
  | WorkDone
  | Sweeping
  | SweepDone
  | Expiring "task list" cont

datatype wake = Silent | Signal | Broadcast

fun resume_at :: "cont \<Rightarrow> thread" where
  "resume_at (CLock t) = SubLock t"
| "resume_at (CLoop t b) = SubWoken t b"
| "resume_at (CRun t) = Expiring [] (CRun t)"
| "resume_at CPop = WorkPop"
| "resume_at CStop = WorkDone"
| "resume_at CSweep = Sweeping"
| "resume_at CEnd = SubDone"

type_synonym event = "task \<times> string"
type_synonym act = "pool \<times> thread \<times> wake \<times> event list"

text \<open>The start of \<open>Submit\<close>: the clock is read for \<open>enqueued\<close> and again for what is left.\<close>

definition submit_start :: "int \<Rightarrow> int \<Rightarrow> pool \<Rightarrow> task \<Rightarrow> act" where
  "submit_start now now1 p t =
     (let t' = t\<lparr>tk_enqueued := now\<rparr>
      in if leftAt p t' now1 < po_min p then (p, Expiring [t'] CEnd, Silent, [])
         else (p, Collecting t', Silent, []))"

text \<open>\<open>collectExpired\<close>, for a submission and for the sweeper.\<close>

definition collect :: "int \<Rightarrow> pool \<Rightarrow> cont \<Rightarrow> act" where
  "collect now p c =
     (case takeExpiredLocked now p of (p', dead) \<Rightarrow>
        (p', Expiring dead c, if dead = [] then Silent else Broadcast, []))"

text \<open>
  The body of the waiting loop of \<open>submitWaitLocked\<close> and what follows it, entered with the lock:
  one turn, up to the next point where the lock is given up.
\<close>

definition wait_loop :: "int \<Rightarrow> pool \<Rightarrow> task \<Rightarrow> bool \<Rightarrow> act" where
  "wait_loop now p t timedOut =
     (if q_len p \<ge> po_depth p \<and> \<not> timedOut \<and> \<not> po_closed p then
        (case takeExpiredLocked now p of (p', dead) \<Rightarrow>
           if dead \<noteq> [] then (p', Expiring dead (CLoop t False), Broadcast, [])
           else (p, SubWaiting t, Silent, []))
      else if po_closed p then (p, Expiring [t] CEnd, Silent, [])
      else if q_len p < po_depth p then (enqueueLocked t p, SubDone, Signal, [])
      else (p, Expiring [t] CEnd, Silent, []))"

definition submit_lock :: "int \<Rightarrow> int \<Rightarrow> pool \<Rightarrow> task \<Rightarrow> act" where
  "submit_lock now now1 p t0 =
     (if po_closed p then (p, Expiring [t0] CEnd, Silent, [])
      else let t = t0\<lparr>tk_fill := fillLocked p\<rparr> in
        if q_len p < po_depth p then (enqueueLocked t p, SubDone, Signal, [])
        else if po_full p = FullWait then
          (if leftAt p t now < po_min p then (p, Expiring [t] CEnd, Silent, [])
           else wait_loop now1 p t False)
        else (p, Shedding t, Silent, []))"

text \<open>\<open>pop\<close>: one turn of its loop, up to its return or its wait.\<close>

definition pop_turn :: "int \<Rightarrow> pool \<Rightarrow> act" where
  "pop_turn now p =
     (case takeExpiredLocked now p of (p', dead) \<Rightarrow>
        (case po_q p' of
           t # ts \<Rightarrow> (p'\<lparr>po_q := ts\<rparr>, Expiring dead (CRun t), Broadcast, [])
         | [] \<Rightarrow>
             if po_closed p' then (p', Expiring dead CStop, if dead = [] then Silent else Broadcast, [])
             else if dead \<noteq> [] then (p', Expiring dead CPop, Broadcast, [])
             else (p', WorkWaiting, Silent, [])))"

text \<open>\<open>budget\<close> and the handler's call for a task that a worker took.\<close>

definition run_task :: "int \<Rightarrow> pool \<Rightarrow> task \<Rightarrow> act" where
  "run_task now p t =
     (if leftAt p t now < po_min p
      then (p\<lparr>po_expired := po_expired p + 1\<rparr>, WorkPop, Silent, [(t, ReasonDeadlineExceeded)])
      else (p, WorkPop, Silent, [(t, [])]))"

definition expire_one :: "pool \<Rightarrow> task \<Rightarrow> task list \<Rightarrow> cont \<Rightarrow> act" where
  "expire_one p t ts c =
     (p\<lparr>po_expired := po_expired p + 1\<rparr>, Expiring ts c, Silent, [(t, ReasonDeadlineExceeded)])"

definition shedLimit :: "pool \<Rightarrow> task \<Rightarrow> act" where
  "shedLimit p t = (p\<lparr>po_shed := po_shed p + 1\<rparr>, SubDone, Silent, [(t, ReasonQueueLimit)])"

text \<open>What a thread does next; \<open>None\<close> when it is asleep or has ended.\<close>

fun thread_act :: "int \<Rightarrow> int \<Rightarrow> pool \<Rightarrow> thread \<Rightarrow> act option" where
  "thread_act now now1 p (Submitting t) = Some (submit_start now now1 p t)"
| "thread_act now now1 p (Collecting t) = Some (collect now p (CLock t))"
| "thread_act now now1 p (SubLock t) = Some (submit_lock now now1 p t)"
| "thread_act now now1 p (SubWoken t b) = Some (wait_loop now p t b)"
| "thread_act now now1 p (Shedding t) = Some (shedLimit p t)"
| "thread_act now now1 p WorkPop = Some (pop_turn now p)"
| "thread_act now now1 p WorkWoken = Some (pop_turn now p)"
| "thread_act now now1 p Sweeping =
     Some (collect now p CSweep)"
| "thread_act now now1 p (Expiring (t # ts) c) = Some (expire_one p t ts c)"
| "thread_act now now1 p (Expiring [] (CRun t)) = Some (run_task now p t)"
| "thread_act now now1 p (Expiring [] c) = Some (p, resume_at c, Silent, [])"
| "thread_act now now1 p th = None"

section \<open>Waiting and waking\<close>

fun waiting :: "thread \<Rightarrow> bool" where
  "waiting (SubWaiting t) = True"
| "waiting WorkWaiting = True"
| "waiting th = False"

fun woken :: "thread \<Rightarrow> thread" where
  "woken (SubWaiting t) = SubWoken t False"
| "woken WorkWaiting = WorkWoken"
| "woken th = th"

definition signal_one :: "nat \<Rightarrow> thread list \<Rightarrow> thread list" where
  "signal_one j ts =
     (if j < length ts \<and> waiting (ts ! j) then ts[j := woken (ts ! j)]
      else (case find (\<lambda>k. waiting (ts ! k)) [0..<length ts] of
              None \<Rightarrow> ts | Some k \<Rightarrow> ts[k := woken (ts ! k)]))"

definition apply_wake :: "wake \<Rightarrow> nat \<Rightarrow> thread list \<Rightarrow> thread list" where
  "apply_wake w j ts = (case w of Silent \<Rightarrow> ts | Signal \<Rightarrow> signal_one j ts | Broadcast \<Rightarrow> map woken ts)"

text \<open>The timer of a waiting submission: it sets the flag of its thread and broadcasts.\<close>

fun timed_out :: "thread \<Rightarrow> thread option" where
  "timed_out (SubWaiting t) = Some (SubWoken t True)"
| "timed_out (SubWoken t False) = Some (SubWoken t True)"
| "timed_out (Expiring ds (CLoop t False)) = Some (Expiring ds (CLoop t True))"
| "timed_out th = None"

section \<open>The system\<close>

text \<open>\<open>Close\<close> is two steps: it closes the channel that stops the sweeper, then the pool.\<close>

record system =
  sy_pool :: pool
  sy_threads :: "thread list"
  sy_log :: "event list"
  sy_submitted :: "task list"

definition start :: "nat \<Rightarrow> pool \<Rightarrow> system" where
  "start workers p =
     \<lparr>sy_pool = p, sy_threads = Sweeping # replicate workers WorkPop, sy_log = [], sy_submitted = []\<rparr>"

definition act_on :: "nat \<Rightarrow> nat \<Rightarrow> act \<Rightarrow> system \<Rightarrow> system" where
  "act_on i j a s =
     (case a of (p, th, w, ev) \<Rightarrow>
        s\<lparr>sy_pool := p, sy_threads := apply_wake w j ((sy_threads s)[i := th]), sy_log := sy_log s @ ev\<rparr>)"

inductive step :: "system \<Rightarrow> system \<Rightarrow> bool" where
  run: "i < length (sy_threads s) \<Longrightarrow> thread_act now now1 (sy_pool s) (sy_threads s ! i) = Some a \<Longrightarrow>
        step s (act_on i j a s)"
| timer: "i < length (sy_threads s) \<Longrightarrow> timed_out (sy_threads s ! i) = Some th \<Longrightarrow>
        step s (s\<lparr>sy_threads := map woken ((sy_threads s)[i := th])\<rparr>)"
| arrive: "step s (s\<lparr>sy_threads := sy_threads s @ [Submitting t], sy_submitted := sy_submitted s @ [t]\<rparr>)"
| stop: "\<not> po_stop (sy_pool s) \<Longrightarrow> step s (s\<lparr>sy_pool := (sy_pool s)\<lparr>po_stop := True\<rparr>\<rparr>)"
| close: "po_stop (sy_pool s) \<Longrightarrow> \<not> po_closed (sy_pool s) \<Longrightarrow>
        step s (s\<lparr>sy_pool := (sy_pool s)\<lparr>po_closed := True\<rparr>, sy_threads := map woken (sy_threads s)\<rparr>)"
| sweep_stop: "i < length (sy_threads s) \<Longrightarrow> sy_threads s ! i = Sweeping \<Longrightarrow> po_stop (sy_pool s) \<Longrightarrow>
        step s (s\<lparr>sy_threads := (sy_threads s)[i := SweepDone]\<rparr>)"

inductive_cases stepE: "step s s'"

inductive reach :: "system \<Rightarrow> system \<Rightarrow> bool" for s0 where
  refl: "reach s0 s0"
| step: "reach s0 s \<Longrightarrow> step s s' \<Longrightarrow> reach s0 s'"

section \<open>Schedules\<close>

text \<open>A schedule as a list of moves, to run the system on.\<close>

datatype move = Run nat nat int int | Timer nat | Arrive task | Stop | Close | SweepStop nat

fun exec :: "move \<Rightarrow> system \<Rightarrow> system option" where
  "exec (Run i j now now1) s =
     (if i < length (sy_threads s)
      then map_option (\<lambda>a. act_on i j a s) (thread_act now now1 (sy_pool s) (sy_threads s ! i)) else None)"
| "exec (Timer i) s =
     (if i < length (sy_threads s)
      then map_option (\<lambda>th. s\<lparr>sy_threads := map woken ((sy_threads s)[i := th])\<rparr>) (timed_out (sy_threads s ! i))
      else None)"
| "exec (Arrive t) s = Some (s\<lparr>sy_threads := sy_threads s @ [Submitting t], sy_submitted := sy_submitted s @ [t]\<rparr>)"
| "exec Stop s = (if po_stop (sy_pool s) then None else Some (s\<lparr>sy_pool := (sy_pool s)\<lparr>po_stop := True\<rparr>\<rparr>))"
| "exec Close s =
     (if po_stop (sy_pool s) \<and> \<not> po_closed (sy_pool s)
      then Some (s\<lparr>sy_pool := (sy_pool s)\<lparr>po_closed := True\<rparr>, sy_threads := map woken (sy_threads s)\<rparr>) else None)"
| "exec (SweepStop i) s =
     (if i < length (sy_threads s) \<and> po_stop (sy_pool s)
      then (case sy_threads s ! i of Sweeping \<Rightarrow> Some (s\<lparr>sy_threads := (sy_threads s)[i := SweepDone]\<rparr>) | _ \<Rightarrow> None)
      else None)"

fun exec_all :: "move list \<Rightarrow> system \<Rightarrow> system option" where
  "exec_all [] s = Some s"
| "exec_all (m # ms) s = (case exec m s of None \<Rightarrow> None | Some s' \<Rightarrow> exec_all ms s')"

lemma exec_step: "exec m s = Some s' \<Longrightarrow> step s s'"
  by (cases m) (auto split: if_splits thread.splits intro: step.intros)

lemma reach_trans: "reach s1 s2 \<Longrightarrow> reach s0 s1 \<Longrightarrow> reach s0 s2"
  by (induction rule: reach.induct) (auto intro: reach.step)

lemma exec_all_reach: "exec_all ms s = Some s' \<Longrightarrow> reach s s'"
proof (induction ms arbitrary: s)
  case Nil
  then show ?case by (simp add: reach.refl)
next
  case (Cons m ms)
  then obtain s1 where "exec m s = Some s1" "exec_all ms s1 = Some s'" by (auto split: option.splits)
  from reach_trans [OF Cons.IH [OF this(2)] reach.step [OF reach.refl exec_step [OF this(1)]]] show ?case .
qed

text \<open>A task of the probe profile, as an example.\<close>

definition demo_task :: task where
  "demo_task = \<lparr>tk_req = \<lparr>rq_v = 2, rq_rid = ''a1'', rq_ray = [], rq_phase = ''request'', rq_wave = 0,
       rq_inspector = ''counter'', rq_deadline_ms = 100, rq_audit_subject = None, rq_node = [],
       rq_conn = \<lparr>client_ip = ''192.0.2.7'', client_port = 1, server_ip = [], server_port = 0, conn_tls = None\<rparr>,
       rq_http = \<lparr>http_method = ''GET'', http_scheme = [], http_host = [], http_uri = ''/'', http_args_size = 0,
         http_version = []\<rparr>,
       rq_vars = [], rq_needs = [], rq_store = \<lparr>st_headers = None, st_args = None, st_body = None\<rparr>,
       rq_route = \<lparr>rt_server_name = [], rt_location = [], rt_profile = ''_probe''\<rparr>,
       rq_score = \<lparr>sc_total = 0, sc_deny_at = 0\<rparr>, rq_prior = [], rq_sessions = [], rq_response = None,
       rq_request_store = \<lparr>st_headers = None, st_args = None, st_body = None\<rparr>, rq_resume = None,
       rq_release = None, rq_conn_id = [], rq_seq = 0, rq_stream = None\<rparr>,
     tk_reply = ''_INBOX.1'', tk_personal = False, tk_fill = 0, tk_enqueued = 0\<rparr>"

end
