(* ===== verification/Auditing.thy ===== *)
theory Auditing
  imports Decide Prior Measure "HOL-Library.Sublist" "HOL-Library.AList" "HOL-Library.Word"
begin

text \<open>
  \<open>internal/audit/audit.go\<close> and \<open>sink.go\<close>: the event that goes with every reply, and the sink
  that collects events and sends them in batches.  JSON encoding is a parameter; the values of
  the free-form map \<open>Engine\<close> are the kinds that the handler puts there.  Formatting a level and
  its threshold into the text of an evidence is left out: an evidence is the two numbers.
\<close>

section \<open>Events\<close>

abbreviation Kind_inspector :: string where "Kind_inspector \<equiv> ''inspector''"
abbreviation AuditVersion :: int where "AuditVersion \<equiv> 1"
abbreviation SeverityMedium :: string where "SeverityMedium \<equiv> ''medium''"
abbreviation SeverityHigh :: string where "SeverityHigh \<equiv> ''high''"
abbreviation TargetConn :: string where "TargetConn \<equiv> ''conn''"

record finding =
  fd_code :: string
  fd_severity :: string
  fd_target :: string
  fd_rule :: string
  fd_evidence :: "f64 \<times> f64"

record noted =
  no_counter :: string
  no_axis :: string
  no_key :: string
  no_percent :: int
  no_value :: f64
  no_code :: string
  no_from :: string

datatype engine_val =
    EStr string
  | EInt int
  | ENum f64
  | EBool bool
  | ENames "string list"
  | EJudge "rule_audit list"
  | EActions "action_outcome list"
  | EMeasured "measure_fired list"
  | ELevelRows "(string \<times> string \<times> f64) list"
  | EOutcomeLevels "level_audit list"
  | ENoted "noted list"

type_synonym engine = "(string \<times> engine_val) list"

record details =
  det_ms :: f64
  det_findings :: "finding list"
  det_engine :: engine

definition no_details :: details where
  "no_details = \<lparr>det_ms = Fin 0, det_findings = [], det_engine = []\<rparr>"

text \<open>\<open>det.Engine[key] = v\<close>, under a condition.\<close>

definition put :: "bool \<Rightarrow> string \<Rightarrow> engine_val \<Rightarrow> details \<Rightarrow> details" where
  "put b key v d = (if b then d\<lparr>det_engine := AList.update key v (det_engine d)\<rparr> else d)"

record audit_event =
  ev_v :: int
  ev_kind :: string
  ev_ts :: string
  ev_ray :: string
  ev_node :: string
  ev_phase :: string
  ev_inspector :: string
  ev_profile :: string
  ev_verdict :: string
  ev_score :: "int option"
  ev_ms :: f64
  ev_findings :: "finding list"
  ev_engine :: engine
  ev_frame :: "(string \<times> int) option"

definition event_head :: "string \<Rightarrow> details \<Rightarrow> audit_event" where
  "event_head ts det =
     \<lparr>ev_v = AuditVersion, ev_kind = Kind_inspector, ev_ts = ts, ev_ray = [], ev_node = [], ev_phase = [],
      ev_inspector = [], ev_profile = [], ev_verdict = [], ev_score = None, ev_ms = det_ms det,
      ev_findings = det_findings det, ev_engine = det_engine det, ev_frame = None\<rparr>"

definition frame_ref :: "request \<Rightarrow> (string \<times> int) option" where
  "frame_ref req =
     (case rq_stream req of
        None \<Rightarrow> None
      | Some s \<Rightarrow> if sm_direction s \<noteq> [] then Some (sm_direction s, rq_seq req) else None)"

definition event_req :: "request option \<Rightarrow> audit_event \<Rightarrow> audit_event" where
  "event_req ro e =
     (case ro of
        None \<Rightarrow> e
      | Some req \<Rightarrow> e\<lparr>ev_ray := rq_ray req, ev_node := rq_node req, ev_phase := rq_phase req,
          ev_inspector := rq_inspector req, ev_profile := rt_profile (rq_route req), ev_frame := frame_ref req\<rparr>)"

definition event_reply :: "reply option \<Rightarrow> audit_event \<Rightarrow> audit_event" where
  "event_reply ro e =
     (case ro of
        None \<Rightarrow> e
      | Some rep \<Rightarrow>
          (let e1 = e\<lparr>ev_verdict := rp_verdict rep, ev_score := rp_score rep\<rparr>
           in if ev_inspector e1 = [] then e1\<lparr>ev_inspector := rp_inspector rep\<rparr> else e1))"

definition Build :: "string \<Rightarrow> request option \<Rightarrow> reply option \<Rightarrow> details \<Rightarrow> audit_event" where
  "Build ts req rep det = event_reply rep (event_req req (event_head ts det))"

section \<open>The sink\<close>

abbreviation KindBatch :: string where "KindBatch \<equiv> ''batch''"
abbreviation maxItems :: nat where "maxItems \<equiv> 256"
abbreviation maxSize :: int where "maxSize \<equiv> 524288"
abbreviation maxPending :: nat where "maxPending \<equiv> 50000"

text \<open>An item is its subject and its encoded event.\<close>

type_synonym item = "string \<times> string"

record sink =
  si_pending :: "item list"
  si_size :: int
  si_dropped :: "64 word"

definition newSink :: sink where
  "newSink = \<lparr>si_pending = [], si_size = 0, si_dropped = 0\<rparr>"

definition sizeOf :: "item list \<Rightarrow> int" where
  "sizeOf its = foldl (\<lambda>n it. n + (int (length (snd it)) + 2)) 0 its"

text \<open>
  The critical section of \<open>Add\<close>: the new state, and whether the sender is woken.  The sizes are
  those of strings that the process holds in memory, so their sum does not reach 64 bits.
\<close>

definition push_item :: "item \<Rightarrow> sink \<Rightarrow> sink" where
  "push_item it s = s\<lparr>si_pending := si_pending s @ [it], si_size := si_size s + (int (length (snd it)) + 2)\<rparr>"

definition trim_pending :: "sink \<Rightarrow> sink" where
  "trim_pending s =
     (let n = length (si_pending s) in
      if n > maxPending then
        (let k = n - maxPending; kept = drop k (si_pending s)
         in \<lparr>si_pending = kept, si_size = sizeOf kept, si_dropped = si_dropped s + of_nat k\<rparr>)
      else s)"

definition sink_full :: "sink \<Rightarrow> bool" where
  "sink_full s \<longleftrightarrow> length (si_pending s) \<ge> maxItems \<or> si_size s \<ge> maxSize"

definition push :: "item \<Rightarrow> sink \<Rightarrow> sink \<times> bool" where
  "push it s = (let s1 = trim_pending (push_item it s) in (s1, sink_full s1))"

datatype add_result = Skipped | EncodeFailed | Added bool

definition Add ::
    "(audit_event \<Rightarrow> string option) \<Rightarrow> bool \<Rightarrow> string \<Rightarrow> request option \<Rightarrow> reply option \<Rightarrow> details \<Rightarrow> sink
     \<Rightarrow> sink \<times> add_result" where
  "Add encode online ts req rep det s =
     (case req of
        None \<Rightarrow> (s, Skipped)
      | Some r \<Rightarrow>
          if \<not> online \<or> rep = None then (s, Skipped)
          else (case rq_audit_subject r of
              None \<Rightarrow> (s, Skipped)
            | Some subject \<Rightarrow>
                if subject = [] then (s, Skipped)
                else (case encode (Build ts req rep det) of
                    None \<Rightarrow> (s, EncodeFailed)
                  | Some body \<Rightarrow> (case push (subject, body) s of (s1, full) \<Rightarrow> (s1, Added full)))))"

text \<open>\<open>groupBySubject\<close>: the subjects in the order of their first item, and the items of each.\<close>

definition group_step :: "string list \<times> (string \<rightharpoonup> item list) \<Rightarrow> item \<Rightarrow> string list \<times> (string \<rightharpoonup> item list)" where
  "group_step st it =
     (case st of (order, m) \<Rightarrow>
        (if m (fst it) = None then order @ [fst it] else order,
         m(fst it \<mapsto> (case m (fst it) of None \<Rightarrow> [] | Some l \<Rightarrow> l) @ [it])))"

definition groupBySubject :: "item list \<Rightarrow> string list \<times> (string \<rightharpoonup> item list)" where
  "groupBySubject its = foldl group_step ([], Map.empty) its"

text \<open>What \<open>publish\<close> hands to \<open>send\<close>: a message is a subject and the bodies of its envelope.\<close>

type_synonym message = "string \<times> string list"

definition publish :: "item list \<Rightarrow> message list" where
  "publish its =
     (if length its = 1 then [(fst (its ! 0), map snd (take 1 its))]
      else case groupBySubject its of (order, m) \<Rightarrow>
        map (\<lambda>u. (u, map snd (case m u of None \<Rightarrow> [] | Some l \<Rightarrow> l))) order)"

text \<open>One turn of the loop of \<open>flush\<close>: the critical section, and the items it took.\<close>

definition take_batch :: "sink \<Rightarrow> (sink \<times> item list) option" where
  "take_batch s =
     (if si_pending s = [] then None
      else let n = length (si_pending s); n = (if n > maxItems then maxItems else n);
               rest = drop n (si_pending s)
        in Some (s\<lparr>si_pending := rest, si_size := sizeOf rest\<rparr>, take n (si_pending s)))"

lemma take_batch_shorter:
  "take_batch s = Some (s', its) \<Longrightarrow> length (si_pending s') < length (si_pending s)"
  by (auto simp: take_batch_def Let_def split: if_splits)

function flush :: "sink \<Rightarrow> sink \<times> message list" where
  "flush s =
     (case take_batch s of
        None \<Rightarrow> (s, [])
      | Some (s1, its) \<Rightarrow> (case flush s1 of (s2, ms) \<Rightarrow> (s2, publish its @ ms)))"
  by pat_completeness auto
termination
  by (relation "measure (length \<circ> si_pending)") (auto simp: take_batch_shorter)

declare flush.simps [simp del]

text \<open>
  Additions come between the turns of a flush: the system is the sink, the items added to it and
  the messages sent, in order.  The wake-up, the ticker and the stop, which decide when
  a turn runs, are in the theory of its goroutines.
\<close>

record sink_system =
  ss_sink :: sink
  ss_added :: "item list"
  ss_sent :: "message list"

definition sink_start :: sink_system where
  "sink_start = \<lparr>ss_sink = newSink, ss_added = [], ss_sent = []\<rparr>"

inductive sink_step :: "sink_system \<Rightarrow> sink_system \<Rightarrow> bool" where
  add: "sink_step y (y\<lparr>ss_sink := fst (push it (ss_sink y)), ss_added := ss_added y @ [it]\<rparr>)"
| turn: "take_batch (ss_sink y) = Some (s, its) \<Longrightarrow>
         sink_step y (y\<lparr>ss_sink := s, ss_sent := ss_sent y @ publish its\<rparr>)"

inductive sink_reach :: "sink_system \<Rightarrow> bool" where
  start: "sink_reach sink_start"
| step: "sink_reach y \<Longrightarrow> sink_step y y' \<Longrightarrow> sink_reach y'"

inductive_cases sink_stepE: "sink_step y y'"
inductive_simps sink_step_iff: "sink_step y y'"

section \<open>Batches\<close>

text \<open>The bodies of a subject, in items and in messages.\<close>

definition of_subject :: "string \<Rightarrow> item list \<Rightarrow> string list" where
  "of_subject u its = map snd (filter (\<lambda>it. fst it = u) its)"

definition sent_to :: "string \<Rightarrow> message list \<Rightarrow> string list" where
  "sent_to u ms = concat (map snd (filter (\<lambda>m. fst m = u) ms))"

lemma of_subject_append [simp]: "of_subject u (a @ b) = of_subject u a @ of_subject u b"
  by (simp add: of_subject_def)

lemma sent_to_append [simp]: "sent_to u (a @ b) = sent_to u a @ sent_to u b"
  by (simp add: sent_to_def)

lemma sent_to_Nil [simp]: "sent_to u [] = []"
  by (simp add: sent_to_def)

definition grouped :: "item list \<Rightarrow> string list \<times> (string \<rightharpoonup> item list) \<Rightarrow> bool" where
  "grouped its st \<longleftrightarrow> distinct (fst st) \<and> set (fst st) = fst ` set its \<and>
     snd st = (\<lambda>u. if u \<in> fst ` set its then Some (filter (\<lambda>it. fst it = u) its) else None)"

lemma group_step_grouped:
  assumes "grouped its (order, m)"
  shows "grouped (its @ [it]) (group_step (order, m) it)"
proof -
  from assms have d: "distinct order" and s: "set order = fst ` set its"
    and m: "m = (\<lambda>u. if u \<in> fst ` set its then Some (filter (\<lambda>it. fst it = u) its) else None)"
    by (simp_all add: grouped_def)
  show ?thesis
  proof (cases "fst it \<in> fst ` set its")
    case True
    then show ?thesis using d s
      by (simp add: grouped_def group_step_def m fun_eq_iff insert_absorb)
  next
    case False
    then have "filter (\<lambda>x. fst x = fst it) its = []" by (auto simp: filter_empty_conv image_iff)
    with False show ?thesis using d s by (simp add: grouped_def group_step_def m fun_eq_iff)
  qed
qed

lemma groupBySubject_grouped: "grouped its (groupBySubject its)"
proof (induction its rule: rev_induct)
  case Nil
  then show ?case by (simp add: groupBySubject_def grouped_def)
next
  case (snoc it its)
  obtain order m where "groupBySubject its = (order, m)" by force
  with group_step_grouped [of its order m it] snoc show ?case by (simp add: groupBySubject_def)
qed

lemma sent_to_distinct:
  "distinct us \<Longrightarrow> sent_to u (map (\<lambda>v. (v, f v)) us) = (if u \<in> set us then f u else [])"
  by (induction us) (auto simp: sent_to_def)

lemma publish_groups:
  "publish its = (case groupBySubject its of (order, m) \<Rightarrow>
     map (\<lambda>u. (u, map snd (case m u of None \<Rightarrow> [] | Some l \<Rightarrow> l))) order)"
proof (cases "length its = 1")
  case True
  then obtain it where "its = [it]" by (auto simp: length_Suc_conv)
  then show ?thesis by (simp add: publish_def groupBySubject_def group_step_def)
next
  case False
  then show ?thesis by (simp add: publish_def)
qed

text \<open>A batch sends every item once, under its subject and in order, at most 256 in one message.\<close>

lemma publish_sent: "sent_to u (publish its) = of_subject u its"
proof -
  obtain order m where g: "groupBySubject its = (order, m)" by force
  with groupBySubject_grouped [of its]
  have d: "distinct order" and o: "set order = fst ` set its"
    and m: "m = (\<lambda>u. if u \<in> fst ` set its then Some (filter (\<lambda>it. fst it = u) its) else None)"
    by (simp_all add: grouped_def)
  have "of_subject u its = []" if "u \<notin> fst ` set its"
    using that by (auto simp: of_subject_def filter_empty_conv)
  then show ?thesis
    by (simp add: publish_groups g sent_to_distinct [OF d] o) (auto simp: m of_subject_def)
qed

lemma publish_sizes: "(u, bodies) \<in> set (publish its) \<Longrightarrow> bodies \<noteq> [] \<and> length bodies \<le> length its"
proof -
  assume h: "(u, bodies) \<in> set (publish its)"
  obtain order m where g: "groupBySubject its = (order, m)" by force
  with groupBySubject_grouped [of its]
  have o: "set order = fst ` set its"
    and m: "m = (\<lambda>u. if u \<in> fst ` set its then Some (filter (\<lambda>it. fst it = u) its) else None)"
    by (simp_all add: grouped_def)
  from h o have u: "u \<in> fst ` set its" and b: "bodies = map snd (filter (\<lambda>it. fst it = u) its)"
    by (auto simp: publish_groups g m)
  from u have "filter (\<lambda>it. fst it = u) its \<noteq> []" by (auto simp: filter_empty_conv)
  then show ?thesis by (simp add: b)
qed

lemma publish_subjects: "distinct (map fst (publish its))"
proof -
  obtain order m where g: "groupBySubject its = (order, m)" by force
  with groupBySubject_grouped [of its] have "distinct order" by (simp add: grouped_def)
  then show ?thesis by (simp add: publish_groups g comp_def)
qed

section \<open>The books of the sink\<close>

lemma sizeOf_snoc: "sizeOf (its @ [it]) = sizeOf its + (int (length (snd it)) + 2)"
  by (simp add: sizeOf_def)

definition sink_ok :: "sink \<Rightarrow> bool" where
  "sink_ok s \<longleftrightarrow> length (si_pending s) \<le> maxPending \<and> si_size s = sizeOf (si_pending s)"

text \<open>What an addition does: it keeps the newest items and counts the ones that it lets go.\<close>

lemma push_pending:
  assumes "sink_ok s" and "push it s = (s', full)"
  obtains k where "si_pending s' = drop k (si_pending s @ [it])" and "k \<le> Suc (length (si_pending s))"
    and "si_dropped s' = si_dropped s + of_nat k" and "sink_ok s'"
    and "full = sink_full s'"
proof -
  let ?p = "si_pending s @ [it]"
  have size: "si_size (push_item it s) = sizeOf ?p"
    using assms(1) by (simp add: push_item_def sink_ok_def sizeOf_snoc)
  have p: "si_pending (push_item it s) = ?p" "si_dropped (push_item it s) = si_dropped s"
    by (simp_all add: push_item_def)
  have s': "s' = trim_pending (push_item it s)" "full = sink_full s'"
    using assms(2) by (auto simp: push_def Let_def)
  show thesis
  proof (cases "length ?p > maxPending")
    case True
    then have e: "s' = \<lparr>si_pending = drop (length ?p - maxPending) ?p,
        si_size = sizeOf (drop (length ?p - maxPending) ?p),
        si_dropped = si_dropped s + of_nat (length ?p - maxPending)\<rparr>"
      by (simp add: s'(1) trim_pending_def p Let_def)
    have "si_pending s' = drop (length ?p - maxPending) ?p" "sink_ok s'"
      "si_dropped s' = si_dropped s + of_nat (length ?p - maxPending)"
      using e by (simp_all only: sink_ok_def sink.select_convs length_drop) (use True in linarith)
    moreover have "length ?p - maxPending \<le> Suc (length (si_pending s))" by simp
    ultimately show thesis using that s'(2) by blast
  next
    case False
    then have "s' = push_item it s" by (simp add: s'(1) trim_pending_def p)
    with False size p s'(2) show thesis by (intro that [of 0]) (simp_all add: sink_ok_def)
  qed
qed

lemma take_batch_parts:
  assumes "take_batch s = Some (s', its)"
  shows "si_pending s = its @ si_pending s'" and "its \<noteq> []" and "length its \<le> maxItems"
    and "si_dropped s' = si_dropped s" and "si_size s' = sizeOf (si_pending s')"
    and "si_pending s' \<noteq> [] \<Longrightarrow> length its = maxItems"
  using assms by (auto simp: take_batch_def Let_def split: if_splits)

definition stream_ok :: "sink_system \<Rightarrow> item list \<Rightarrow> nat \<Rightarrow> bool" where
  "stream_ok y gone n \<longleftrightarrow>
     sink_ok (ss_sink y) \<and> subseq (gone @ si_pending (ss_sink y)) (ss_added y) \<and>
     length (ss_added y) = length gone + length (si_pending (ss_sink y)) + n \<and>
     si_dropped (ss_sink y) = of_nat n \<and> (\<forall>u. sent_to u (ss_sent y) = of_subject u gone) \<and>
     (\<forall>m \<in> set (ss_sent y). snd m \<noteq> [] \<and> length (snd m) \<le> maxItems)"

lemma subseq_keep: "subseq (g @ p) a \<Longrightarrow> subseq (g @ drop k (p @ [x])) (a @ [x])"
proof -
  assume "subseq (g @ p) a"
  then have "subseq (g @ p @ [x]) (a @ [x])" by (metis append.assoc list_emb_append_mono subseq_order.refl)
  moreover have "subseq (g @ drop k (p @ [x])) (g @ p @ [x])"
    unfolding subseq_append' by (intro suffix_imp_subseq suffix_drop)
  ultimately show ?thesis by (rule subseq_order.trans [rotated])
qed

lemma stream_add:
  assumes "stream_ok y gone n"
  shows "\<exists>m. stream_ok (y\<lparr>ss_sink := fst (push it (ss_sink y)), ss_added := ss_added y @ [it]\<rparr>) gone m"
proof -
  obtain s full where p: "push it (ss_sink y) = (s, full)" by force
  have "sink_ok (ss_sink y)" using assms by (simp add: stream_ok_def)
  from push_pending [OF this p] obtain k where
    k: "si_pending s = drop k (si_pending (ss_sink y) @ [it])" "k \<le> Suc (length (si_pending (ss_sink y)))"
      "si_dropped s = si_dropped (ss_sink y) + of_nat k" "sink_ok s" by metis
  have "stream_ok (y\<lparr>ss_sink := s, ss_added := ss_added y @ [it]\<rparr>) gone (n + k)"
    using assms k subseq_keep [of gone "si_pending (ss_sink y)" "ss_added y" k it]
    by (simp add: stream_ok_def)
  then show ?thesis by (auto simp: p)
qed

lemma stream_turn:
  assumes "stream_ok y gone n" and "take_batch (ss_sink y) = Some (s, its)"
  shows "stream_ok (y\<lparr>ss_sink := s, ss_sent := ss_sent y @ publish its\<rparr>) (gone @ its) n"
proof -
  note t = take_batch_parts [OF assms(2)]
  have "snd m \<noteq> [] \<and> length (snd m) \<le> maxItems" if "m \<in> set (publish its)" for m
    using publish_sizes [of "fst m" "snd m" its] that t(3) by simp
  moreover have "sink_ok s" using assms(1) t(1,5) by (auto simp: stream_ok_def sink_ok_def)
  ultimately show ?thesis using assms(1) t(1,4) by (auto simp: stream_ok_def publish_sent)
qed

lemma stream_reach: "sink_reach y \<Longrightarrow> \<exists>gone n. stream_ok y gone n"
proof (induction rule: sink_reach.induct)
  case start
  have "stream_ok sink_start [] 0"
    by (simp add: stream_ok_def sink_start_def newSink_def sink_ok_def sizeOf_def of_subject_def)
  then show ?case by blast
next
  case (step y y')
  then obtain gone n where "stream_ok y gone n" by blast
  with step.hyps(2) show ?case by (cases rule: sink_step.cases) (blast dest: stream_add stream_turn)+
qed

lemma flush_empty: "si_pending s = [] \<Longrightarrow> flush s = (s, [])"
  by (subst flush.simps) (simp add: take_batch_def)

lemma flush_turn:
  "take_batch s = Some (s1, its) \<Longrightarrow> flush s = (fst (flush s1), publish its @ snd (flush s1))"
  by (subst flush.simps) (simp add: split_beta)

section \<open>Properties\<close>

text \<open>
  Whatever the interleaving of additions with the turns of a flush, the messages of
  a subject carry its events once each and in the order of their addition; what is not sent is
  still pending or was let go, oldest first, and counted by \<open>dropped\<close>; and neither the sink nor a
  message outgrows its bound.
\<close>

theorem audit_stream_exact:
  assumes "sink_reach y"
  shows "\<exists>gone n. subseq (gone @ si_pending (ss_sink y)) (ss_added y) \<and>
    length (ss_added y) = length gone + length (si_pending (ss_sink y)) + n \<and>
    si_dropped (ss_sink y) = of_nat n \<and> (\<forall>u. sent_to u (ss_sent y) = of_subject u gone) \<and>
    length (si_pending (ss_sink y)) \<le> maxPending \<and> si_size (ss_sink y) = sizeOf (si_pending (ss_sink y)) \<and>
    (\<forall>m \<in> set (ss_sent y). snd m \<noteq> [] \<and> length (snd m) \<le> maxItems)"
  using stream_reach [OF assms] by (auto simp: stream_ok_def sink_ok_def)

definition demo_items :: "item list" where
  "demo_items = [(''a'', ''1''), (''b'', ''2''), (''a'', ''3'')]"

definition demo_stream :: sink_system where
  "demo_stream = \<lparr>ss_sink = newSink, ss_added = demo_items, ss_sent = [(''a'', [''1'', ''3'']), (''b'', [''2''])]\<rparr>"

lemma push_demo:
  "push (u, b) \<lparr>si_pending = p, si_size = k, si_dropped = 0\<rparr> =
   (\<lparr>si_pending = p @ [(u, b)], si_size = k + (int (length b) + 2), si_dropped = 0\<rparr>,
    sink_full \<lparr>si_pending = p @ [(u, b)], si_size = k + (int (length b) + 2), si_dropped = 0\<rparr>)"
  if "length p < maxPending"
  using that by (simp add: push_def push_item_def trim_pending_def Let_def)

lemma demo_stream_reach: "sink_reach demo_stream"
proof -
  let ?s = "\<lparr>si_pending = demo_items, si_size = 9, si_dropped = 0\<rparr>"
  let ?y = "\<lparr>ss_sink = ?s, ss_added = demo_items, ss_sent = []\<rparr>"
  have "sink_reach \<lparr>ss_sink = \<lparr>si_pending = [(''a'', ''1'')], si_size = 3, si_dropped = 0\<rparr>,
      ss_added = [(''a'', ''1'')], ss_sent = []\<rparr>"
    using sink_reach.step [OF sink_reach.start sink_step.add [of sink_start "(''a'', ''1'')"]]
    by (simp add: sink_start_def newSink_def push_demo)
  from sink_reach.step [OF this sink_step.add [of _ "(''b'', ''2'')"]]
  have "sink_reach \<lparr>ss_sink = \<lparr>si_pending = [(''a'', ''1''), (''b'', ''2'')], si_size = 6, si_dropped = 0\<rparr>,
      ss_added = [(''a'', ''1''), (''b'', ''2'')], ss_sent = []\<rparr>"
    by (simp add: push_demo)
  from sink_reach.step [OF this sink_step.add [of _ "(''a'', ''3'')"]]
  have y: "sink_reach ?y" by (simp add: push_demo demo_items_def)
  have t: "take_batch ?s = Some (newSink, demo_items)" by code_simp
  have "publish demo_items = [(''a'', [''1'', ''3'']), (''b'', [''2''])]" by code_simp
  with sink_reach.step [OF y sink_step.turn, of newSink demo_items] t show ?thesis
    by (simp add: demo_stream_def)
qed

theorem audit_stream_exact_witness:
  "(\<exists>gone n. subseq (gone @ si_pending (ss_sink demo_stream)) (ss_added demo_stream) \<and>
    length (ss_added demo_stream) = length gone + length (si_pending (ss_sink demo_stream)) + n) \<and>
   sent_to ''a'' (ss_sent demo_stream) = [''1'', ''3'']"
proof
  show "\<exists>gone n. subseq (gone @ si_pending (ss_sink demo_stream)) (ss_added demo_stream) \<and>
      length (ss_added demo_stream) = length gone + length (si_pending (ss_sink demo_stream)) + n"
    using audit_stream_exact [OF demo_stream_reach] by blast
  show "sent_to ''a'' (ss_sent demo_stream) = [''1'', ''3'']"
    by (simp add: demo_stream_def sent_to_def)
qed

text \<open>
  A flush ends with an empty sink, whatever was pending, and in the batches that
  it sent every subject has all of its events, in order.
\<close>

theorem flush_delivers_all:
  "si_pending (fst (flush s)) = [] \<and> si_dropped (fst (flush s)) = si_dropped s \<and>
   sent_to u (snd (flush s)) = of_subject u (si_pending s)"
proof (induction s rule: flush.induct)
  case (1 s)
  show ?case
  proof (cases "take_batch s")
    case None
    then have "si_pending s = []" by (auto simp: take_batch_def Let_def split: if_splits)
    then show ?thesis by (simp add: flush_empty of_subject_def)
  next
    case (Some r)
    obtain s1 its where r: "r = (s1, its)" by (cases r)
    note t = Some [unfolded r]
    show ?thesis
      using 1 [OF t refl] take_batch_parts(1,4) [OF t] by (simp add: flush_turn [OF t] publish_sent)
  qed
qed

end
