(* ===== verification/Handler.thy ===== *)
theory Handler
  imports Profile_Store Subjects Body Queue Auditing
begin

text \<open>
  \<open>cmd/inspector/handler.go\<close>, \<open>frame.go\<close> and \<open>lists.go\<close>: from a message to its reply.  The state
  is the one of the buckets, threaded through the call of \<open>Apply\<close>.  The packages that the handler
  only calls are fields of \<open>env\<close>: the address resolver and the writer of the lists, the JSON
  decoders and encoder, SHA-256, the matcher of regular expressions; what they answer under the
  deadline of the context is their answer here.  The clock and the measured time of the engine
  are arguments.  A call that may panic is an option, \<open>None\<close> being the panic: of the loader, of the
  matcher's table, and of the address coder, whose pointer may be nil where \<open>writeLists\<close> calls it.  A
  phase ends in an answer or in a panic with what it had done before; logging is left out.
\<close>

record 's env =
  en_name :: string
  en_versions :: "int list"
  en_crypto :: crypto
  en_loader :: loader
  en_resolver :: "(string \<Rightarrow> string \<times> string) option"
  en_hash :: "string \<Rightarrow> string"
  en_pairs :: "string \<Rightarrow> header list option"
  en_hits :: matcher
  en_networked :: "string \<Rightarrow> bool"
  en_geo :: "string \<Rightarrow> string \<Rightarrow> (err + string list) option"
  en_lists :: bool
  en_unmarshal :: "string \<Rightarrow> request option"
  en_encode :: "reply \<Rightarrow> string"
  en_apply :: "'s \<Rightarrow> tiers \<Rightarrow> charge list \<Rightarrow> bref list \<Rightarrow> int \<Rightarrow> 's \<times> (err + level list)"

text \<open>\<open>Config.Supports\<close>.\<close>

definition Supports :: "'s env \<Rightarrow> int \<Rightarrow> bool" where
  "Supports e v = list_ex (\<lambda>known. known = v) (en_versions e)"

section \<open>List writes\<close>

text \<open>A call of \<open>AddMany\<close>; its error is only logged.\<close>

record list_add =
  ad_name :: string
  ad_values :: "string list"
  ad_ttl :: int
  ad_reason :: string

definition write_ban :: "'s env \<Rightarrow> ban \<Rightarrow> (err + string list) option" where
  "write_ban e b = (if en_networked e (bn_write b) then en_geo e (bn_write b) (bn_addr b) else Some (Inr [bn_addr b]))"

definition ban_add :: "ban \<Rightarrow> string list \<Rightarrow> list_add" where
  "ban_add b values =
     \<lparr>ad_name = bn_dataset b, ad_values = values, ad_ttl = wrap64 (bn_ttl b * 1000000000), ad_reason = bn_reason b\<rparr>"

text \<open>The loop of \<open>writeLists\<close>: the adds, and the first error of the coder unless it panics.\<close>

fun write_bans :: "'s env \<Rightarrow> err option \<Rightarrow> ban list \<Rightarrow> list_add list \<times> err option option" where
  "write_bans e failed [] = ([], Some failed)"
| "write_bans e failed (b # bans) =
     (case write_ban e b of
        None \<Rightarrow> ([], None)
      | Some (Inl x) \<Rightarrow> write_bans e (if failed = None then Some x else failed) bans
      | Some (Inr vals) \<Rightarrow>
          if vals = [] then write_bans e failed bans
          else (case write_bans e failed bans of (adds, r) \<Rightarrow> (ban_add b vals # adds, r)))"

definition writeLists :: "'s env \<Rightarrow> ban list \<Rightarrow> list_add list \<times> err option option" where
  "writeLists e bans = write_bans e None bans"

definition publish_bans :: "'s env \<Rightarrow> ban list \<Rightarrow> list_add list \<times> err option option" where
  "publish_bans e bans = (if bans = [] \<or> \<not> en_lists e then ([], Some None) else writeLists e bans)"

section \<open>Parts of the phases\<close>

record 's answer =
  an_state :: 's
  an_reply :: reply
  an_details :: details
  an_lists :: "list_add list"

text \<open>What a phase comes to: an answer, or a panic in a state and after some list writes.\<close>

datatype 's turn = Done "'s answer" | Panics 's "list_add list"

definition answer :: "'s \<Rightarrow> reply \<Rightarrow> details \<Rightarrow> list_add list \<Rightarrow> 's answer" where
  "answer s r d ls = \<lparr>an_state = s, an_reply = r, an_details = d, an_lists = ls\<rparr>"

definition engine :: "(string \<times> engine_val) list \<Rightarrow> details" where
  "engine kvs = no_details\<lparr>det_engine := kvs\<rparr>"

definition plain :: "request \<Rightarrow> string \<Rightarrow> string \<Rightarrow> reply" where
  "plain req verdict code = (NewReply req verdict)\<lparr>rp_reason := Some (Reason code)\<rparr>"

definition needsBody :: "measure_rule list \<Rightarrow> bool" where
  "needsBody rules = list_ex (\<lambda>r. mr_source r = SourceRegexCount) rules"

definition phaseEnabled :: "profile \<Rightarrow> string \<Rightarrow> bool" where
  "phaseEnabled p phase =
     (if phase = PhaseResponse then sph_enabled (pf_response p)
      else if phase = PhaseFrame then fph_enabled (pf_frame p)
      else rph_enabled (pf_request p))"

definition headers :: "'s env \<Rightarrow> body \<Rightarrow> header list" where
  "headers e b =
     (if \<not> Available b \<or> bd_data b = [] then []
      else case en_pairs e (bd_data b) of None \<Rightarrow> [] | Some pairs \<Rightarrow> pairs)"

definition headersFor :: "'s env \<Rightarrow> request \<Rightarrow> subject_ref list \<Rightarrow> counters \<Rightarrow> (string + header list) option" where
  "headersFor e req refs c =
     (if \<not> hasConfigurable refs c then Some (Inr [])
      else case Load (en_crypto e) (en_loader e) (st_headers (rq_store req)) of
             None \<Rightarrow> None
           | Some loaded \<Rightarrow>
               Some (if Failed loaded then Inl (''headers: '' @ bd_unavailable loaded) else Inr (headers e loaded)))"

text \<open>The subjects that the rules, the outcomes over a bucket and the notes name.\<close>

definition judge_refs :: "judge_rule list \<Rightarrow> subject_ref list" where
  "judge_refs rs = map (\<lambda>r. \<lparr>sr_counter = jr_counter r, sr_axis = jr_axis r\<rparr>) rs"

definition bucket_ifs :: "outcome list \<Rightarrow> outcome_if list" where
  "bucket_ifs xs = List.map_filter (\<lambda>x. if OnBucket x then oc_if x else None) xs"

definition outcome_refs :: "outcome list \<Rightarrow> subject_ref list" where
  "outcome_refs xs = map (\<lambda>i. \<lparr>sr_counter = oi_counter i, sr_axis = oi_axis i\<rparr>) (bucket_ifs xs)"

definition note_refs :: "note_charge list \<Rightarrow> subject_ref list" where
  "note_refs ns = map (\<lambda>n. \<lparr>sr_counter = nc_counter n, sr_axis = nc_axis n\<rparr>) ns"

definition value_refs :: "mvalue list \<Rightarrow> subject_ref list" where
  "value_refs vs = concat (map (\<lambda>v. map (\<lambda>a. \<lparr>sr_counter = va_counter v, sr_axis = a\<rparr>) (va_axes v)) vs)"

definition measure_refs :: "counters \<Rightarrow> measure_rule list \<Rightarrow> subject_ref list" where
  "measure_refs c ms =
     concat (map (\<lambda>m. map (\<lambda>a. \<lparr>sr_counter = mr_counter m, sr_axis = a\<rparr>)
       (if mr_axes m = [] then AxesOf c (mr_counter m) else mr_axes m)) ms)"

definition bucket_of :: "subject_keys \<Rightarrow> string \<Rightarrow> string \<Rightarrow> bref option" where
  "bucket_of keys counter axis = map_option (BRef (Kind counter axis)) (subject_key keys counter axis)"

definition reads_of :: "subject_keys \<Rightarrow> judge_rule list \<Rightarrow> outcome list \<Rightarrow> bref list" where
  "reads_of keys rs xs =
     List.map_filter (\<lambda>r. bucket_of keys (jr_counter r) (jr_axis r)) rs @
     List.map_filter (\<lambda>i. bucket_of keys (oi_counter i) (oi_axis i)) (bucket_ifs xs)"

definition value_charges :: "subject_keys \<Rightarrow> mvalue list \<Rightarrow> charge list" where
  "value_charges keys vs =
     concat (map (\<lambda>v. List.map_filter (\<lambda>a.
       map_option (\<lambda>r. \<lparr>ch_ref = r, ch_add = va_add v\<rparr>) (bucket_of keys (va_counter v) a)) (va_axes v)) vs)"

definition note_add :: "tiers \<Rightarrow> note_charge \<Rightarrow> f64" where
  "note_add ts n =
     fmul (fdiv (f64_of_int (nc_percent n)) (Fin 100)) (t_max (tier_of ts (Kind (nc_counter n) (nc_axis n))))"

definition note_one :: "subject_keys \<Rightarrow> tiers \<Rightarrow> note_charge \<Rightarrow> (charge \<times> noted) option" where
  "note_one keys ts n =
     map_option (\<lambda>key.
       (\<lparr>ch_ref = BRef (Kind (nc_counter n) (nc_axis n)) key, ch_add = note_add ts n\<rparr>,
        \<lparr>no_counter = nc_counter n, no_axis = nc_axis n, no_key = key, no_percent = nc_percent n,
         no_value = note_add ts n, no_code = nc_code n, no_from = nc_from n\<rparr>))
       (subject_key keys (nc_counter n) (nc_axis n))"

definition noteCharges :: "note_charge list \<Rightarrow> subject_keys \<Rightarrow> tiers \<Rightarrow> charge list \<times> noted list" where
  "noteCharges ns keys ts =
     (let rows = List.map_filter (note_one keys ts) ns in (map fst rows, map snd rows))"

text \<open>The map \<open>levels\<close> of the answers of \<open>Apply\<close>, and the lookup of a rule in it.\<close>

definition levels_map :: "level list \<Rightarrow> (bref \<rightharpoonup> f64)" where
  "levels_map ls = foldl (\<lambda>m l. m(lv_ref l \<mapsto> lv_percent l)) Map.empty ls"

definition level_lookup_of :: "subject_keys \<Rightarrow> (bref \<rightharpoonup> f64) \<Rightarrow> level_lookup" where
  "level_lookup_of keys levels counter axis =
     (case subject_key keys counter axis of
        None \<Rightarrow> (Fin 0, [], False)
      | Some key \<Rightarrow>
          (case levels (BRef (Kind counter axis) key) of None \<Rightarrow> Fin 0 | Some v \<Rightarrow> v, key, True))"

definition levelRows :: "level list \<Rightarrow> (string \<times> string \<times> f64) list" where
  "levelRows ls = map (\<lambda>l. (ref_kind (lv_ref l), ref_key (lv_ref l), lv_percent l)) ls"

definition judgeFindings :: "rule_audit list \<Rightarrow> finding list" where
  "judgeFindings rows =
     map (\<lambda>row. \<lparr>fd_code = ra_code row,
        fd_severity = (if ra_action row = ActionDeny then SeverityHigh else SeverityMedium),
        fd_target = TargetConn, fd_rule = ra_counter row @ '':'' @ ra_axis row,
        fd_evidence = (ra_percent row, ra_at row)\<rparr>) (filter ra_fired rows)"

text \<open>The scaling of the decision, and the reply to it, as both phases that judge do it.\<close>

definition scored_of :: "int \<Rightarrow> decision \<Rightarrow> int" where
  "scored_of percent d = (if dc_verdict d = VerdictScore then ScaleScore (dc_score d) percent else dc_score d)"

definition scale_would :: "int \<Rightarrow> decision \<Rightarrow> decision" where
  "scale_would percent d =
     (if dc_would_verdict d = VerdictScore then d\<lparr>dc_would_score := ScaleScore (dc_would_score d) percent\<rparr> else d)"

definition verdict_reply :: "request \<Rightarrow> decision \<Rightarrow> int \<Rightarrow> reply" where
  "verdict_reply req d scored =
     (let r = NewReply req (dc_verdict d);
          r = (if dc_code d \<noteq> [] then r\<lparr>rp_reason := Some (Reason (dc_code d))\<rparr> else r);
          r = (if dc_verdict d = VerdictScore
               then (case WithScore r scored of
                       (r1, None) \<Rightarrow> r1 | (_, Some _) \<Rightarrow> ErrorReply req CodeInternalError)
               else r)
      in if dc_verdict d = VerdictDeny then r\<lparr>rp_response := Some (dc_deny_response d)\<rparr> else r)"

definition effective :: "decision \<Rightarrow> int \<Rightarrow> decision" where
  "effective d scored = (if dc_verdict d = VerdictScore then d\<lparr>dc_score := scored\<rparr> else d)"

definition with_actions :: "action list \<Rightarrow> reply \<Rightarrow> reply" where
  "with_actions acts r = (if acts \<noteq> [] then r\<lparr>rp_actions := acts\<rparr> else r)"

text \<open>The entries of the details that follow the judgement.\<close>

definition verdict_details :: "profile \<Rightarrow> asks \<Rightarrow> decision \<Rightarrow> int \<Rightarrow> fired \<Rightarrow> details \<Rightarrow> details" where
  "verdict_details p q d scored f det0 =
     (let scaled = as_percent q \<noteq> 0 \<and> dc_verdict d = VerdictScore; would = dc_would_verdict d \<noteq> [];
          det = put scaled ''score_raw'' (EInt (dc_score d)) det0;
          det = put scaled ''score_scale_percent'' (EInt (as_percent q)) det;
          det = put scaled ''score_scaled'' (EInt scored) det;
          det = put (pf_mode p = ModeObserve) ''passive'' (EBool True) det;
          det = put would ''would_verdict'' (EStr (dc_would_verdict d)) det;
          det = put would ''would_code'' (EStr (dc_would_code d)) det;
          det = put (would \<and> dc_would_verdict d = VerdictScore) ''would_score'' (EInt (dc_would_score d)) det;
          det = put (fi_names f \<noteq> []) ''outcomes'' (ENames (fi_names f)) det
      in put (fi_levels f \<noteq> []) ''outcome_levels'' (EOutcomeLevels (fi_levels f)) det)"

definition resolve_of :: "'s env \<Rightarrow> string \<Rightarrow> string \<times> string" where
  "resolve_of e = (case en_resolver e of None \<Rightarrow> (\<lambda>_. ([], [])) | Some f \<Rightarrow> f)"

definition no_geo :: "'s env \<Rightarrow> subject_ref list \<Rightarrow> bool" where
  "no_geo e refs \<longleftrightarrow> needsResolver refs \<and> en_resolver e = None"

text \<open>The end of a phase that publishes its list writes.\<close>

definition after_bans :: "'s env \<Rightarrow> request \<Rightarrow> 's \<Rightarrow> ban list \<Rightarrow> reply \<Rightarrow> details \<Rightarrow> 's turn" where
  "after_bans e req s bans reply det =
     (case publish_bans e bans of
        (adds, None) \<Rightarrow> Panics s adds
      | (adds, Some (Some x)) \<Rightarrow>
          Done (answer s (ErrorReply req CodeGeoUnavailable) (put True ''geo'' (EStr (err_what x)) det) adds)
      | (adds, Some None) \<Rightarrow> Done (answer s reply det adds))"

definition failure :: "'s \<Rightarrow> request \<Rightarrow> profile \<Rightarrow> string \<Rightarrow> string \<Rightarrow> string \<Rightarrow> 's answer" where
  "failure s req p code key why =
     answer s (ErrorReply req code) (engine [(''profile'', EStr (pf_name p)), (key, EStr why)]) []"

section \<open>The request phase\<close>

definition judge_base :: "profile \<Rightarrow> request \<Rightarrow> f64 \<Rightarrow> rule_audit list \<Rightarrow> details" where
  "judge_base p req ms rows =
     \<lparr>det_ms = ms, det_findings = judgeFindings rows,
      det_engine = [(''profile'', EStr (pf_name p)), (''mode'', EStr (pf_mode p)), (''phase'', EStr (rq_phase req)),
                    (''judge'', EJudge rows)]\<rparr>"

definition add_fired :: "fired \<Rightarrow> fired \<Rightarrow> fired" where
  "add_fired f g = f\<lparr>fi_actions := fi_actions f @ fi_actions g, fi_bans := fi_bans f @ fi_bans g,
     fi_names := fi_names f @ fi_names g\<rparr>"

text \<open>What follows \<open>Apply\<close>: the verdict over the levels, its outcomes and the list writes.\<close>

definition judge_verdict ::
    "'s env \<Rightarrow> request \<Rightarrow> profile \<Rightarrow> asks \<Rightarrow> int \<Rightarrow> f64 \<Rightarrow> subject_keys \<Rightarrow> noted list \<Rightarrow> level list \<Rightarrow> 's \<Rightarrow> 's turn" where
  "judge_verdict e req p q fill ms keys noted applied s =
     (let addr = client_ip (rq_conn req); outcomes = rph_outcomes (pf_request p);
          lookup = level_lookup_of keys (levels_map applied);
          (d0, rows) = Judge p lookup;
          scored = scored_of (as_percent q) d0;
          d = scale_would (as_percent q) d0;
          f = add_fired (Fire outcomes (effective d scored) addr (Some lookup))
                (FireOverload outcomes fill False addr ReasonQueueLimit);
          reply = with_actions (fi_actions f) (verdict_reply req d scored);
          det = put (as_outcomes q \<noteq> []) ''actions'' (EActions (as_outcomes q)) (judge_base p req ms rows);
          det = verdict_details p q d scored f det;
          det = put (noted \<noteq> []) ''noted'' (ENoted noted) det
      in after_bans e req s (fi_bans f) reply det)"

definition h_judge ::
    "'s env \<Rightarrow> request \<Rightarrow> profile \<Rightarrow> counters \<Rightarrow> tiers \<Rightarrow> asks \<Rightarrow> int \<Rightarrow> int \<Rightarrow> f64 \<Rightarrow> 's \<Rightarrow> 's turn" where
  "h_judge e req p c ts q fill now ms s =
     (if as_skip q then
        Done (answer s (plain req VerdictAllow CodeSkipped)
          (engine [(''profile'', EStr (pf_name p)), (''skip'', EBool True), (''actions'', EActions (as_outcomes q))]) [])
      else let refs = judge_refs (rph_judge (pf_request p)) @ outcome_refs (rph_outcomes (pf_request p)) @ note_refs (as_notes q) in
        if no_geo e refs then Done (failure s req p CodeGeoUnavailable ''geo'' ''unconfigured'')
        else case headersFor e req refs c of
               None \<Rightarrow> Panics s []
             | Some (Inl why) \<Rightarrow> Done (failure s req p CodeStoreUnavailable ''store'' why)
             | Some (Inr hs) \<Rightarrow>
                 (let keys = subjectsOf (resolve_of e) (en_hash e) refs c (client_ip (rq_conn req)) hs (rq_sessions req) [];
                      reads = reads_of keys (rph_judge (pf_request p)) (rph_outcomes (pf_request p));
                      (charges, noted) = noteCharges (as_notes q) keys ts
                  in case en_apply e s ts charges reads now of
                       (s1, Inl x) \<Rightarrow> Done (failure s1 req p CodeBucketsUnavailable ''buckets'' (err_what x))
                     | (s1, Inr applied) \<Rightarrow> judge_verdict e req p q fill ms keys noted applied s1))"

section \<open>The response phase\<close>

definition phase_details :: "profile \<Rightarrow> request \<Rightarrow> f64 \<Rightarrow> (string \<times> engine_val) list \<Rightarrow> details" where
  "phase_details p req ms kvs =
     \<lparr>det_ms = ms, det_findings = [],
      det_engine = [(''profile'', EStr (pf_name p)), (''mode'', EStr (pf_mode p)), (''phase'', EStr (rq_phase req))] @ kvs\<rparr>"

definition response_input :: "'s env \<Rightarrow> request \<Rightarrow> bool \<Rightarrow> body list \<Rightarrow> input" where
  "response_input e req wantBody got =
     \<lparr>in_method = http_method (rq_http req),
      in_status = (case rq_response req of None \<Rightarrow> 0 | Some r \<Rightarrow> rsp_status r),
      in_frame = False, in_direction = [], in_opcode = [],
      in_content_type = headerValue (headers e (got ! 0)) ''content-type'',
      in_body = (if wantBody then bd_data (got ! 2) else []),
      in_body_truncated = (if wantBody then bd_truncated (got ! 2) else False),
      in_body_size = (case st_body (rq_store req) of None \<Rightarrow> 0 | Some l \<Rightarrow> lo_size l)\<rparr>"

text \<open>What follows \<open>Run\<close>: the charges of the values and of the notes.\<close>

definition measure_charge ::
    "'s env \<Rightarrow> request \<Rightarrow> profile \<Rightarrow> counters \<Rightarrow> tiers \<Rightarrow> asks \<Rightarrow> int \<Rightarrow> f64 \<Rightarrow> body list
     \<Rightarrow> mvalue list \<Rightarrow> measure_fired list \<Rightarrow> 's \<Rightarrow> 's answer" where
  "measure_charge e req p c ts q now ms got values rows s =
     (let refs = value_refs values @ note_refs (as_notes q) in
      if no_geo e refs then failure s req p CodeGeoUnavailable ''geo'' ''unconfigured''
      else if Failed (got ! 1) then failure s req p CodeStoreUnavailable ''store'' (bd_unavailable (got ! 1))
      else let keys = subjectsOf (resolve_of e) (en_hash e) refs c (client_ip (rq_conn req)) (headers e (got ! 1)) (rq_sessions req) [];
               (note_chs, noted) = noteCharges (as_notes q) keys ts
        in case en_apply e s ts (value_charges keys values @ note_chs) [] now of
             (s1, Inl x) \<Rightarrow> failure s1 req p CodeBucketsUnavailable ''buckets'' (err_what x)
           | (s1, Inr applied) \<Rightarrow>
               answer s1 (plain req VerdictAllow CodeMeasured)
                 (put (as_outcomes q \<noteq> []) ''actions'' (EActions (as_outcomes q))
                   (put (noted \<noteq> []) ''noted'' (ENoted noted)
                     (phase_details p req ms [(''measured'', EMeasured rows), (''levels'', ELevelRows (levelRows applied))]))) [])"

definition h_measure ::
    "'s env \<Rightarrow> request \<Rightarrow> profile \<Rightarrow> counters \<Rightarrow> tiers \<Rightarrow> asks \<Rightarrow> int \<Rightarrow> f64 \<Rightarrow> 's \<Rightarrow> 's turn" where
  "h_measure e req p c ts q now ms s =
     (let rules = sph_measure (pf_response p); wantBody = needsBody rules;
          locs = [st_headers (rq_store req), st_headers (rq_request_store req)] @
                 (if wantBody then [st_body (rq_store req)] else [])
      in case LoadMany (en_crypto e) (en_loader e) locs of
           None \<Rightarrow> Panics s []
         | Some got \<Rightarrow>
             (case find Failed got of
                Some b \<Rightarrow> Done (failure s req p CodeStoreUnavailable ''store'' (bd_unavailable b))
              | None \<Rightarrow>
                  (case Measure.Run (en_hits e) rules c (response_input e req wantBody got) of
                     None \<Rightarrow> Panics s []
                   | Some (values, rows) \<Rightarrow>
                       if values = [] \<and> as_notes q = [] then
                         Done (answer s ((plain req VerdictAllow CodeMeasured)\<lparr>rp_reason := None\<rparr>)
                           (put (as_outcomes q \<noteq> []) ''actions'' (EActions (as_outcomes q)) (phase_details p req ms [])) [])
                       else Done (measure_charge e req p c ts q now ms got values rows s))))"

section \<open>The frame phase\<close>

definition stream_of :: "request \<Rightarrow> string \<times> string" where
  "stream_of req = (case rq_stream req of None \<Rightarrow> ([], []) | Some s \<Rightarrow> (sm_direction s, sm_opcode s))"

definition frame_input :: "request \<Rightarrow> bool \<Rightarrow> body \<Rightarrow> input" where
  "frame_input req wantBody b =
     \<lparr>in_method = [], in_status = 0, in_frame = True, in_direction = fst (stream_of req),
      in_opcode = snd (stream_of req), in_content_type = [],
      in_body = (if wantBody then bd_data b else []),
      in_body_truncated = (if wantBody then bd_truncated b else False),
      in_body_size = (case st_body (rq_store req) of None \<Rightarrow> 0 | Some l \<Rightarrow> lo_size l)\<rparr>"

definition frame_refs :: "profile \<Rightarrow> counters \<Rightarrow> asks \<Rightarrow> subject_ref list" where
  "frame_refs p c q =
     judge_refs (fph_judge (pf_frame p)) @ outcome_refs (fph_outcomes (pf_frame p)) @ note_refs (as_notes q) @
     measure_refs c (fph_measure (pf_frame p))"

definition frame_base :: "profile \<Rightarrow> request \<Rightarrow> asks \<Rightarrow> measure_fired list \<Rightarrow> level list \<Rightarrow> noted list \<Rightarrow> details" where
  "frame_base p req q measured applied noted =
     put (as_outcomes q \<noteq> []) ''actions'' (EActions (as_outcomes q))
       (put (noted \<noteq> []) ''noted'' (ENoted noted)
         (phase_details p req (Fin 0)
           [(''conn'', EStr (rq_conn_id req)), (''seq'', EInt (rq_seq req)), (''direction'', EStr (fst (stream_of req))),
            (''opcode'', EStr (snd (stream_of req))), (''measured'', EMeasured measured),
            (''levels'', ELevelRows (levelRows applied))]))"

definition frame_verdict ::
    "'s env \<Rightarrow> request \<Rightarrow> profile \<Rightarrow> asks \<Rightarrow> f64 \<Rightarrow> subject_keys \<Rightarrow> details \<Rightarrow> level list \<Rightarrow> 's \<Rightarrow> 's turn" where
  "frame_verdict e req p q ms keys base applied s =
     (let addr = client_ip (rq_conn req);
          lookup = level_lookup_of keys (levels_map applied);
          (d0, rows) = JudgeFrame p lookup;
          scored = scored_of (as_percent q) d0;
          d = scale_would (as_percent q) d0;
          r0 = verdict_reply req d scored;
          r1 = (if dc_verdict d = VerdictAllow \<and> dc_code d = [] then r0\<lparr>rp_reason := Some (Reason CodeMeasured)\<rparr> else r0);
          f = Fire (fph_outcomes (pf_frame p)) (effective d scored) addr (Some lookup);
          reply = with_actions (fi_actions f) r1;
          det0 = (put True ''judge'' (EJudge rows) base)\<lparr>det_findings := judgeFindings rows\<rparr>;
          det = (verdict_details p q d scored f det0)\<lparr>det_ms := ms\<rparr>
      in after_bans e req s (fi_bans f) reply det)"

text \<open>The objects that a frame needs: the headers of the handshake and the body of the frame.\<close>

definition frame_locs :: "request \<Rightarrow> bool \<Rightarrow> bool \<Rightarrow> locator option list" where
  "frame_locs req wantHeaders wantBody =
     (if wantHeaders then [st_headers (rq_request_store req)] else []) @
     (if wantBody then [st_body (rq_store req)] else [])"

definition frame_charge ::
    "'s env \<Rightarrow> request \<Rightarrow> profile \<Rightarrow> counters \<Rightarrow> tiers \<Rightarrow> asks \<Rightarrow> int \<Rightarrow> f64 \<Rightarrow> header list
     \<Rightarrow> mvalue list \<Rightarrow> measure_fired list \<Rightarrow> 's \<Rightarrow> 's turn" where
  "frame_charge e req p c ts q now ms hs values measured s =
     (let refs = frame_refs p c q;
          keys = subjectsOf (resolve_of e) (en_hash e) refs c (client_ip (rq_conn req)) hs (rq_sessions req) (rq_conn_id req);
          (note_chs, noted) = noteCharges (as_notes q) keys ts;
          reads = reads_of keys (fph_judge (pf_frame p)) (fph_outcomes (pf_frame p))
      in case en_apply e s ts (value_charges keys values @ note_chs) reads now of
           (s1, Inl x) \<Rightarrow> Done (failure s1 req p CodeBucketsUnavailable ''buckets'' (err_what x))
         | (s1, Inr applied) \<Rightarrow>
             (let base = frame_base p req q measured applied noted in
              if as_skip q then
                Done (answer s1 (plain req VerdictAllow CodeSkipped) ((put True ''skip'' (EBool True) base)\<lparr>det_ms := ms\<rparr>) [])
              else frame_verdict e req p q ms keys base applied s1))"

definition h_frame ::
    "'s env \<Rightarrow> request \<Rightarrow> profile \<Rightarrow> counters \<Rightarrow> tiers \<Rightarrow> asks \<Rightarrow> int \<Rightarrow> f64 \<Rightarrow> 's \<Rightarrow> 's turn" where
  "h_frame e req p c ts q now ms s =
     (let refs = frame_refs p c q; rules = fph_measure (pf_frame p);
          wantBody = needsBody rules; wantHeaders = hasConfigurable refs c;
          locs = frame_locs req wantHeaders wantBody
      in if no_geo e refs then Done (failure s req p CodeGeoUnavailable ''geo'' ''unconfigured'')
         else case (if locs = [] then Some [] else LoadMany (en_crypto e) (en_loader e) locs) of
           None \<Rightarrow> Panics s []
         | Some got \<Rightarrow>
             (case find Failed got of
                Some b \<Rightarrow> Done (failure s req p CodeStoreUnavailable ''store'' (bd_unavailable b))
              | None \<Rightarrow>
                  (let hs = (if wantHeaders then headers e (got ! 0) else []);
                       b = (if wantBody then got ! (if wantHeaders then 1 else 0) else empty_body)
                   in case Measure.Run (en_hits e) rules c (frame_input req wantBody b) of
                        None \<Rightarrow> Panics s []
                      | Some (values, measured) \<Rightarrow> frame_charge e req p c ts q now ms hs values measured s)))"

section \<open>Inspection, evaluation and reception\<close>

fun set_cache :: "'s turn \<Rightarrow> 's turn" where
  "set_cache (Done a) = Done (a\<lparr>an_reply := (an_reply a)\<lparr>rp_cache := Some False\<rparr>\<rparr>)"
| "set_cache (Panics s adds) = Panics s adds"

definition inspect ::
    "'s env \<Rightarrow> snapshot option \<Rightarrow> request \<Rightarrow> int \<Rightarrow> int \<Rightarrow> f64 \<Rightarrow> 's \<Rightarrow> 's turn" where
  "inspect e so req fill now ms s =
     (case so of
        None \<Rightarrow> Done (answer s (ErrorReply req CodeUnknownProfile) no_details [])
      | Some sn \<Rightarrow>
          (case snap_profile so (rt_profile (rq_route req)) of
             None \<Rightarrow> Done (answer s (ErrorReply req CodeUnknownProfile) no_details [])
           | Some p \<Rightarrow>
               if pf_mode p = ModeOff then Done (answer s (plain req VerdictAllow CodeProfileOff) no_details [])
               else if \<not> phaseEnabled p (rq_phase req) then
                 Done (answer s (plain req VerdictAllow CodePhaseDisabled) no_details [])
               else let q = EvaluatePrior (rq_prior req) (Some p) (sn_counters sn) (rq_phase req) in
                 if rq_phase req = PhaseResponse then h_measure e req p (sn_counters sn) (sn_tiers sn) q now ms s
                 else if rq_phase req = PhaseFrame then
                   set_cache (h_frame e req p (sn_counters sn) (sn_tiers sn) q now ms s)
                 else h_judge e req p (sn_counters sn) (sn_tiers sn) q fill now ms s))"

text \<open>
  What the handler does for a reply: it publishes the reply and calls \<open>Add\<close> of the audit's sink, which
  itself drops a call without a request, without an audit subject or with an event that does not
  encode (\<open>Auditing.Add\<close>).
\<close>

datatype effect = Respond string string | Audited "request option" reply details

definition send :: "'s env \<Rightarrow> string \<Rightarrow> reply \<Rightarrow> request option \<Rightarrow> details \<Rightarrow> effect list" where
  "send e subject reply req det =
     (if subject = [] then []
      else case Marshal (en_encode e) reply of
             Inr payload \<Rightarrow> [Respond subject payload, Audited req reply det]
           | Inl _ \<Rightarrow>
               (case Marshal (en_encode e) (FallbackReply (rp_rid reply) (rp_inspector reply) CodeInternalError) of
                  Inr payload \<Rightarrow> [Respond subject payload, Audited req reply det]
                | Inl _ \<Rightarrow> []))"

definition recoverInto :: "'s env \<Rightarrow> string \<Rightarrow> string \<Rightarrow> effect list" where
  "recoverInto e subject rid =
     (if subject = [] then [] else send e subject (FallbackReply rid (en_name e) CodeInternalError) None no_details)"

text \<open>\<open>overloadOnShed\<close>: the outcomes of an overloaded queue for a request that is shed.\<close>

definition overload_fired :: "'s env \<Rightarrow> snapshot option \<Rightarrow> task \<Rightarrow> string \<Rightarrow> fired" where
  "overload_fired e so t shed =
     (let req = tk_req t in
      if shed \<noteq> ReasonQueueLimit \<or> rq_phase req \<noteq> PhaseRequest then no_fired
      else case snap_profile so (rt_profile (rq_route req)) of
             None \<Rightarrow> no_fired
           | Some p \<Rightarrow> if pf_mode p = ModeOff then no_fired
                else FireOverload (rph_outcomes (pf_request p)) (tk_fill t) True (client_ip (rq_conn req)) shed)"

definition overloadOnShed ::
    "'s env \<Rightarrow> snapshot option \<Rightarrow> task \<Rightarrow> string \<Rightarrow> reply \<Rightarrow> details \<Rightarrow> (reply \<times> details) option \<times> list_add list" where
  "overloadOnShed e so t shed reply det =
     (let f = overload_fired e so t shed;
          det = put (fi_names f \<noteq> []) ''outcomes'' (ENames (fi_names f)) det;
          (adds, ended) = publish_bans e (fi_bans f)
      in (case ended of
            None \<Rightarrow> None
          | Some failed \<Rightarrow> Some (with_actions (fi_actions f) reply,
              case failed of None \<Rightarrow> det | Some x \<Rightarrow> put True ''geo'' (EStr (err_what x)) det), adds))"

definition budget_ms :: "int \<Rightarrow> f64" where
  "budget_ms budget = fdiv (f64_of_int (budget sdiv 1000)) (Fin 1000)"

definition evaluate ::
    "'s env \<Rightarrow> snapshot option \<Rightarrow> task \<Rightarrow> int \<Rightarrow> string \<Rightarrow> int \<Rightarrow> f64 \<Rightarrow> 's \<Rightarrow> 's \<times> effect list \<times> list_add list" where
  "evaluate e so t budget shed now ms s =
     (if shed \<noteq> [] then
        (case overloadOnShed e so t shed (ShedReply (tk_req t) shed)
                (engine [(''shed'', EStr shed), (''budget_ms'', ENum (budget_ms budget))]) of
           (None, adds) \<Rightarrow> (s, recoverInto e (tk_reply t) (rq_rid (tk_req t)), adds)
         | (Some (reply, det), adds) \<Rightarrow> (s, send e (tk_reply t) reply (Some (tk_req t)) det, adds))
      else case inspect e so (tk_req t) (tk_fill t) now ms s of
             Panics s1 adds \<Rightarrow> (s1, recoverInto e (tk_reply t) (rq_rid (tk_req t)), adds)
           | Done a \<Rightarrow> (an_state a, send e (tk_reply t) (an_reply a) (Some (tk_req t)) (an_details a), an_lists a))"

datatype received = Sent "effect list" | Dropped | Submitted task

definition receive :: "'s env \<Rightarrow> string \<Rightarrow> string \<Rightarrow> received" where
  "receive e payload subject =
     (case Parse (en_unmarshal e) payload of
        Inl pe \<Rightarrow> Sent (send e subject (FallbackReply (pe_rid pe) (en_name e) CodeMalformedRequest) None no_details)
      | Inr req \<Rightarrow>
          if \<not> Supports e (rq_v req) then
            Sent (send e subject ((ErrorReply req CodeUnsupportedVersion)\<lparr>rp_v := Version\<rparr>) (Some req) no_details)
          else if rq_release req \<noteq> None then Dropped
          else if rq_phase req \<noteq> PhaseRequest \<and> rq_phase req \<noteq> PhaseResponse \<and> rq_phase req \<noteq> PhaseFrame then
            Sent (send e subject (ErrorReply req CodePhaseNotSupported) (Some req) no_details)
          else Submitted \<lparr>tk_req = req, tk_reply = subject, tk_personal = False, tk_fill = 0, tk_enqueued = 0\<rparr>)"

end
