(* ===== verification/Handler_Laws.thy ===== *)
theory Handler_Laws
  imports Handler Decide_Laws Prior_Laws Bucket_Contract
begin

text \<open>
  What the handler promises: every message that asks for a verdict gets one reply, addressed to
  it and well formed; the modes and phases that must not judge answer with an allow or a fault; the
  buckets are touched only where a phase is on; and with a validated configuration only the address
  coder, an ill-formed nonce or a store that answers short can make it panic.
\<close>

section \<open>Replies\<close>

definition reply_ok :: "request \<Rightarrow> reply \<Rightarrow> bool" where
  "reply_ok req r \<longleftrightarrow>
     rp_v r = rq_v req \<and> rp_rid r = rq_rid req \<and> rp_inspector r = rq_inspector req \<and>
     rp_verdict r \<in> {VerdictAllow, VerdictScore, VerdictDeny, VerdictError} \<and>
     (rp_verdict r = VerdictScore \<longleftrightarrow> rp_score r \<noteq> None) \<and>
     (\<forall>n. rp_score r = Some n \<longrightarrow> 0 \<le> n \<and> n \<le> 100) \<and>
     (rp_verdict r = VerdictDeny \<longleftrightarrow> rp_response r \<noteq> None) \<and>
     (\<forall>name. rp_response r = Some name \<longrightarrow> name \<noteq> []) \<and>
     (rp_verdict r \<noteq> VerdictAllow \<longrightarrow> rp_reason r \<noteq> None)"

lemma ErrorReply_ok: "reply_ok req (ErrorReply req code)"
  by (simp add: reply_ok_def reply_defs)

lemma ShedReply_ok: "reply_ok req (ShedReply req code)"
  by (simp add: reply_ok_def reply_defs)

lemma plain_ok: "reply_ok req (plain req VerdictAllow code)"
  by (simp add: reply_ok_def plain_def reply_defs)

lemma with_actions_fields [simp]:
  "rp_v (with_actions acts r) = rp_v r" "rp_rid (with_actions acts r) = rp_rid r"
  "rp_inspector (with_actions acts r) = rp_inspector r" "rp_verdict (with_actions acts r) = rp_verdict r"
  "rp_score (with_actions acts r) = rp_score r" "rp_response (with_actions acts r) = rp_response r"
  "rp_reason (with_actions acts r) = rp_reason r"
  by (simp_all add: with_actions_def)

lemma with_actions_ok: "reply_ok req r \<Longrightarrow> reply_ok req (with_actions acts r)"
  unfolding reply_ok_def with_actions_fields .

text \<open>The shape of a decision that was judged under a response for denials.\<close>

definition decision_ok :: "string \<Rightarrow> decision \<Rightarrow> bool" where
  "decision_ok dr d \<longleftrightarrow>
     dc_verdict d \<in> {VerdictAllow, VerdictScore, VerdictDeny} \<and>
     (dc_verdict d = VerdictDeny \<longrightarrow> dc_deny_response d = dr) \<and>
     (dc_verdict d \<noteq> VerdictAllow \<longrightarrow> dc_code d \<noteq> [])"

lemma codeOf_nonempty [simp]: "codeOf r \<noteq> []"
  by (simp add: codeOf_def)

lemma take_rule_shape: "decision_ok dr d \<Longrightarrow> decision_ok dr (take_rule dr d r)"
  by (auto simp: decision_ok_def take_rule_def)

lemma allowed_shape: "decision_ok dr allowed"
  by (simp add: decision_ok_def allowed_def)

lemma take_rules_shape: "decision_ok dr d \<Longrightarrow> decision_ok dr (foldl (take_rule dr) d F)"
  by (induction F arbitrary: d) (simp_all add: take_rule_shape)

lemma judge_shape:
  "decision_ok dr (fst (judge rules dr mode lookup)) \<and>
   (mode = ModeObserve \<longrightarrow> dc_verdict (fst (judge rules dr mode lookup)) = VerdictAllow)"
proof (cases "mode = ModeObserve")
  case True
  then show ?thesis
    using take_rules_shape [OF allowed_shape, of dr "filter (fires lookup) rules"]
      judge_enforced [of ModeEnforce rules dr lookup, simplified]
    by (simp add: judge_observed observe_def) (auto simp: decision_ok_def)
next
  case False
  then show ?thesis using take_rules_shape [OF allowed_shape] by (simp add: judge_enforced)
qed

lemma scale_would_fields [simp]:
  "dc_verdict (scale_would q d) = dc_verdict d" "dc_deny_response (scale_would q d) = dc_deny_response d"
  "dc_code (scale_would q d) = dc_code d" "dc_score (scale_would q d) = dc_score d"
  by (simp_all add: scale_would_def)

lemma verdict_reply_ok:
  assumes "decision_ok dr d" and "dr \<noteq> []"
  shows "reply_ok req (verdict_reply req d n) \<and>
    (rp_verdict (verdict_reply req d n) = dc_verdict d \<or> rp_verdict (verdict_reply req d n) = VerdictError \<and> dc_verdict d = VerdictScore)"
proof -
  consider "dc_verdict d = VerdictAllow" | "dc_verdict d = VerdictScore" | "dc_verdict d = VerdictDeny"
    using assms(1) unfolding decision_ok_def by auto
  then show ?thesis
  proof cases
    case 1
    then show ?thesis by (simp add: verdict_reply_def reply_ok_def reply_defs Let_def)
  next
    case 2
    then have "dc_code d \<noteq> []" using assms(1) by (simp add: decision_ok_def)
    with 2 show ?thesis
      by (simp add: verdict_reply_def reply_ok_def reply_defs WithScore_def Let_def)
  next
    case 3
    then have "dc_code d \<noteq> []" "dc_deny_response d \<noteq> []" using assms by (auto simp: decision_ok_def)
    with 3 show ?thesis by (simp add: verdict_reply_def reply_ok_def reply_defs Let_def)
  qed
qed

lemma denyResponseOf_nonempty [simp]: "denyResponseOf p \<noteq> []" "frameDenyResponseOf p \<noteq> []"
  by (simp_all add: denyResponseOf_def frameDenyResponseOf_def)

section \<open>Answers of the phases\<close>

lemma answer_fields [simp]:
  "an_state (answer s r d ls) = s" "an_reply (answer s r d ls) = r" "an_details (answer s r d ls) = d"
  "an_lists (answer s r d ls) = ls"
  by (simp_all add: answer_def)

text \<open>
  A reply that neither denies nor scores: an allow, or an error that names a part that did not work.
  What becomes of a request whose inspector answered with an error is configured at its route.
\<close>

definition fault_codes :: "string set" where
  "fault_codes = {CodeUnknownProfile, CodeStoreUnavailable, CodeGeoUnavailable, CodeBucketsUnavailable}"

definition allow_or_fault :: "reply \<Rightarrow> bool" where
  "allow_or_fault r \<longleftrightarrow>
     rp_verdict r = VerdictAllow \<or> rp_verdict r = VerdictError \<and> (\<exists>c \<in> fault_codes. rp_reason r = Some (Reason c))"

lemma allow_or_fault_simps [simp]:
  "code \<in> fault_codes \<Longrightarrow> allow_or_fault (ErrorReply req code)" "allow_or_fault (plain req VerdictAllow code')"
  "allow_or_fault (with_actions acts r) = allow_or_fault r"
  by (simp_all add: allow_or_fault_def plain_def reply_defs)

lemma fault_codes_simps [simp]:
  "CodeUnknownProfile \<in> fault_codes" "CodeStoreUnavailable \<in> fault_codes" "CodeGeoUnavailable \<in> fault_codes"
  "CodeBucketsUnavailable \<in> fault_codes"
  by (simp_all add: fault_codes_def)

lemma failure_fields [simp]:
  "an_state (failure s req p code key why) = s" "an_reply (failure s req p code key why) = ErrorReply req code"
  "an_lists (failure s req p code key why) = []"
  by (simp_all add: failure_def)

definition reply_fits :: "request \<Rightarrow> bool \<Rightarrow> reply \<Rightarrow> bool" where
  "reply_fits req passive r \<longleftrightarrow> reply_ok req r \<and> (passive \<longrightarrow> allow_or_fault r)"

fun turn_ok :: "request \<Rightarrow> bool \<Rightarrow> 's turn \<Rightarrow> bool" where
  "turn_ok req passive (Done a) = reply_fits req passive (an_reply a)"
| "turn_ok req passive (Panics s adds) = True"

lemma failure_ok [simp]: "code \<in> fault_codes \<Longrightarrow> reply_fits req passive (ErrorReply req code)"
  by (simp add: reply_fits_def ErrorReply_ok)

lemma plain_fits [simp]: "reply_fits req passive (plain req VerdictAllow code)"
  by (simp add: reply_fits_def plain_ok)

lemma after_bans_ok: "reply_fits req passive r \<Longrightarrow> turn_ok req passive (after_bans e req s bans r det)"
  by (simp add: after_bans_def split: prod.split option.split)

lemma judged_reply_ok:
  assumes "decision_ok dr d" and "dr \<noteq> []" and "passive \<Longrightarrow> dc_verdict d = VerdictAllow"
  shows "reply_fits req passive (with_actions acts (verdict_reply req (scale_would n d) k))"
proof -
  have "decision_ok dr (scale_would n d)" using assms(1) by (simp add: decision_ok_def)
  from verdict_reply_ok [OF this assms(2), of req k] assms(3) show ?thesis
    by (auto simp: reply_fits_def with_actions_ok allow_or_fault_def)
qed

lemma judge_verdict_ok: "turn_ok req (pf_mode p = ModeObserve) (judge_verdict e req p q fill ms keys noted applied s)"
proof -
  let ?l = "level_lookup_of keys (levels_map applied)"
  obtain d rows where d: "Judge p ?l = (d, rows)" by force
  have "decision_ok (denyResponseOf p) d" "pf_mode p = ModeObserve \<Longrightarrow> dc_verdict d = VerdictAllow"
    using judge_shape [of "denyResponseOf p" "rph_judge (pf_request p)" "pf_mode p" ?l] d by (simp_all add: Judge_def)
  note ok = judged_reply_ok [OF this(1) denyResponseOf_nonempty(1) this(2)]
  show ?thesis
    unfolding judge_verdict_def Let_def d prod.case by (rule after_bans_ok, rule ok)
qed

lemma h_judge_ok: "turn_ok req (pf_mode p = ModeObserve) (h_judge e req p c ts q fill now ms s)"
  unfolding h_judge_def Let_def
  by (auto simp: judge_verdict_ok split: sum.split prod.split option.split)

lemma frame_reason_ok:
  "reply_fits req passive (with_actions acts r) \<Longrightarrow> rp_verdict r = VerdictAllow \<Longrightarrow>
   reply_fits req passive (with_actions acts (r\<lparr>rp_reason := Some x\<rparr>))"
  by (simp add: reply_fits_def reply_ok_def allow_or_fault_def)

lemma frame_verdict_ok: "turn_ok req (pf_mode p = ModeObserve) (frame_verdict e req p q ms keys base applied s)"
proof -
  let ?l = "level_lookup_of keys (levels_map applied)"
  obtain d rows where d: "JudgeFrame p ?l = (d, rows)" by force
  have sh: "decision_ok (frameDenyResponseOf p) d" "pf_mode p = ModeObserve \<Longrightarrow> dc_verdict d = VerdictAllow"
    using judge_shape [of "frameDenyResponseOf p" "fph_judge (pf_frame p)" "pf_mode p" ?l] d
    by (simp_all add: JudgeFrame_def)
  note ok = judged_reply_ok [OF sh(1) denyResponseOf_nonempty(2) sh(2)]
  have "dc_verdict d = VerdictAllow \<Longrightarrow> rp_verdict (verdict_reply req (scale_would n d) k) = VerdictAllow" for n k
    by (simp add: verdict_reply_def reply_defs Let_def)
  then show ?thesis
    unfolding frame_verdict_def Let_def d prod.case
    by (intro after_bans_ok) (simp add: ok frame_reason_ok)
qed

lemma frame_charge_ok:
  "turn_ok req (pf_mode p = ModeObserve) (frame_charge e req p c ts q now ms hs vs measured s)"
  unfolding frame_charge_def Let_def by (auto simp: frame_verdict_ok split: sum.split prod.split)

lemma h_frame_ok: "turn_ok req (pf_mode p = ModeObserve) (h_frame e req p c ts q now ms s)"
proof (cases "no_geo e (frame_refs p c q)")
  case True
  then show ?thesis by (simp add: h_frame_def Let_def)
next
  case False
  then show ?thesis
    unfolding h_frame_def Let_def if_not_P [OF False]
    by (simp add: frame_charge_ok split: option.split prod.split split del: if_split)
qed

lemma measure_charge_ok: "reply_fits req True (an_reply (measure_charge e req p c ts q now ms got vs rows s))"
  unfolding measure_charge_def Let_def by (auto split: sum.split prod.split)

lemma h_measure_ok: "turn_ok req True (h_measure e req p c ts q now ms s)"
proof -
  have "reply_fits req True ((plain req VerdictAllow CodeMeasured)\<lparr>rp_reason := None\<rparr>)"
    by (simp add: reply_fits_def reply_ok_def allow_or_fault_def plain_def reply_defs)
  then show ?thesis
    unfolding h_measure_def Let_def by (auto simp: measure_charge_ok split: option.split)
qed

text \<open>Whether a message is handled without the power to stop it.\<close>

definition passive_phase :: "snapshot option \<Rightarrow> request \<Rightarrow> bool" where
  "passive_phase so req \<longleftrightarrow> rq_phase req = PhaseResponse \<or>
     (\<forall>p. snap_profile so (rt_profile (rq_route req)) = Some p \<longrightarrow> pf_mode p = ModeObserve \<or> pf_mode p = ModeOff)"

lemma set_cache_ok [simp]: "turn_ok req passive (set_cache a) = turn_ok req passive a"
  by (cases a) (simp_all add: reply_fits_def reply_ok_def allow_or_fault_def)

lemma turn_ok_weaken: "turn_ok req passive a \<Longrightarrow> (passive' \<Longrightarrow> passive) \<Longrightarrow> turn_ok req passive' a"
  by (cases a) (auto simp: reply_fits_def)

text \<open>An inspection ends before its phase, or it is one of the three phases.\<close>

lemma inspect_cases:
  obtains (none) "snap_profile so (rt_profile (rq_route req)) = None"
      "inspect e so req fill now ms s = Done (answer s (ErrorReply req CodeUnknownProfile) no_details [])"
  | (closed) p code where "snap_profile so (rt_profile (rq_route req)) = Some p"
      "pf_mode p = ModeOff \<or> \<not> phaseEnabled p (rq_phase req)"
      "inspect e so req fill now ms s = Done (answer s (plain req VerdictAllow code) no_details [])"
  | (phase) sn p q where "so = Some sn" "snap_profile so (rt_profile (rq_route req)) = Some p" "pf_mode p \<noteq> ModeOff"
      "phaseEnabled p (rq_phase req)" "q = EvaluatePrior (rq_prior req) (Some p) (sn_counters sn) (rq_phase req)"
      "inspect e so req fill now ms s =
         (if rq_phase req = PhaseResponse then h_measure e req p (sn_counters sn) (sn_tiers sn) q now ms s
          else if rq_phase req = PhaseFrame then set_cache (h_frame e req p (sn_counters sn) (sn_tiers sn) q now ms s)
          else h_judge e req p (sn_counters sn) (sn_tiers sn) q fill now ms s)"
proof (cases "snap_profile so (rt_profile (rq_route req))")
  case None
  with none show thesis by (cases so) (simp_all add: inspect_def)
next
  case (Some p)
  then obtain sn where so: "so = Some sn" by (cases so) (simp_all add: snap_profile_def)
  show thesis
  proof (cases "pf_mode p = ModeOff \<or> \<not> phaseEnabled p (rq_phase req)")
    case True
    with Some so closed [OF Some True] show thesis by (cases "pf_mode p = ModeOff") (simp_all add: inspect_def)
  next
    case False
    with Some so phase [OF so Some] show thesis by (simp add: inspect_def Let_def)
  qed
qed

lemma inspect_ok: "turn_ok req (passive_phase so req) (inspect e so req fill now ms s)"
proof (cases rule: inspect_cases [of so req e fill now ms s])
  case (phase sn p q)
  have w: "passive_phase so req \<Longrightarrow> rq_phase req \<noteq> PhaseResponse \<Longrightarrow> pf_mode p = ModeObserve"
    using phase(2,3) by (auto simp: passive_phase_def)
  show ?thesis
    unfolding phase(6)
    by (auto intro: turn_ok_weaken [OF h_measure_ok] turn_ok_weaken [OF h_frame_ok w] turn_ok_weaken [OF h_judge_ok w])
qed simp_all

lemma inspect_Done: "inspect e so req fill now ms s = Done a \<Longrightarrow> reply_fits req (passive_phase so req) (an_reply a)"
  using inspect_ok [of req so e fill now ms s] by simp

lemma inspect_reply: "inspect e so req fill now ms s = Done a \<Longrightarrow> reply_ok req (an_reply a)"
  using inspect_Done [of e so req fill now ms s a] by (simp add: reply_fits_def)

section \<open>Sending\<close>

definition responses :: "effect list \<Rightarrow> (string \<times> string) list" where
  "responses effs = List.map_filter (\<lambda>f. case f of Respond u b \<Rightarrow> Some (u, b) | _ \<Rightarrow> None) effs"

lemma responses_pair [simp]: "responses [Respond u b, Audited ro r det] = [(u, b)]"
  by (simp add: responses_def List.map_filter_simps)

lemma Marshal_ok: "(\<forall>n. rp_score r = Some n \<longrightarrow> 0 \<le> n \<and> n \<le> 100) \<Longrightarrow> Marshal encode r = Inr (encode r)"
  by (auto simp: Marshal_def split: option.split)

lemma send_ok:
  "subject \<noteq> [] \<Longrightarrow> (\<forall>n. rp_score r = Some n \<longrightarrow> 0 \<le> n \<and> n \<le> 100) \<Longrightarrow>
   send e subject r ro det = [Respond subject (en_encode e r), Audited ro r det]"
  by (simp add: send_def Marshal_ok)

lemma reply_ok_score: "reply_ok req r \<Longrightarrow> \<forall>n. rp_score r = Some n \<longrightarrow> 0 \<le> n \<and> n \<le> 100"
  by (simp add: reply_ok_def)

lemma reply_ok_rid: "reply_ok req r \<Longrightarrow> rp_rid r = rq_rid req"
  by (simp add: reply_ok_def)

lemma recover_ok:
  "subject \<noteq> [] \<Longrightarrow> recoverInto e subject rid =
   [Respond subject (en_encode e (FallbackReply rid (en_name e) CodeInternalError)),
    Audited None (FallbackReply rid (en_name e) CodeInternalError) no_details]"
  by (simp add: recoverInto_def send_ok reply_defs)

text \<open>The reply that an evaluation sends.\<close>

lemma overload_reply_ok:
  "overloadOnShed e so t shed r det = (Some (r', det'), adds) \<Longrightarrow> reply_ok req r \<Longrightarrow> reply_ok req r' \<and> rp_verdict r' = rp_verdict r"
  by (auto simp: overloadOnShed_def Let_def with_actions_ok split: prod.splits option.splits)

section \<open>List writes\<close>

text \<open>A ban that gets to the coder and makes it panic.\<close>

definition ban_panics :: "'s env \<Rightarrow> ban \<Rightarrow> bool" where
  "ban_panics e b \<longleftrightarrow> write_ban e b = None"

lemma write_bans_exact:
  defines "run \<equiv> \<lambda>e bs. takeWhile (\<lambda>b. \<not> ban_panics e b) bs"
  shows "write_bans e failed bans =
     (List.map_filter (\<lambda>b. case write_ban e b of
          Some (Inr vals) \<Rightarrow> if vals = [] then None else Some (ban_add b vals) | _ \<Rightarrow> None) (run e bans),
      if list_ex (ban_panics e) bans then None
      else Some (if failed = None
        then find (\<lambda>_. True) (List.map_filter (\<lambda>b. case write_ban e b of Some (Inl x) \<Rightarrow> Some x | _ \<Rightarrow> None) bans)
        else failed))"
  unfolding run_def
proof (induction e failed bans rule: write_bans.induct)
  case (1 e failed)
  then show ?case by (simp add: List.map_filter_simps)
next
  case (2 e failed b bans)
  show ?case
  proof (cases "write_ban e b")
    case None
    then show ?thesis by (simp add: ban_panics_def List.map_filter_simps)
  next
    case (Some r)
    show ?thesis
    proof (cases r)
      case (Inl x)
      show ?thesis using 2(1) [OF Some Inl] Some Inl by (simp add: ban_panics_def List.map_filter_simps)
    next
      case (Inr vals)
      show ?thesis
      proof (cases "vals = []")
        case True
        show ?thesis using 2(2) [OF Some Inr True] Some Inr True by (simp add: ban_panics_def List.map_filter_simps)
      next
        case False
        show ?thesis using 2(3) [OF Some Inr False] Some Inr False by (simp add: ban_panics_def List.map_filter_simps)
      qed
    qed
  qed
qed

section \<open>Panics\<close>

text \<open>The address coder panics on some address of a networked write.\<close>

definition coder_panics :: "'s env \<Rightarrow> bool" where
  "coder_panics e \<longleftrightarrow> (\<exists>w a. en_networked e w \<and> en_geo e w a = None)"

text \<open>Everything else on which an inspection can panic, with a validated configuration.\<close>

definition loader_panics :: "'s env \<Rightarrow> bool" where
  "loader_panics e \<longleftrightarrow> (\<exists>c. bad_nonce (en_loader e) c) \<or> short_store (en_loader e)"

lemma ban_panics_coder: "ban_panics e b \<Longrightarrow> coder_panics e"
  by (auto simp: ban_panics_def coder_panics_def write_ban_def split: if_splits)

lemma publish_panics: "publish_bans e bans = (adds, None) \<Longrightarrow> coder_panics e"
  by (auto simp: publish_bans_def writeLists_def write_bans_exact list_ex_iff intro: ban_panics_coder split: if_splits)

lemma after_bans_panics: "after_bans e req s bans r det = Panics s' adds \<Longrightarrow> coder_panics e"
  by (auto simp: after_bans_def split: prod.splits option.splits intro: publish_panics)

lemma load_loader_panics:
  "Load cr (en_loader e) lo = None \<Longrightarrow> loader_panics e" "LoadMany cr (en_loader e) los = None \<Longrightarrow> loader_panics e"
  using Load_panics [of cr "en_loader e"] LoadMany_panics [of cr "en_loader e"] by (auto simp: loader_panics_def)

lemma judge_panics:
  "h_judge e req p c ts q fill now ms s = Panics s' adds \<Longrightarrow> coder_panics e \<or> loader_panics e"
  unfolding h_judge_def headersFor_def Let_def judge_verdict_def
  by (auto split: if_splits sum.splits prod.splits option.splits dest: after_bans_panics load_loader_panics)

lemma frame_charge_panics:
  "frame_charge e req p c ts q now ms hs vs measured s = Panics s' adds \<Longrightarrow> coder_panics e"
  unfolding frame_charge_def frame_verdict_def Let_def
  by (auto split: if_splits sum.splits prod.splits dest: after_bans_panics)

lemma phases_run:
  assumes "Validate compiles p = Inr p" and "pf_mode p \<noteq> ModeOff"
  shows "h_measure e req p c ts q now ms s = Panics s' adds \<Longrightarrow> loader_panics e"
    and "h_frame e req p c ts q now ms s = Panics s' adds \<Longrightarrow> coder_panics e \<or> loader_panics e"
proof -
  have r: "Measure.Run (en_hits e) (sph_measure (pf_response p)) c i \<noteq> None"
    and f: "Measure.Run (en_hits e) (fph_measure (pf_frame p)) c i \<noteq> None" for i
    using validated_runs [OF assms] by blast+
  show "h_measure e req p c ts q now ms s = Panics s' adds \<Longrightarrow> loader_panics e"
    unfolding h_measure_def Let_def
    by (auto simp: r split: option.splits prod.splits if_splits dest: load_loader_panics)
  show "h_frame e req p c ts q now ms s = Panics s' adds \<Longrightarrow> coder_panics e \<or> loader_panics e"
    unfolding h_frame_def Let_def
    by (auto simp: f split: option.splits prod.splits if_splits dest: load_loader_panics frame_charge_panics)
qed

lemma set_cache_panics [simp]: "set_cache a = Panics s adds \<longleftrightarrow> a = Panics s adds"
  by (cases a) simp_all

lemma inspect_panics:
  assumes "store_reach ps st" and "inspect e (st_cur st) req fill now ms s = Panics s' adds"
  shows "coder_panics e \<or> loader_panics e"
proof -
  obtain sn where sn: "st_cur st = Some sn" and ok: "snap_ok ps sn" using store_reach_ok [OF assms(1)] by blast
  show ?thesis
  proof (cases rule: inspect_cases [of "st_cur st" req e fill now ms s])
    case (phase sn' p q)
    then have v: "Validate (ps_compiles ps) p = Inr p"
      using ok sn by (auto simp: snap_ok_def served_ok_def snap_profile_def split: if_splits)
    from assms(2) phases_run [OF v phase(3)] judge_panics show ?thesis
      unfolding phase(6) by (fastforce split: if_splits)
  qed (use assms(2) in simp_all)
qed

section \<open>What a request sees of the buckets\<close>

context bucket_store
begin

lemma levels_map_percent:
  "list_all (\<lambda>l. percent_ok (lv_percent l)) ls \<Longrightarrow> levels_map ls r = Some v \<Longrightarrow> percent_ok v"
  unfolding levels_map_def by (induction ls arbitrary: v rule: rev_induct) (auto split: if_splits)

lemma lookup_percent:
  "list_all (\<lambda>l. percent_ok (lv_percent l)) ls \<Longrightarrow>
   percent_ok (fst (level_lookup_of keys (levels_map ls) counter axis))"
  using levels_map_percent by (fastforce simp: level_lookup_of_def split: option.split)

lemma rows_percent:
  assumes "list_all (\<lambda>l. percent_ok (lv_percent l)) ls"
  shows "\<forall>row \<in> set (snd (judge rules dr mode (level_lookup_of keys (levels_map ls)))). percent_ok (ra_percent row)"
proof -
  let ?l = "level_lookup_of keys (levels_map ls)"
  have step: "percent_ok (ra_percent (snd (judge_rule_step ?l dr r d)))" for r d
    using lookup_percent [OF assms, of keys "jr_counter r" "jr_axis r"]
    by (auto simp: judge_rule_step_def judge_row_def Let_def split: prod.splits)
  have "\<forall>row \<in> set (snd (judge_loop ?l dr rs d)). percent_ok (ra_percent row)" for rs d
  proof (induction rs arbitrary: d)
    case Nil
    then show ?case by simp
  next
    case (Cons r rs)
    then show ?case using step [of r d] by (auto simp: Let_def split_beta)
  qed
  then show ?thesis by (auto simp: judge_def split: prod.splits) (metis snd_conv)
qed

end

text \<open>The charges of notes are finite numbers.\<close>

lemma f64_of_share: "\<bar>x\<bar> \<le> 2 ^ k \<Longrightarrow> k < 1024 \<Longrightarrow> \<exists>y. f64_of x = Fin y \<and> \<bar>y\<bar> \<le> 2 ^ k"
  using f64_of_bounded rnd64_abs_le by blast

lemma tier_max_Fin: "tiers_ok ts \<Longrightarrow> \<exists>m. t_max (tier_of ts k) = Fin m \<and> \<bar>m\<bar> \<le> 2 ^ 900"
proof -
  assume "tiers_ok ts"
  show ?thesis
  proof (cases "ts k")
    case None
    then show ?thesis by (simp add: tier_of_def)
  next
    case (Some t)
    then have "tier_ok t" using \<open>tiers_ok ts\<close> by (auto simp: tiers_ok_def ran_def)
    then obtain m l where "t_max t = Fin m" "0 < m" "m \<le> 2 ^ 900" by (elim tier_okE)
    with Some show ?thesis by (intro exI [of _ m]) (simp add: tier_of_def)
  qed
qed

lemma note_add_Fin:
  assumes "tiers_ok ts" and "in64 (nc_percent n)"
  shows "\<exists>x. note_add ts n = Fin x"
proof -
  have "\<bar>of_int (nc_percent n) :: rat\<bar> = of_int \<bar>nc_percent n\<bar>" by simp
  also have "\<dots> \<le> of_int (2 ^ 63)" using assms(2) unfolding in64_def of_int_le_iff by linarith
  finally obtain a where a: "f64_of_int (nc_percent n) = Fin a" "\<bar>a\<bar> \<le> 2 ^ 63"
    using f64_of_share [of "of_int (nc_percent n)" 63] by (auto simp: f64_of_int_def)
  from a(2) have "\<bar>a / 100\<bar> \<le> 2 ^ 63" by (simp add: abs_le_iff field_simps)
  then obtain b where b: "fdiv (Fin a) (Fin 100) = Fin b" "\<bar>b\<bar> \<le> 2 ^ 63"
    using f64_of_share [of "a / 100" 63] by auto
  obtain m where m: "t_max (tier_of ts (Kind (nc_counter n) (nc_axis n))) = Fin m" "\<bar>m\<bar> \<le> 2 ^ 900"
    using tier_max_Fin [OF assms(1)] by blast
  have "\<bar>b * m\<bar> \<le> 2 ^ 63 * 2 ^ 900" unfolding abs_mult by (intro mult_mono b(2) m(2)) simp_all
  then have "\<bar>b * m\<bar> \<le> 2 ^ 963" by (simp only: power_add [symmetric]) simp
  then obtain x where "f64_of (b * m) = Fin x" using f64_of_share [of "b * m" 963] by auto
  then show ?thesis unfolding note_add_def a(1) b(1) m(1) by simp
qed

lemma map_filter_set: "y \<in> set (List.map_filter f xs) \<longleftrightarrow> (\<exists>x \<in> set xs. f x = Some y)"
  by (induction xs) (auto simp: List.map_filter_simps split: option.splits)

lemma noteCharges_ok:
  assumes "tiers_ok ts" and "\<forall>n \<in> set ns. in64 (nc_percent n)"
  shows "charges_ok (fst (noteCharges ns keys ts))"
proof -
  have "case ch_add (fst y) of Fin _ \<Rightarrow> True | _ \<Rightarrow> False" if "y \<in> set (List.map_filter (note_one keys ts) ns)" for y
    using that note_add_Fin [OF assms(1)] assms(2) by (fastforce simp: map_filter_set note_one_def)
  then show ?thesis by (simp add: noteCharges_def Let_def charges_ok_def list_all_iff)
qed

lemma put_other: "k \<noteq> k' \<Longrightarrow> map_of (det_engine (put b k v d)) k' = map_of (det_engine d) k'"
  by (simp add: put_def AList.update_conv')

lemma verdict_details_judge:
  "map_of (det_engine (verdict_details p q d n f det)) ''judge'' = map_of (det_engine det) ''judge''"
  by (simp add: verdict_details_def Let_def put_other)

text \<open>The state after a turn, and the details that go with its reply; a panic has none.\<close>

fun turn_state :: "'s turn \<Rightarrow> 's" where
  "turn_state (Done a) = an_state a"
| "turn_state (Panics s adds) = s"

fun turn_details :: "'s turn \<Rightarrow> details" where
  "turn_details (Done a) = an_details a"
| "turn_details (Panics s adds) = no_details"

definition judge_rows :: "details \<Rightarrow> engine_val option" where
  "judge_rows det = map_of (det_engine det) ''judge''"

lemma judge_rows_simps [simp]:
  "judge_rows no_details = None" "k \<noteq> ''judge'' \<Longrightarrow> judge_rows (put b k v det) = judge_rows det"
  "judge_rows (verdict_details p q d n f det) = judge_rows det" "judge_rows (engine kvs) = map_of kvs ''judge''"
  "judge_rows (det\<lparr>det_ms := ms\<rparr>) = judge_rows det" "judge_rows (det\<lparr>det_findings := fs\<rparr>) = judge_rows det"
  "judge_rows (judge_base p req ms rows) = Some (EJudge rows)"
  by (simp_all add: judge_rows_def no_details_def put_other verdict_details_judge engine_def judge_base_def)

lemma after_bans_state [simp]: "turn_state (after_bans e req s bans r det) = s"
  by (simp add: after_bans_def split: prod.split option.split)

lemma after_bans_rows:
  "judge_rows (turn_details (after_bans e req s bans r det)) = Some x \<Longrightarrow> judge_rows det = Some x"
  by (auto simp: after_bans_def split: prod.splits option.splits)

lemma after_no_bans [simp]: "after_bans e req s [] r det = Done (answer s r det [])"
  by (simp add: after_bans_def publish_bans_def)

lemma judge_verdict_rows:
  assumes "judge_rows (turn_details (judge_verdict e req p q fill ms keys noted applied s)) = Some x"
  shows "x = EJudge (snd (Judge p (level_lookup_of keys (levels_map applied))))"
proof -
  obtain d rows where d: "Judge p (level_lookup_of keys (levels_map applied)) = (d, rows)" by force
  from assms show ?thesis
    unfolding judge_verdict_def Let_def d prod.case snd_conv by (auto dest!: after_bans_rows)
qed

lemma judge_verdict_state [simp]: "turn_state (judge_verdict e req p q fill ms keys noted applied s) = s"
  unfolding judge_verdict_def Let_def by (simp split: prod.split)

lemma failure_rows [simp]: "key \<noteq> ''judge'' \<Longrightarrow> judge_rows (an_details (failure s req p code key why)) = None"
  by (simp add: failure_def)

text \<open>How a request is judged when nothing stands in the way before the buckets.\<close>

definition judge_keys :: "'s env \<Rightarrow> request \<Rightarrow> subject_ref list \<Rightarrow> counters \<Rightarrow> header list \<Rightarrow> subject_keys" where
  "judge_keys e req refs c hs =
     subjectsOf (resolve_of e) (en_hash e) refs c (client_ip (rq_conn req)) hs (rq_sessions req) []"

lemma h_judge_shape:
  obtains (early) "turn_state (h_judge e req p c ts q fill now ms s) = s"
      "judge_rows (turn_details (h_judge e req p c ts q fill now ms s)) = None"
  | (applied) keys rs s1 r where "en_apply e s ts (fst (noteCharges (as_notes q) keys ts)) rs now = (s1, r)"
      "h_judge e req p c ts q fill now ms s =
         (case r of Inl x \<Rightarrow> Done (failure s1 req p CodeBucketsUnavailable ''buckets'' (err_what x))
          | Inr ls \<Rightarrow> judge_verdict e req p q fill ms keys (snd (noteCharges (as_notes q) keys ts)) ls s1)"
proof -
  let ?refs = "judge_refs (rph_judge (pf_request p)) @ outcome_refs (rph_outcomes (pf_request p)) @ note_refs (as_notes q)"
  show thesis
  proof (cases "as_skip q \<or> no_geo e ?refs \<or> (\<forall>hs. headersFor e req ?refs c \<noteq> Some (Inr hs))")
    case True
    then show thesis
      by (intro early) (auto simp: h_judge_def Let_def split: option.split sum.split)
  next
    case False
    then obtain hs where hs: "headersFor e req ?refs c = Some (Inr hs)" by blast
    let ?keys = "judge_keys e req ?refs c hs"
    let ?rs = "reads_of ?keys (rph_judge (pf_request p)) (rph_outcomes (pf_request p))"
    obtain chs noted where n: "noteCharges (as_notes q) ?keys ts = (chs, noted)" by force
    obtain s1 r where a: "en_apply e s ts chs ?rs now = (s1, r)" by force
    show thesis
      by (rule applied [of ?keys ?rs s1 r])
        (use False hs n a in \<open>simp_all add: h_judge_def Let_def judge_keys_def split: sum.split\<close>)
  qed
qed

context bucket_store
begin

lemma h_judge_percent:
  assumes "en_apply e = store_apply" and "sane s" and "tiers_ok ts" and "\<forall>n \<in> set (as_notes q). in64 (nc_percent n)"
  shows "sane (turn_state (h_judge e req p c ts q fill now ms s)) \<and>
    (\<forall>rows row. judge_rows (turn_details (h_judge e req p c ts q fill now ms s)) = Some (EJudge rows) \<longrightarrow>
       row \<in> set rows \<longrightarrow> percent_ok (ra_percent row))"
proof (cases rule: h_judge_shape [of e req p c ts q fill now ms s])
  case early
  with assms(2) show ?thesis by simp
next
  case (applied keys rs s1 r)
  have ch: "charges_ok (fst (noteCharges (as_notes q) keys ts))" by (rule noteCharges_ok [OF assms(3,4)])
  note call = applied(1) [unfolded assms(1)]
  have "sane s1" using keeps_sane [OF assms(2,3) ch, of rs now] by (simp add: call)
  moreover have "\<forall>row \<in> set (snd (Judge p (level_lookup_of keys (levels_map ls)))). percent_ok (ra_percent row)"
    if "r = Inr ls" for ls
    unfolding Judge_def by (rule rows_percent, rule percents [OF assms(2,3) ch, of rs now]) (simp add: call that)
  ultimately show ?thesis
    unfolding applied(2) by (cases r) (auto dest: judge_verdict_rows)
qed

end

section \<open>The probe profile\<close>

lemma no_prior_no_asks:
  assumes "pf_prior p = []"
  shows "as_notes (EvaluatePrior es (Some p) c phase) = [] \<and> \<not> as_skip (EvaluatePrior es (Some p) c phase)"
proof -
  have "act_notes c [] fa = []" "\<not> act_skip [] fa" for fa by (simp_all add: act_notes_def act_skip_def)
  then show ?thesis
    using foldl_deliver [of c "[]" "heard p phase es" no_asks]
    by (simp add: EvaluatePrior_def Let_def evaluate_heard assms step_of_def no_asks_def concat_eq_Nil_conv list_ex_iff)
qed

lemma probe_fields:
  "pf_prior probe_profile = []" "pf_mode probe_profile = ModeEnforce" "phaseEnabled probe_profile PhaseRequest"
  "rph_outcomes (pf_request probe_profile) = []" "denyResponseOf probe_profile = ''counter_limit''"
  "rph_judge (pf_request probe_profile) =
     [\<lparr>jr_counter = ''probe'', jr_axis = ''ip'', jr_at = Fin 0, jr_action = ''deny'', jr_score = 0, jr_code = ''CNT_PROBE''\<rparr>]"
  by (simp_all add: probe_profile_def defaults_def phaseEnabled_def denyResponseOf_def)

text \<open>
  Denying from the level 0 on denies whenever the subject is known and its level is not below zero; a
  level that is not a number is not below it either.
\<close>

lemma probe_judge:
  assumes "\<not> flt v (Fin 0)" and "lookup ''probe'' ''ip'' = (v, key, True)"
  shows "fst (Judge probe_profile lookup) =
    allowed\<lparr>dc_verdict := VerdictDeny, dc_score := 0, dc_code := ''CNT_PROBE'', dc_deny_response := ''counter_limit''\<rparr>"
  using assms
  by (simp add: Judge_def judge_def probe_fields judge_rule_step_def take_rule_def codeOf_def observe_def Let_def)

fun denied_with :: "string \<Rightarrow> string \<Rightarrow> 's turn \<Rightarrow> bool" where
  "denied_with name code (Done a) \<longleftrightarrow>
     rp_verdict (an_reply a) = VerdictDeny \<and> rp_response (an_reply a) = Some name \<and>
     rp_reason (an_reply a) = Some (Reason code)"
| "denied_with name code (Panics s adds) = False"

lemma probe_verdict:
  assumes "\<not> flt (fst (level_lookup_of keys (levels_map ls) ''probe'' ''ip'')) (Fin 0)"
    and "subject_key keys ''probe'' ''ip'' \<noteq> None"
  shows "denied_with ''counter_limit'' ''CNT_PROBE''
    (judge_verdict e req probe_profile q fill ms keys noted ls s)"
proof -
  let ?l = "level_lookup_of keys (levels_map ls)"
  obtain key where k: "subject_key keys ''probe'' ''ip'' = Some key" using assms(2) by blast
  have l: "?l ''probe'' ''ip'' = (fst (?l ''probe'' ''ip''), key, True)"
    by (simp add: level_lookup_of_def k)
  obtain d rows where d: "Judge probe_profile ?l = (d, rows)" by force
  have dd: "d = allowed\<lparr>dc_verdict := VerdictDeny, dc_score := 0, dc_code := ''CNT_PROBE'', dc_deny_response := ''counter_limit''\<rparr>"
    using probe_judge [of _ ?l key, OF assms(1) l] by (simp add: d)
  have v: "verdict_reply req (scale_would (as_percent q) d) n =
      (NewReply req VerdictDeny)\<lparr>rp_reason := Some (Reason ''CNT_PROBE''), rp_response := Some ''counter_limit''\<rparr>" for n
    by (simp add: dd scale_would_def verdict_reply_def allowed_def reply_defs Let_def)
  have f: "Fire [] d' addr look = no_fired" "FireOverload [] fill False addr code = no_fired" for d' addr look code
    by (simp_all add: Fire_def FireOverload_def)
  show ?thesis
    unfolding judge_verdict_def Let_def d prod.case probe_fields f
    by (simp add: add_fired_def no_fired_def with_actions_def v reply_defs)
qed

text \<open>Levels that are not below zero: percentages are, and so is NaN.\<close>

definition not_below :: "level list \<Rightarrow> bool" where
  "not_below ls \<longleftrightarrow> list_all (\<lambda>l. \<not> flt (lv_percent l) (Fin 0)) ls"

lemma percent_not_below: "percent_ok v \<Longrightarrow> \<not> flt v (Fin 0)"
  by (cases v) (auto simp: percent_ok_def fle_def feq_def)

lemma levels_map_not_below: "not_below ls \<Longrightarrow> levels_map ls r = Some v \<Longrightarrow> \<not> flt v (Fin 0)"
  unfolding levels_map_def not_below_def by (induction ls arbitrary: v rule: rev_induct) (auto split: if_splits)

lemma lookup_not_below:
  "not_below ls \<Longrightarrow> \<not> flt (fst (level_lookup_of keys (levels_map ls) counter axis)) (Fin 0)"
  by (auto simp: level_lookup_of_def dest: levels_map_not_below split: option.split)

text \<open>The one bucket that the probe profile reads.\<close>

definition probe_bucket :: "string \<Rightarrow> bref" where
  "probe_bucket ip = BRef (Kind ''probe'' ''ip'') (IPKey ip)"

lemma probe_turn:
  assumes "client_ip (rq_conn req) \<noteq> []" and "as_notes q = []" and "\<not> as_skip q"
    and "en_apply e s ts [] [probe_bucket (client_ip (rq_conn req))] now = (s1, r)"
  shows "\<exists>keys. subject_key keys ''probe'' ''ip'' \<noteq> None \<and> h_judge e req probe_profile c ts q fill now ms s =
    (case r of
       Inl x \<Rightarrow> Done (failure s1 req probe_profile CodeBucketsUnavailable ''buckets'' (err_what x))
     | Inr ls \<Rightarrow> judge_verdict e req probe_profile q fill ms keys [] ls s1)"
proof -
  let ?refs = "[\<lparr>sr_counter = ''probe'', sr_axis = ''ip''\<rparr>]"
  let ?keys = "judge_keys e req ?refs c []"
  have refs: "judge_refs (rph_judge (pf_request probe_profile)) @
      outcome_refs (rph_outcomes (pf_request probe_profile)) @ note_refs (as_notes q) = ?refs"
    by (simp add: probe_fields judge_refs_def outcome_refs_def bucket_ifs_def note_refs_def assms(2)
        List.map_filter_simps)
  have geo: "\<not> no_geo e ?refs" "headersFor e req ?refs c = Some (Inr [])"
    by (simp_all add: no_geo_def needsResolver_def headersFor_def hasConfigurable_def)
  have key: "subject_key ?keys ''probe'' ''ip'' = Some (IPKey (client_ip (rq_conn req)))"
    using assms(1) by (simp add: subject_key_def judge_keys_def subjectsOf_def axis_keys_def has_axis_ref_def
        put_if_apply Let_def)
  have n: "noteCharges (as_notes q) ?keys ts = ([], [])"
    by (simp add: assms(2) noteCharges_def List.map_filter_simps)
  have "reads_of ?keys (rph_judge (pf_request probe_profile)) (rph_outcomes (pf_request probe_profile)) =
      [probe_bucket (client_ip (rq_conn req))]"
    by (simp add: reads_of_def probe_fields bucket_ifs_def bucket_of_def key probe_bucket_def List.map_filter_simps)
  then have "h_judge e req probe_profile c ts q fill now ms s =
    (case r of
       Inl x \<Rightarrow> Done (failure s1 req probe_profile CodeBucketsUnavailable ''buckets'' (err_what x))
     | Inr ls \<Rightarrow> judge_verdict e req probe_profile q fill ms ?keys [] ls s1)"
    unfolding h_judge_def Let_def refs using geo n assms(3,4) by (simp add: judge_keys_def split: sum.split)
  with key show ?thesis by (intro exI [of _ ?keys]) simp
qed

lemma probe_inspected:
  assumes "snap_profile (Some sn) (rt_profile (rq_route req)) = Some probe_profile"
    and "rq_phase req = PhaseRequest" and "client_ip (rq_conn req) \<noteq> []"
    and "en_apply e s (sn_tiers sn) [] [probe_bucket (client_ip (rq_conn req))] now = (s1, r)"
  shows "case r of
     Inl x \<Rightarrow> \<exists>det. inspect e (Some sn) req fill now ms s = Done (answer s1 (ErrorReply req CodeBucketsUnavailable) det [])
   | Inr ls \<Rightarrow> not_below ls \<longrightarrow> denied_with ''counter_limit'' ''CNT_PROBE'' (inspect e (Some sn) req fill now ms s)"
proof -
  let ?q = "EvaluatePrior (rq_prior req) (Some probe_profile) (sn_counters sn) (rq_phase req)"
  have i: "inspect e (Some sn) req fill now ms s = h_judge e req probe_profile (sn_counters sn) (sn_tiers sn) ?q fill now ms s"
    by (simp add: inspect_def assms(1,2) probe_fields)
  have q: "as_notes ?q = []" "\<not> as_skip ?q"
    using no_prior_no_asks [OF probe_fields(1), of "rq_prior req" "sn_counters sn" "rq_phase req"] by simp_all
  from probe_turn [where ts = "sn_tiers sn" and c = "sn_counters sn" and fill = fill and ms = ms, OF assms(3) q assms(4)]
  obtain keys where k: "subject_key keys ''probe'' ''ip'' \<noteq> None"
      "h_judge e req probe_profile (sn_counters sn) (sn_tiers sn) ?q fill now ms s =
        (case r of
           Inl x \<Rightarrow> Done (failure s1 req probe_profile CodeBucketsUnavailable ''buckets'' (err_what x))
         | Inr ls \<Rightarrow> judge_verdict e req probe_profile ?q fill ms keys [] ls s1)"
    by blast
  show ?thesis
    unfolding i k(2) using probe_verdict [OF lookup_not_below k(1)] by (cases r) (auto simp: failure_def)
qed

section \<open>An example\<close>

definition demo_env :: "ledger env" where
  "demo_env = \<lparr>en_name = ''counter'', en_versions = [2], en_crypto = \<lparr>cr_digest = id, cr_open = \<lambda>_ _ _. None\<rparr>,
     en_loader = \<lparr>ld_store = None, ld_keys = None\<rparr>, en_resolver = None, en_hash = id, en_pairs = \<lambda>_. None,
     en_hits = \<lambda>_ _. 0, en_networked = (\<lambda>w. w = ''asn''),
     en_geo = (\<lambda>w a. Some (if a = [] then Inl (Err ''geo'' ''no address'') else Inr [])), en_lists = True,
     en_unmarshal = \<lambda>_. None, en_encode = rp_verdict, en_apply = local_apply id\<rparr>"

definition probe_snapshot :: snapshot where
  "probe_snapshot = demo_snapshot\<lparr>sn_by_name := [''default'' \<mapsto> default_profile, ''_probe'' \<mapsto> probe_profile]\<rparr>"

definition probe_request :: request where
  "probe_request = tk_req demo_task"

lemma probe_request_fields:
  "rt_profile (rq_route probe_request) = ''_probe''" "rq_phase probe_request = PhaseRequest"
  "client_ip (rq_conn probe_request) \<noteq> []" "rq_prior probe_request = []"
  by (simp_all add: probe_request_def demo_task_def)

lemma probe_snapshot_profile: "snap_profile (Some probe_snapshot) ''_probe'' = Some probe_profile"
  by (simp add: probe_snapshot_def snap_profile_def)

lemma probe_closed: "\<not> phaseEnabled probe_profile PhaseResponse"
  by (simp add: phaseEnabled_def probe_profile_def)

lemma shipped_tiers_ok: "tiers_ok (Tiers shipped_counters)"
  by (rule accepted_tiers [OF shipped_counters_accepted shipped_counters_finite])

section \<open>Properties\<close>

lemma demo_inspected:
  "\<exists>a. inspect demo_env (Some probe_snapshot) probe_request 0 1704067300000000000 (Fin 0) (newLedger 100) = Done a"
proof -
  obtain s1 ls where "Apply id (newLedger 100) (sn_tiers probe_snapshot) []
      [probe_bucket (client_ip (rq_conn probe_request))] 1704067300000000000 = (s1, ls)" by force
  then have a: "en_apply demo_env (newLedger 100) (sn_tiers probe_snapshot) []
      [probe_bucket (client_ip (rq_conn probe_request))] 1704067300000000000 = (s1, Inr ls)"
    by (simp add: demo_env_def local_apply_def)
  have "ledger_ok (l_m (newLedger 100))" "tiers_ok (sn_tiers probe_snapshot)" "charges_ok []"
    by (simp_all add: newLedger_def ledger_ok_def probe_snapshot_def demo_snapshot_def shipped_tiers_ok charges_ok_def)
  from lb.percents [OF this, of id "[probe_bucket (client_ip (rq_conn probe_request))]" 1704067300000000000 ls] a
  have "list_all (\<lambda>l. percent_ok (lv_percent l)) ls" by (simp add: demo_env_def)
  then have "not_below ls" by (simp add: not_below_def list_all_iff percent_not_below)
  have "snap_profile (Some probe_snapshot) (rt_profile (rq_route probe_request)) = Some probe_profile"
    unfolding probe_request_fields(1) by (rule probe_snapshot_profile)
  from probe_inspected [OF this probe_request_fields(2,3) a, of 0 "Fin 0"] \<open>not_below ls\<close>
  have "denied_with ''counter_limit'' ''CNT_PROBE''
      (inspect demo_env (Some probe_snapshot) probe_request 0 1704067300000000000 (Fin 0) (newLedger 100))"
    by simp
  then show ?thesis
    by (cases "inspect demo_env (Some probe_snapshot) probe_request 0 1704067300000000000 (Fin 0) (newLedger 100)") simp_all
qed

text \<open>
  C2 (safety): whatever the configuration and the request, the reply to it is well formed: it names
  the request, the verdict is one of allow, score, deny and error, the score is there exactly with
  the verdict score and lies in 0..100, a denial names its response, and everything but an allow
  has a reason.  In the response phase and in observe mode the counter neither denies nor scores: its
  reply is an allow, or an error that names the part that did not work (an unknown profile, the object
  store, the address coder, the buckets), about which the route of the client decides.
\<close>

theorem reply_wellformed:
  assumes "inspect e so req fill now ms s = Done a"
  shows "reply_ok req (an_reply a) \<and> (passive_phase so req \<longrightarrow> allow_or_fault (an_reply a))"
  using inspect_Done [OF assms] by (simp add: reply_fits_def)

theorem reply_wellformed_witness:
  "\<exists>a. inspect demo_env (Some probe_snapshot) probe_request 0 1704067300000000000 (Fin 0) (newLedger 100) = Done a \<and>
     reply_ok probe_request (an_reply a)"
proof -
  obtain a where "inspect demo_env (Some probe_snapshot) probe_request 0 1704067300000000000 (Fin 0) (newLedger 100) = Done a"
    using demo_inspected by blast
  with reply_wellformed [OF this] show ?thesis by blast
qed

text \<open>A task that is shed gets the error with the reason, unless a list write of its overload panics.\<close>

lemma shed_once:
  assumes "tk_reply t \<noteq> []" and "evaluate e so t budget shed now ms s = (s', effs, adds)" and "shed \<noteq> []"
  shows "\<exists>r ro det. effs = [Respond (tk_reply t) (en_encode e r), Audited ro r det] \<and> rp_rid r = rq_rid (tk_req t) \<and>
    rp_verdict r = VerdictError \<and>
    (reply_ok (tk_req t) r \<and> rp_reason r = Some \<lparr>re_code = shed, re_class = ClassOverload\<rparr> \<and> ro = Some (tk_req t) \<or>
     coder_panics e \<and> ro = None \<and> r = FallbackReply (rq_rid (tk_req t)) (en_name e) CodeInternalError)"
proof -
  obtain end' ls where o: "overloadOnShed e so t shed (ShedReply (tk_req t) shed)
      (engine [(''shed'', EStr shed), (''budget_ms'', ENum (budget_ms budget))]) = (end', ls)" by force
  show ?thesis
  proof (cases end')
    case None
    let ?r = "FallbackReply (rq_rid (tk_req t)) (en_name e) CodeInternalError"
    have "coder_panics e"
      using o None by (auto simp: overloadOnShed_def Let_def split: prod.splits option.splits intro: publish_panics)
    moreover have "effs = [Respond (tk_reply t) (en_encode e ?r), Audited None ?r no_details]"
      using assms(2,3) o None recover_ok [OF assms(1), of e "rq_rid (tk_req t)"] by (simp add: evaluate_def)
    ultimately show ?thesis by (intro exI [of _ ?r]) (auto simp: reply_defs)
  next
    case (Some rd)
    obtain r det where r: "rd = (r, det)" by force
    from overload_reply_ok [OF o [unfolded Some r] ShedReply_ok]
    have ok: "reply_ok (tk_req t) r" "rp_verdict r = VerdictError" by (simp_all add: reply_defs)
    have reason: "rp_reason r = Some \<lparr>re_code = shed, re_class = ClassOverload\<rparr>"
      using o Some r by (auto simp: overloadOnShed_def Let_def reply_defs split: prod.splits option.splits)
    have "effs = [Respond (tk_reply t) (en_encode e r), Audited (Some (tk_req t)) r det]"
      using assms(2,3) o Some r send_ok [OF assms(1) reply_ok_score [OF ok(1)], of e "Some (tk_req t)" det]
      by (simp add: evaluate_def)
    with ok reason show ?thesis by (auto simp: reply_ok_rid)
  qed
qed

lemma evaluate_sends:
  assumes "tk_reply t \<noteq> []"
  shows "evaluate e so t budget [] now ms s =
    (case inspect e so (tk_req t) (tk_fill t) now ms s of
       Panics s1 adds \<Rightarrow>
         (s1, [Respond (tk_reply t) (en_encode e (FallbackReply (rq_rid (tk_req t)) (en_name e) CodeInternalError)),
               Audited None (FallbackReply (rq_rid (tk_req t)) (en_name e) CodeInternalError) no_details], adds)
     | Done a \<Rightarrow>
         (an_state a, [Respond (tk_reply t) (en_encode e (an_reply a)), Audited (Some (tk_req t)) (an_reply a) (an_details a)],
          an_lists a))"
proof (cases "inspect e so (tk_req t) (tk_fill t) now ms s")
  case (Done a)
  from send_ok [OF assms reply_ok_score [OF inspect_reply [OF Done]]] show ?thesis by (simp add: evaluate_def Done)
next
  case (Panics s1 adds)
  then show ?thesis by (simp add: evaluate_def recover_ok [OF assms])
qed

text \<open>What leaves an evaluation: one reply and one call of \<open>Add\<close>, with the request unless it panicked.\<close>

lemma evaluate_entry:
  assumes "tk_reply t \<noteq> []" and "evaluate e so t budget shed now ms s = (s', effs, adds)"
  shows "\<exists>r ro det. effs = [Respond (tk_reply t) (en_encode e r), Audited ro r det] \<and>
    (ro = Some (tk_req t) \<and> rp_rid r = rq_rid (tk_req t) \<or>
     ro = None \<and> r = FallbackReply (rq_rid (tk_req t)) (en_name e) CodeInternalError)"
proof (cases "shed = []")
  case False
  from shed_once [OF assms False] show ?thesis by (elim exE conjE) auto
next
  case True
  show ?thesis
  proof (cases "inspect e so (tk_req t) (tk_fill t) now ms s")
    case (Done a)
    with evaluate_sends [OF assms(1), of e so budget now ms s] assms(2) True inspect_reply [OF Done]
    show ?thesis by (auto simp: reply_ok_rid)
  next
    case (Panics s1 adds1)
    with evaluate_sends [OF assms(1), of e so budget now ms s] assms(2) True show ?thesis by auto
  qed
qed

lemma evaluate_once:
  assumes "tk_reply t \<noteq> []" and "evaluate e so t budget shed now ms s = (s', effs, adds)"
  shows "\<exists>r. responses effs = [(tk_reply t, en_encode e r)] \<and> rp_rid r = rq_rid (tk_req t) \<and>
    (if shed \<noteq> [] then rp_verdict r = VerdictError \<and>
       (reply_ok (tk_req t) r \<and> rp_reason r = Some \<lparr>re_code = shed, re_class = ClassOverload\<rparr> \<or> coder_panics e)
     else case inspect e so (tk_req t) (tk_fill t) now ms s of
            Panics s1 adds1 \<Rightarrow> rp_verdict r = VerdictError
          | Done a \<Rightarrow> r = an_reply a \<and> reply_ok (tk_req t) r)"
proof (cases "shed = []")
  case False
  from shed_once [OF assms False] False show ?thesis by auto
next
  case True
  show ?thesis
  proof (cases "inspect e so (tk_req t) (tk_fill t) now ms s")
    case (Done a)
    with evaluate_sends [OF assms(1), of e so budget now ms s] assms(2) True inspect_reply [OF Done] show ?thesis
      by (intro exI [of _ "an_reply a"]) (auto simp: reply_ok_rid)
  next
    case (Panics s1 adds1)
    with evaluate_sends [OF assms(1), of e so budget now ms s] assms(2) True show ?thesis
      by (intro exI [of _ "FallbackReply (rq_rid (tk_req t)) (en_name e) CodeInternalError"]) (auto simp: reply_defs)
  qed
qed

text \<open>
  C12 (functional): every task that has a reply subject is answered with exactly one reply on it: a
  shed task with the error that names the reason (or the error of the recovery, when a list write of
  its overload made the address coder panic), any other with the encoding of a well-formed reply, and
  a panic with an error that names the request.
\<close>

theorem evaluate_replies_once:
  assumes "tk_reply t \<noteq> []" and "evaluate e so t budget shed now ms s = (s', effs, adds)"
  shows "\<exists>r. responses effs = [(tk_reply t, en_encode e r)] \<and> rp_rid r = rq_rid (tk_req t) \<and>
    (if shed \<noteq> [] then rp_verdict r = VerdictError \<and>
       (reply_ok (tk_req t) r \<and> rp_reason r = Some \<lparr>re_code = shed, re_class = ClassOverload\<rparr> \<or> coder_panics e)
     else case inspect e so (tk_req t) (tk_fill t) now ms s of
            Panics s1 adds1 \<Rightarrow> rp_verdict r = VerdictError
          | Done a \<Rightarrow> r = an_reply a \<and> reply_ok (tk_req t) r)"
  by (rule evaluate_once [OF assms])

theorem evaluate_replies_once_witness:
  "length (responses (fst (snd (evaluate demo_env None demo_task 0 ReasonQueueLimit 0 (Fin 0) (newLedger 100))))) = 1"
proof -
  obtain s' effs adds where e: "evaluate demo_env None demo_task 0 ReasonQueueLimit 0 (Fin 0) (newLedger 100) = (s', effs, adds)"
    by (metis prod_cases3)
  have "tk_reply demo_task \<noteq> []" by (simp add: demo_task_def)
  from evaluate_replies_once [OF this e] show ?thesis by (auto simp: e)
qed

text \<open>
  C28 (safety): over a store of profiles that has started, whatever happens to its files and whatever
  the request, an inspection ends in an answer and not in a panic, provided that three things outside
  hold: the address coder does not panic on the networked list writes (its pointer is nil where no
  coder is configured), no encrypted object that could be decrypted comes with a nonce of the wrong
  length, and the object store does not answer a batch for fewer keys than it was asked for.  With the
  loader that \<open>main\<close> builds, which has no keys and Redis or no store, the last two hold.
\<close>

theorem served_never_panics:
  assumes "store_reach ps st" and "\<not> coder_panics e"
    and "plain_loader (en_loader e) \<or> (\<forall>c. \<not> bad_nonce (en_loader e) c) \<and> \<not> short_store (en_loader e)"
  shows "\<exists>a. inspect e (st_cur st) req fill now ms s = Done a"
proof (cases "inspect e (st_cur st) req fill now ms s")
  case (Panics s1 adds)
  from inspect_panics [OF assms(1) this] assms(2,3) plain_loader_loads(3,4) [of "en_loader e"] show ?thesis
    by (auto simp: loader_panics_def)
qed blast

theorem served_never_panics_witness:
  "\<exists>a. inspect demo_env (st_cur demo_store) probe_request 0 0 (Fin 0) (newLedger 100) = Done a"
proof -
  have "\<not> coder_panics demo_env" "plain_loader (en_loader demo_env)"
    by (simp_all add: coder_panics_def plain_loader_def demo_env_def)
  with served_never_panics [OF store_reach.load [OF demo_load], of demo_env] show ?thesis by blast
qed

text \<open>
  A profile that is off, a phase that is disabled and a profile that does not exist
  leave no trace: the buckets are as they were, nothing is written to a list, and the request is
  not stopped.
\<close>

theorem closed_phase_untouched:
  assumes "\<And>p. snap_profile so (rt_profile (rq_route req)) = Some p \<Longrightarrow> pf_mode p = ModeOff \<or> \<not> phaseEnabled p (rq_phase req)"
  shows "\<exists>a. inspect e so req fill now ms s = Done a \<and> an_state a = s \<and> an_lists a = [] \<and>
    rp_verdict (an_reply a) \<in> {VerdictAllow, VerdictError} \<and> rp_actions (an_reply a) = []"
proof (cases rule: inspect_cases [of so req e fill now ms s])
  case (phase sn p q)
  with assms [OF phase(2)] show ?thesis by blast
qed (simp_all add: plain_def reply_defs)

theorem closed_phase_untouched_witness:
  "\<exists>a. inspect demo_env (Some probe_snapshot) (probe_request\<lparr>rq_phase := PhaseResponse\<rparr>) 0 0 (Fin 0) (newLedger 100) = Done a \<and>
       an_state a = newLedger 100"
proof -
  let ?r = "probe_request\<lparr>rq_phase := PhaseResponse\<rparr>"
  have f: "rt_profile (rq_route ?r) = ''_probe''" "rq_phase ?r = PhaseResponse"
    by (simp_all add: probe_request_def demo_task_def)
  have "pf_mode p = ModeOff \<or> \<not> phaseEnabled p (rq_phase ?r)"
    if "snap_profile (Some probe_snapshot) (rt_profile (rq_route ?r)) = Some p" for p
  proof -
    from that have "p = probe_profile" unfolding f probe_snapshot_profile by (rule option.inject [THEN iffD1, symmetric])
    with probe_closed show ?thesis unfolding f by blast
  qed
  from closed_phase_untouched [of "Some probe_snapshot" ?r, OF this, of demo_env 0 0 "Fin 0" "newLedger 100"]
  show ?thesis by blast
qed

text \<open>
  A list write that the address coder cannot resolve is reported, with the first
  such error, and stops none of the others: exactly the bans with something to write are written,
  in order, up to the first on which the coder panics.
\<close>

theorem list_writes_exact:
  "writeLists e bans =
     (List.map_filter (\<lambda>b. case write_ban e b of
          Some (Inr vals) \<Rightarrow> if vals = [] then None else Some (ban_add b vals) | _ \<Rightarrow> None)
        (takeWhile (\<lambda>b. \<not> ban_panics e b) bans),
      if list_ex (ban_panics e) bans then None
      else Some (find (\<lambda>_. True) (List.map_filter (\<lambda>b. case write_ban e b of Some (Inl x) \<Rightarrow> Some x | _ \<Rightarrow> None) bans)))"
  by (simp add: writeLists_def write_bans_exact)

end
