(* ===== verification/Conf_File.thy ===== *)
theory Conf_File
  imports Trim_Laws
begin

text \<open>
  \<open>internal/config/file.go\<close>: the parser of \<open>inspector.conf\<close>, the file with the settings of the
  queue and the addresses of Redis, and how its values are laid over the defaults and under the
  environment.  \<open>net/url\<close> is a parameter: of a text it gives the scheme and the host, or nothing
  where the text is no URL.  An error of the parser is the line it names and what is wrong there.
\<close>

section \<open>Texts\<close>

text \<open>\<open>strings.Split\<close> with a separator of one character.\<close>

fun split_on :: "char \<Rightarrow> string \<Rightarrow> string list" where
  "split_on c [] = [[]]"
| "split_on c (x # xs) =
     (if x = c then [] # split_on c xs
      else case split_on c xs of [] \<Rightarrow> [[x]] | y # ys \<Rightarrow> (x # y) # ys)"

abbreviation newline :: char where "newline \<equiv> CHR 0x0A"

definition confText :: "string \<Rightarrow> string" where
  "confText line = trim_space (takeWhile (\<lambda>c. c \<noteq> CHR ''#'') line)"

definition requireSemicolon :: "string \<Rightarrow> err + string" where
  "requireSemicolon s =
     (if \<not> has_suffix s '';'' then Inl (Err [] ''missing semicolon'')
      else Inr (trim_space (trim_suffix s '';'')))"

definition is_letter :: "char \<Rightarrow> bool" where
  "is_letter c \<longleftrightarrow> is_upper c \<or> is_lower c"

definition isConfName :: "string \<Rightarrow> bool" where
  "isConfName s \<longleftrightarrow> s \<noteq> [] \<and> list_all (\<lambda>r. r = CHR ''_'' \<or> is_letter r \<or> is_digit r) s"

definition splitDirective :: "string \<Rightarrow> err + string \<times> string" where
  "splitDirective stmt0 =
     (let stmt = trim_space stmt0 in
      if stmt = [] then Inl (Err [] ''empty directive'')
      else case cut stmt CHR '' '' of
             (key, rest, found) \<Rightarrow>
               if \<not> found then Inl (Err stmt ''has no value'')
               else if \<not> isConfName key then Inl (Err key ''invalid directive name'')
               else let v = trim_space rest in
                    if v = [] \<or> contains_any v [CHR '' '', CHR 0x09] then Inl (Err key ''expects one value'')
                    else Inr (key, v))"

section \<open>The parser\<close>

abbreviation QueueFullDrop :: string where "QueueFullDrop \<equiv> ''drop''"
abbreviation QueueFullWait :: string where "QueueFullWait \<equiv> ''wait''"
abbreviation QueueExpandOff :: string where "QueueExpandOff \<equiv> ''off''"
abbreviation QueueExpandAsk :: string where "QueueExpandAsk \<equiv> ''ask''"
abbreviation InternalFromExchange :: string where "InternalFromExchange \<equiv> ''exchange''"

record queue_file =
  qf_max :: "int option"
  qf_full :: string
  qf_expand :: string
  qf_url :: string
  qf_internal :: string

definition no_file :: queue_file where
  "no_file = \<lparr>qf_max = None, qf_full = [], qf_expand = [], qf_url = [], qf_internal = []\<rparr>"

type_synonym url_parser = "string \<Rightarrow> (string \<times> string) option"

definition isRedisURL :: "url_parser \<Rightarrow> string \<Rightarrow> bool" where
  "isRedisURL parse_url s =
     (case parse_url s of
        None \<Rightarrow> False
      | Some (scheme, host) \<Rightarrow> host \<noteq> [] \<and> (scheme = ''redis'' \<or> scheme = ''rediss''))"

text \<open>The state of the loop: the values read, the names seen, the open block and its line.\<close>

record conf_state =
  cs_out :: queue_file
  cs_seen :: "string list"
  cs_block :: string
  cs_opened :: int

definition conf_start :: conf_state where
  "conf_start = \<lparr>cs_out = no_file, cs_seen = [], cs_block = [], cs_opened = 0\<rparr>"

definition redis_id :: "string \<Rightarrow> string" where
  "redis_id key = ''redis.'' @ key"

definition parseRedisKey :: "url_parser \<Rightarrow> string \<Rightarrow> conf_state \<Rightarrow> err + conf_state" where
  "parseRedisKey u s st =
     (case requireSemicolon s of
        Inl e \<Rightarrow> Inl e
      | Inr stmt \<Rightarrow>
          (case splitDirective stmt of
             Inl e \<Rightarrow> Inl e
           | Inr (key, v) \<Rightarrow>
               if redis_id key \<in> set (cs_seen st) then Inl (Err key ''redis: is set twice'')
               else if key \<noteq> ''url'' \<and> key \<noteq> ''internal'' then Inl (Err key ''unknown key in the redis block'')
               else if \<not> isRedisURL u v then Inl (Err key ''redis: must be redis://host:port[/db] or rediss://...'')
               else Inr (st\<lparr>cs_seen := redis_id key # cs_seen st,
                   cs_out := (if key = ''url'' then (cs_out st)\<lparr>qf_url := v\<rparr>
                              else (cs_out st)\<lparr>qf_internal := v\<rparr>)\<rparr>)))"

text \<open>The directives of the queue.\<close>

definition conf_directive :: "string \<Rightarrow> string \<Rightarrow> queue_file \<Rightarrow> err + queue_file" where
  "conf_directive key v out =
     (if key = ''queue_max'' then
        (case atoi v of
           None \<Rightarrow> Inl (Err key ''must be a positive integer'')
         | Some n \<Rightarrow> if n < 1 then Inl (Err key ''must be a positive integer'') else Inr (out\<lparr>qf_max := Some n\<rparr>))
      else if key = ''queue_full'' then
        (if v \<in> {QueueFullDrop, QueueFullWait} then Inr (out\<lparr>qf_full := v\<rparr>)
         else Inl (Err key ''must be drop or wait''))
      else if key = ''queue_expand'' then
        (if v \<in> {QueueExpandOff, QueueExpandAsk} then Inr (out\<lparr>qf_expand := v\<rparr>)
         else Inl (Err key ''must be off or ask''))
      else Inl (Err key ''unknown directive''))"

text \<open>A directive outside of the block.\<close>

definition conf_statement :: "string \<Rightarrow> conf_state \<Rightarrow> err + conf_state" where
  "conf_statement s st =
     (case requireSemicolon s of
        Inl e \<Rightarrow> Inl e
      | Inr stmt \<Rightarrow>
          (case splitDirective stmt of
             Inl e \<Rightarrow> Inl e
           | Inr (key, v) \<Rightarrow>
               if key \<in> set (cs_seen st) then Inl (Err key ''is set twice'')
               else case conf_directive key v (cs_out st) of
                      Inl e \<Rightarrow> Inl e
                    | Inr out \<Rightarrow> Inr (st\<lparr>cs_seen := key # cs_seen st, cs_out := out\<rparr>)))"

text \<open>The opening of a block.\<close>

definition conf_open :: "int \<Rightarrow> string \<Rightarrow> conf_state \<Rightarrow> err + conf_state" where
  "conf_open n s st =
     (let head = trim_space (trim_suffix s ''{'') in
      if head \<noteq> ''redis'' then Inl (Err head ''unknown block'')
      else if head \<in> set (cs_seen st) then Inl (Err head ''block is set twice'')
      else Inr (st\<lparr>cs_seen := head # cs_seen st, cs_block := head, cs_opened := n\<rparr>))"

text \<open>One turn of the loop, at the line with the number \<open>n\<close>.\<close>

definition conf_line :: "url_parser \<Rightarrow> int \<Rightarrow> string \<Rightarrow> conf_state \<Rightarrow> err + conf_state" where
  "conf_line u n line st =
     (let s = confText line in
      if s = [] then Inr st
      else if cs_block st \<noteq> [] then
        (if s = ''}'' then Inr (st\<lparr>cs_block := []\<rparr>) else parseRedisKey u s st)
      else if s = ''}'' then Inl (Err [] ''unexpected }'')
      else if has_suffix s ''{'' then conf_open n s st
      else conf_statement s st)"

fun conf_lines :: "url_parser \<Rightarrow> int \<Rightarrow> string list \<Rightarrow> conf_state \<Rightarrow> (int \<times> err) + conf_state" where
  "conf_lines u n [] st = Inr st"
| "conf_lines u n (l # ls) st =
     (case conf_line u n l st of Inl e \<Rightarrow> Inl (n, e) | Inr st' \<Rightarrow> conf_lines u (n + 1) ls st')"

definition parseQueueFile :: "url_parser \<Rightarrow> string \<Rightarrow> (int \<times> err) + queue_file" where
  "parseQueueFile u src =
     (case conf_lines u 1 (split_on newline src) conf_start of
        Inl e \<Rightarrow> Inl e
      | Inr st \<Rightarrow>
          if cs_block st \<noteq> [] then Inl (cs_opened st, Err (cs_block st) ''block is not closed'')
          else Inr (cs_out st))"

section \<open>What a line states\<close>

definition conf_value :: "string \<Rightarrow> bool" where
  "conf_value v \<longleftrightarrow> v \<noteq> [] \<and> core v \<and> CHR '' '' \<notin> set v \<and> CHR 0x09 \<notin> set v"

definition states :: "string \<Rightarrow> string \<times> string \<Rightarrow> bool" where
  "states s kv \<longleftrightarrow>
     (\<exists>a b. s = fst kv @ '' '' @ a @ snd kv @ b @ '';'' \<and> spaces a \<and> spaces b \<and>
        isConfName (fst kv) \<and> conf_value (snd kv))"

lemma requireSemicolon_Inr: "requireSemicolon s = Inr t \<longleftrightarrow> (\<exists>r. s = r @ '';'' \<and> t = trim_space r)"
  by (auto simp: requireSemicolon_def trim_suffix_def has_suffix_append)

definition name_char :: "char \<Rightarrow> bool" where
  "name_char c \<longleftrightarrow> c = CHR ''_'' \<or> is_letter c \<or> is_digit c"

lemma no_name_char: "list_all (\<lambda>w. list_all (\<lambda>c. \<not> name_char c) w) space_runes" "\<not> name_char CHR '' ''" "\<not> name_char CHR ''.''"
  by code_simp+

lemma name_char: "isConfName k \<Longrightarrow> c \<in> set k \<Longrightarrow> solid c \<and> c \<noteq> CHR ''.'' \<and> c \<noteq> CHR '' ''"
proof -
  assume "isConfName k" "c \<in> set k"
  then have "name_char c" by (auto simp: isConfName_def list_all_iff name_char_def)
  then show ?thesis using no_name_char by (auto simp: solid_def list_all_iff)
qed

lemma core_name: "isConfName k \<Longrightarrow> k \<noteq> [] \<and> core k"
proof -
  assume n: "isConfName k"
  then have "k \<noteq> []" by (auto simp: isConfName_def)
  with name_char [OF n] core_solid show ?thesis by auto
qed

text \<open>White space at an end of a text that trimming leaves alone is empty.\<close>

lemma core_ends:
  assumes "core (x @ m @ y)"
  shows "spaces x \<Longrightarrow> x = []" and "spaces y \<Longrightarrow> y = []"
proof -
  assume "spaces x"
  then show "x = []"
  proof (cases rule: run_of_cases)
    case (word w r)
    then have "has_prefix (x @ m @ y) w" by (simp add: has_prefix_append)
    with assms word(2) show ?thesis by (auto simp: core_def)
  qed
next
  assume "spaces y"
  then have "run_of (map rev space_runes) (rev y)" by (simp add: run_of_rev)
  then show "y = []"
  proof (cases rule: run_of_cases)
    case (word w r)
    then obtain v where v: "v \<in> set space_runes" "w = rev v" by auto
    have "y = rev r @ v" using arg_cong [OF word(1), of rev] v(2) by simp
    then have "has_suffix (x @ m @ y) v" by (simp add: has_suffix_append)
    with assms v(1) show ?thesis by (auto simp: core_def)
  qed simp
qed

lemma splitDirective_Inr:
  assumes "core s"
  shows "splitDirective s = Inr (k, v) \<longleftrightarrow>
    (\<exists>a. s = k @ '' '' @ a @ v \<and> spaces a \<and> isConfName k \<and> conf_value v)" (is "?l = ?r")
proof
  assume ?l
  obtain key rest f where c: "cut s CHR '' '' = (key, rest, f)" by (cases "cut s CHR '' ''")
  from \<open>?l\<close> have h: "f" "isConfName k" "key = k" "v = trim_space rest" "v \<noteq> []" "CHR '' '' \<notin> set v" "CHR 0x09 \<notin> set v" "s \<noteq> []"
    using assms by (auto simp: splitDirective_def Let_def c contains_any_def list_ex_iff split: if_splits)
  from cut_True_split [of s "CHR '' ''" key rest] c h(1,3) have s: "s = k @ CHR '' '' # rest" by simp
  obtain a b where r: "rest = a @ v @ b" "spaces a" "spaces b" using trim_split [of rest] h(4) by blast
  have "b = []" using core_ends(2) [of "k @ CHR '' '' # a" v b] r s assms by simp
  with r s h show ?r by (auto simp: conf_value_def)
next
  assume ?r
  then obtain a where s: "s = k @ CHR '' '' # (a @ v)" "spaces a" "isConfName k" "conf_value v" by auto
  have "CHR '' '' \<notin> set k" using name_char [OF s(3)] by auto
  from cut_found [OF this] have c: "cut s CHR '' '' = (k, a @ v, True)" unfolding s(1) .
  have "trim_space (a @ v) = v" using trim_core [OF s(2), of "[]" v] s(4) by (simp add: conf_value_def)
  then show ?l
    using s(3,4) assms s(1) by (simp add: splitDirective_def Let_def c [simplified s(1)] conf_value_def contains_any_def list_ex_iff) metis
qed

lemma states_iff:
  assumes "core s"
  shows "(\<exists>t. requireSemicolon s = Inr t \<and> splitDirective t = Inr kv) \<longleftrightarrow> states s kv"
proof
  assume "\<exists>t. requireSemicolon s = Inr t \<and> splitDirective t = Inr kv"
  then obtain r where r: "s = r @ '';''" "splitDirective (trim_space r) = Inr (fst kv, snd kv)"
    by (auto simp: requireSemicolon_Inr)
  from r(2) obtain a where a: "trim_space r = fst kv @ '' '' @ a @ snd kv" "spaces a" "isConfName (fst kv)" "conf_value (snd kv)"
    by (subst (asm) splitDirective_Inr) auto
  obtain x y where xy: "r = x @ trim_space r @ y" "spaces x" "spaces y" using trim_split by blast
  have "s = x @ (trim_space r @ y) @ '';''" using xy(1) r(1) by simp
  then have "x = []" using core_ends(1) [of x "trim_space r @ y" "'';''"] assms xy(2) by simp
  with xy a r(1) have "s = fst kv @ '' '' @ a @ snd kv @ y @ '';''" by simp
  then show "states s kv" using a xy(3) unfolding states_def by blast
next
  assume "states s kv"
  then obtain a b where s: "s = fst kv @ '' '' @ a @ snd kv @ b @ '';''" "spaces a" "spaces b"
      "isConfName (fst kv)" "conf_value (snd kv)" unfolding states_def by blast
  let ?m = "fst kv @ '' '' @ a @ snd kv"
  have "spaces ('' '' @ a)" by (rule run_of_append [OF spaces_blank s(2)])
  then have "core ?m"
    using core_behind [of "snd kv" "'' '' @ a" "fst kv"] core_name [OF s(4)] name_char [OF s(4), of "last (fst kv)"] s(5)
    by (simp add: conf_value_def)
  moreover from this have "trim_space (?m @ b) = ?m" using trim_core [of "[]" b ?m] s(3) by simp
  ultimately have "requireSemicolon s = Inr ?m" "splitDirective ?m = Inr (fst kv, snd kv)"
    unfolding requireSemicolon_Inr splitDirective_Inr [OF \<open>core ?m\<close>] using s by auto
  then show "\<exists>t. requireSemicolon s = Inr t \<and> splitDirective t = Inr kv" by auto
qed

end
