(* ===== verification/Conf_Laws.thy ===== *)
theory Conf_Laws
  imports Conf_File
begin

text \<open>
  What \<open>inspector.conf\<close> means: a grammar over the lines that say something, and the proof that the
  parser of \<open>Conf_File\<close> accepts exactly the texts of the grammar and reads off their meaning.
\<close>

section \<open>The grammar\<close>

text \<open>The lines that say something, without comments and blanks.\<close>

definition says :: "string list \<Rightarrow> string list" where
  "says ls = filter (\<lambda>s. s \<noteq> []) (map confText ls)"

definition opens :: "string \<Rightarrow> bool" where
  "opens s \<longleftrightarrow> (\<exists>a. s = ''redis'' @ a @ ''{'' \<and> spaces a)"

text \<open>A key of the block gets the name of the block before its own; the block itself is a name too.\<close>

definition in_block :: "(string \<times> string) list \<Rightarrow> (string \<times> string) list" where
  "in_block kvs = map (\<lambda>(k, v). (redis_id k, v)) kvs"

inductive conf_text :: "string list \<Rightarrow> (string \<times> string) list \<Rightarrow> bool" where
  nothing: "conf_text [] []"
| directive: "states s kv \<Longrightarrow> conf_text ss as \<Longrightarrow> conf_text (s # ss) (kv # as)"
| block: "opens s \<Longrightarrow> list_all2 states body kvs \<Longrightarrow> conf_text ss as \<Longrightarrow>
    conf_text (s # body @ ''}'' # ss) ((''redis'', []) # in_block kvs @ as)"

inductive_simps conf_text_Nil: "conf_text [] as"
inductive_simps conf_text_Cons: "conf_text (s # ss) as"

text \<open>Which values a name takes.\<close>

definition assign_ok :: "url_parser \<Rightarrow> string \<times> string \<Rightarrow> bool" where
  "assign_ok u a \<longleftrightarrow>
     (fst a = ''queue_max'' \<and> (\<exists>n \<ge> 1. atoi (snd a) = Some n)) \<or>
     (fst a = ''queue_full'' \<and> snd a \<in> {QueueFullDrop, QueueFullWait}) \<or>
     (fst a = ''queue_expand'' \<and> snd a \<in> {QueueExpandOff, QueueExpandAsk}) \<or>
     (fst a = ''redis'' \<and> snd a = []) \<or>
     (fst a \<in> {''redis.url'', ''redis.internal''} \<and> isRedisURL u (snd a))"

definition text_of :: "(string \<times> string) list \<Rightarrow> string \<Rightarrow> string" where
  "text_of as k = (case map_of as k of None \<Rightarrow> [] | Some v \<Rightarrow> v)"

definition meaning :: "(string \<times> string) list \<Rightarrow> queue_file" where
  "meaning as =
     \<lparr>qf_max = Option.bind (map_of as ''queue_max'') atoi, qf_full = text_of as ''queue_full'',
      qf_expand = text_of as ''queue_expand'', qf_url = text_of as ''redis.url'',
      qf_internal = text_of as ''redis.internal''\<rparr>"

section \<open>One assignment at a time\<close>

definition assign :: "string \<times> string \<Rightarrow> queue_file \<Rightarrow> queue_file" where
  "assign a f =
     (if fst a = ''queue_max'' then f\<lparr>qf_max := atoi (snd a)\<rparr>
      else if fst a = ''queue_full'' then f\<lparr>qf_full := snd a\<rparr>
      else if fst a = ''queue_expand'' then f\<lparr>qf_expand := snd a\<rparr>
      else if fst a = ''redis.url'' then f\<lparr>qf_url := snd a\<rparr>
      else if fst a = ''redis.internal'' then f\<lparr>qf_internal := snd a\<rparr>
      else f)"

definition fresh :: "string list \<Rightarrow> (string \<times> string) list \<Rightarrow> bool" where
  "fresh seen as \<longleftrightarrow> distinct (map fst as) \<and> set (map fst as) \<inter> set seen = {}"

lemma fresh_Nil [simp]: "fresh seen []"
  by (simp add: fresh_def)

lemma fresh_Cons: "fresh seen (a # as) \<longleftrightarrow> fst a \<notin> set seen \<and> fresh (fst a # seen) as"
  by (auto simp: fresh_def)

definition over :: "string option \<Rightarrow> string \<Rightarrow> string" where
  "over v d = (case v of None \<Rightarrow> d | Some x \<Rightarrow> x)"

lemma over_simps [simp]: "over None d = d" "over (Some x) d = x"
  by (simp_all add: over_def)

text \<open>The names that the parser knows, told apart once and for all.\<close>

lemma conf_name_cases:
  obtains "k = ''queue_max''" | "k = ''queue_full''" | "k = ''queue_expand''" | "k = ''redis.url''"
    | "k = ''redis.internal''"
    | "k \<noteq> ''queue_max''" "k \<noteq> ''queue_full''" "k \<noteq> ''queue_expand''" "k \<noteq> ''redis.url''" "k \<noteq> ''redis.internal''"
  by blast

text \<open>Distinct names may be read in any order: the last assignment of a name is the first one.\<close>

lemma fold_assign:
  "distinct (map fst as) \<Longrightarrow> fold assign as f =
     \<lparr>qf_max = (case map_of as ''queue_max'' of None \<Rightarrow> qf_max f | Some v \<Rightarrow> atoi v),
      qf_full = over (map_of as ''queue_full'') (qf_full f),
      qf_expand = over (map_of as ''queue_expand'') (qf_expand f),
      qf_url = over (map_of as ''redis.url'') (qf_url f),
      qf_internal = over (map_of as ''redis.internal'') (qf_internal f)\<rparr>"
proof (induction as arbitrary: f)
  case Nil
  then show ?case by simp
next
  case (Cons a as)
  then have n: "map_of as (fst a) = None" by (simp add: map_of_eq_None_iff)
  have ih: "fold assign (a # as) f =
     \<lparr>qf_max = (case map_of as ''queue_max'' of None \<Rightarrow> qf_max (assign a f) | Some v \<Rightarrow> atoi v),
      qf_full = over (map_of as ''queue_full'') (qf_full (assign a f)),
      qf_expand = over (map_of as ''queue_expand'') (qf_expand (assign a f)),
      qf_url = over (map_of as ''redis.url'') (qf_url (assign a f)),
      qf_internal = over (map_of as ''redis.internal'') (qf_internal (assign a f))\<rparr>"
    using Cons by simp
  obtain k v where a: "a = (k, v)" by (cases a)
  show ?case
    unfolding ih by (cases k rule: conf_name_cases) (use n in \<open>simp_all add: a assign_def split: option.split\<close>)
qed

lemma fold_assign_meaning: "distinct (map fst as) \<Longrightarrow> fold assign as no_file = meaning as"
  by (simp add: fold_assign meaning_def no_file_def text_of_def over_def split: option.split)

section \<open>One line at a time\<close>

lemma core_confText [simp]: "core (confText l)"
  by (simp add: confText_def)

lemma no_directive_dot: "isConfName k \<Longrightarrow> k \<noteq> ''redis.url'' \<and> k \<noteq> ''redis.internal''"
  using name_char [of k "CHR ''.''"] by auto

lemma states_name: "states s kv \<Longrightarrow> isConfName (fst kv) \<and> snd kv \<noteq> []"
  by (auto simp: states_def conf_value_def)

definition block_key :: "string \<Rightarrow> bool" where
  "block_key k \<longleftrightarrow> k = ''url'' \<or> k = ''internal''"

lemma assign_ok_block: "assign_ok u (redis_id k, v) \<longleftrightarrow> block_key k \<and> isRedisURL u v"
  by (simp add: assign_ok_def block_key_def redis_id_def)

lemma assign_block:
  "block_key k \<Longrightarrow> assign (redis_id k, v) f = (if k = ''url'' then f\<lparr>qf_url := v\<rparr> else f\<lparr>qf_internal := v\<rparr>)"
  by (auto simp: assign_def block_key_def redis_id_def)

lemma parseRedisKey_eq:
  "parseRedisKey u s st =
     (case requireSemicolon s of
        Inl e \<Rightarrow> Inl e
      | Inr stmt \<Rightarrow>
          (case splitDirective stmt of
             Inl e \<Rightarrow> Inl e
           | Inr (key, v) \<Rightarrow>
               if redis_id key \<in> set (cs_seen st) then Inl (Err key ''redis: is set twice'')
               else if \<not> block_key key then Inl (Err key ''unknown key in the redis block'')
               else if \<not> isRedisURL u v then Inl (Err key ''redis: must be redis://host:port[/db] or rediss://...'')
               else Inr (st\<lparr>cs_seen := redis_id key # cs_seen st,
                   cs_out := assign (redis_id key, v) (cs_out st)\<rparr>)))"
  unfolding parseRedisKey_def block_key_def [symmetric] de_Morgan_disj [symmetric]
  by (simp add: assign_block split: sum.split prod.split)

lemma parseRedisKey_Inr:
  assumes "core s"
  shows "parseRedisKey u s st = Inr st' \<longleftrightarrow>
    (\<exists>k v. states s (k, v) \<and> redis_id k \<notin> set (cs_seen st) \<and> assign_ok u (redis_id k, v) \<and>
       st' = st\<lparr>cs_seen := redis_id k # cs_seen st, cs_out := assign (redis_id k, v) (cs_out st)\<rparr>)"
  unfolding states_iff [OF assms, symmetric] assign_ok_block parseRedisKey_eq
  by (simp split: sum.split) blast

lemma conf_directive_Inr:
  assumes "isConfName k" and "v \<noteq> []"
  shows "conf_directive k v f = Inr f' \<longleftrightarrow> assign_ok u (k, v) \<and> f' = assign (k, v) f"
  using no_directive_dot [OF assms(1)] assms(2)
  by (cases k rule: conf_name_cases) (auto simp: conf_directive_def assign_ok_def assign_def split: option.split)

lemma conf_statement_Inr:
  assumes "core s"
  shows "conf_statement s st = Inr st' \<longleftrightarrow>
    (\<exists>kv. states s kv \<and> fst kv \<notin> set (cs_seen st) \<and> assign_ok u kv \<and>
       st' = st\<lparr>cs_seen := fst kv # cs_seen st, cs_out := assign kv (cs_out st)\<rparr>)" (is "?l \<longleftrightarrow> ?r")
proof
  assume ?l
  then obtain t k v f where h: "requireSemicolon s = Inr t" "splitDirective t = Inr (k, v)"
      "k \<notin> set (cs_seen st)" "conf_directive k v (cs_out st) = Inr f"
      "st' = st\<lparr>cs_seen := k # cs_seen st, cs_out := f\<rparr>"
    by (auto simp: conf_statement_def split: sum.splits if_splits)
  then have "states s (k, v)" using states_iff [OF assms, of "(k, v)"] by blast
  with h states_name [OF this] conf_directive_Inr [of k v "cs_out st" f u] show ?r by auto
next
  assume ?r
  then obtain k v where h: "states s (k, v)" "k \<notin> set (cs_seen st)" "assign_ok u (k, v)"
      "st' = st\<lparr>cs_seen := k # cs_seen st, cs_out := assign (k, v) (cs_out st)\<rparr>" by auto
  with states_iff [OF assms, of "(k, v)"] obtain t where "requireSemicolon s = Inr t" "splitDirective t = Inr (k, v)"
    by blast
  moreover have "conf_directive k v (cs_out st) = Inr (assign (k, v) (cs_out st))"
    using h states_name [OF h(1)] by (simp add: conf_directive_Inr [of k v _ _ u])
  ultimately show ?l using h by (simp add: conf_statement_def)
qed

lemma opens_iff:
  assumes "core s"
  shows "opens s \<longleftrightarrow> has_suffix s ''{'' \<and> trim_space (trim_suffix s ''{'') = ''redis''"
proof
  assume "opens s"
  then obtain a where s: "s = (''redis'' @ a) @ ''{''" "spaces a" by (auto simp: opens_def)
  have "core ''redis''" by code_simp
  with trim_core [of "[]" a "''redis''"] s(2) have "trim_space (''redis'' @ a) = ''redis''" by simp
  moreover have "trim_suffix s ''{'' = ''redis'' @ a" unfolding s(1) trim_suffix_def has_suffix_append by simp
  ultimately show "has_suffix s ''{'' \<and> trim_space (trim_suffix s ''{'') = ''redis''"
    using s(1) has_suffix_append by auto
next
  assume h: "has_suffix s ''{'' \<and> trim_space (trim_suffix s ''{'') = ''redis''"
  then obtain r where r: "s = r @ ''{''" by (auto simp: has_suffix_append)
  then have t: "trim_suffix s ''{'' = r" by (simp add: trim_suffix_def has_suffix_append)
  obtain x y where xy: "r = x @ ''redis'' @ y" "spaces x" "spaces y" using trim_split [of r] h t by auto
  have "s = x @ (''redis'' @ y) @ ''{''" using xy(1) r by simp
  then have "x = []" using core_ends(1) [of x "''redis'' @ y" "''{''"] assms xy(2) by simp
  with xy r show "opens s" by (auto simp: opens_def)
qed

lemma states_last: "states s kv \<Longrightarrow> last s = CHR '';''"
  by (auto simp: states_def)

lemma opens_last: "opens s \<Longrightarrow> last s = CHR ''{''"
  by (auto simp: opens_def)

lemma conf_open_Inr:
  assumes "core s" and "has_suffix s ''{''"
  shows "conf_open n s st = Inr st' \<longleftrightarrow>
    opens s \<and> ''redis'' \<notin> set (cs_seen st) \<and>
    st' = st\<lparr>cs_seen := ''redis'' # cs_seen st, cs_block := ''redis'', cs_opened := n\<rparr>"
  using assms(2) by (auto simp: conf_open_def Let_def opens_iff [OF assms(1)])

section \<open>The loop\<close>

definition accepts :: "url_parser \<Rightarrow> int \<Rightarrow> string list \<Rightarrow> conf_state \<Rightarrow> queue_file \<Rightarrow> bool" where
  "accepts u n ls st out \<longleftrightarrow> (\<exists>st'. conf_lines u n ls st = Inr st' \<and> cs_block st' = [] \<and> cs_out st' = out)"

lemma accepts_Nil [simp]: "accepts u n [] st out \<longleftrightarrow> cs_block st = [] \<and> out = cs_out st"
  by (auto simp: accepts_def)

lemma accepts_Cons: "accepts u n (l # ls) st out \<longleftrightarrow> (\<exists>st'. conf_line u n l st = Inr st' \<and> accepts u (n + 1) ls st' out)"
  by (auto simp: accepts_def split: sum.splits)

text \<open>The assignments of a piece of text, read from a state in which some names were seen.\<close>

definition reads :: "url_parser \<Rightarrow> conf_state \<Rightarrow> (string \<times> string) list \<Rightarrow> queue_file \<Rightarrow> bool" where
  "reads u st as out \<longleftrightarrow> fresh (cs_seen st) as \<and> list_all (assign_ok u) as \<and> out = fold assign as (cs_out st)"

lemma reads_Nil [simp]: "reads u st [] out \<longleftrightarrow> out = cs_out st"
  by (simp add: reads_def)

lemma reads_Cons:
  "reads u st (a # as) out \<longleftrightarrow> fst a \<notin> set (cs_seen st) \<and> assign_ok u a \<and>
     reads u (st\<lparr>cs_seen := fst a # cs_seen st, cs_out := assign a (cs_out st)\<rparr>) as out"
  by (auto simp: reads_def fresh_Cons)

lemma reads_cong:
  "cs_seen st = cs_seen st' \<Longrightarrow> cs_out st = cs_out st' \<Longrightarrow> reads u st as out = reads u st' as out"
  by (simp add: reads_def)

definition top_means :: "url_parser \<Rightarrow> string list \<Rightarrow> conf_state \<Rightarrow> queue_file \<Rightarrow> bool" where
  "top_means u ss st out \<longleftrightarrow> (\<exists>as. conf_text ss as \<and> reads u st as out)"

definition block_means :: "url_parser \<Rightarrow> string list \<Rightarrow> conf_state \<Rightarrow> queue_file \<Rightarrow> bool" where
  "block_means u ss st out \<longleftrightarrow>
     (\<exists>body kvs rest as. ss = body @ ''}'' # rest \<and> list_all2 states body kvs \<and> conf_text rest as \<and>
        reads u st (in_block kvs @ as) out)"

lemma not_close: "states s kv \<Longrightarrow> s \<noteq> ''}''" "opens s \<Longrightarrow> s \<noteq> ''}''"
  by (auto dest: states_last opens_last)

lemma top_means_Nil [simp]: "top_means u [] st out \<longleftrightarrow> out = cs_out st"
  by (simp add: top_means_def conf_text_Nil)

lemma block_means_Nil [simp]: "\<not> block_means u [] st out"
  by (simp add: block_means_def)

lemma block_means_close: "block_means u (''}'' # ss) st out \<longleftrightarrow> top_means u ss st out"
proof -
  have "body = []" if "''}'' # ss = body @ ''}'' # rest" "list_all2 states body kvs" for body rest kvs
    using that not_close(1) [of "''}''"] by (cases body) (auto simp: list_all2_Cons1)
  then show ?thesis by (fastforce simp: block_means_def top_means_def in_block_def)
qed

lemma block_means_key:
  assumes "s \<noteq> ''}''"
  shows "block_means u (s # ss) st out \<longleftrightarrow>
    (\<exists>k v. states s (k, v) \<and> redis_id k \<notin> set (cs_seen st) \<and> assign_ok u (redis_id k, v) \<and>
       block_means u ss (st\<lparr>cs_seen := redis_id k # cs_seen st, cs_out := assign (redis_id k, v) (cs_out st)\<rparr>) out)"
    (is "?l \<longleftrightarrow> ?r")
proof
  assume ?l
  then obtain body kvs rest as where h: "s # ss = body @ ''}'' # rest" "list_all2 states body kvs"
      "conf_text rest as" "reads u st (in_block kvs @ as) out" unfolding block_means_def by blast
  from h(1) assms obtain body' where b: "body = s # body'" "ss = body' @ ''}'' # rest" by (cases body) auto
  with h(2) obtain k v kvs' where "kvs = (k, v) # kvs'" "states s (k, v)" "list_all2 states body' kvs'"
    by (auto simp: list_all2_Cons1)
  with h(3,4) b(2) show ?r by (fastforce simp: block_means_def in_block_def reads_Cons)
next
  assume ?r
  then obtain k v body kvs rest as where h: "states s (k, v)" "redis_id k \<notin> set (cs_seen st)" "assign_ok u (redis_id k, v)"
      "ss = body @ ''}'' # rest" "list_all2 states body kvs" "conf_text rest as"
      "reads u (st\<lparr>cs_seen := redis_id k # cs_seen st, cs_out := assign (redis_id k, v) (cs_out st)\<rparr>) (in_block kvs @ as) out"
    unfolding block_means_def by blast
  then have "s # ss = (s # body) @ ''}'' # rest" "list_all2 states (s # body) ((k, v) # kvs)"
      "reads u st (in_block ((k, v) # kvs) @ as) out" by (auto simp: in_block_def reads_Cons)
  with h(6) show ?l unfolding block_means_def by blast
qed

lemma ex_text_of:
  assumes "\<And>as. c as \<longleftrightarrow> (\<exists>kv as'. as = kv # as' \<and> p kv \<and> t ss as') \<or>
      (\<exists>body kvs rest as'. ss = body @ z # rest \<and> as = h # g kvs @ as' \<and> o1 \<and> l body kvs \<and> t rest as')"
  shows "(\<exists>as. c as \<and> r as) \<longleftrightarrow> (\<exists>kv as. p kv \<and> t ss as \<and> r (kv # as)) \<or>
      (\<exists>body kvs rest as. o1 \<and> ss = body @ z # rest \<and> l body kvs \<and> t rest as \<and> r (h # g kvs @ as))"
  unfolding assms by blast

lemma top_means_Cons:
  "top_means u (s # ss) st out \<longleftrightarrow>
     (\<exists>kv. states s kv \<and> fst kv \<notin> set (cs_seen st) \<and> assign_ok u kv \<and>
        top_means u ss (st\<lparr>cs_seen := fst kv # cs_seen st, cs_out := assign kv (cs_out st)\<rparr>) out) \<or>
     (opens s \<and> ''redis'' \<notin> set (cs_seen st) \<and>
        block_means u ss (st\<lparr>cs_seen := ''redis'' # cs_seen st\<rparr>) out)" (is "_ \<longleftrightarrow> ?d \<or> ?b")
proof -
  have ok: "assign_ok u (''redis'', [])" by (simp add: assign_ok_def)
  have "assign (''redis'', []) f = f" for f by (simp add: assign_def)
  then have blk: "reads u st ((''redis'', []) # as) out \<longleftrightarrow>
      ''redis'' \<notin> set (cs_seen st) \<and> reads u (st\<lparr>cs_seen := ''redis'' # cs_seen st\<rparr>) as out" for as
    using ok by (simp add: reads_Cons)
  have "?b \<longleftrightarrow> (\<exists>body kvs rest as. opens s \<and> ss = body @ ''}'' # rest \<and> list_all2 states body kvs \<and>
      conf_text rest as \<and> reads u st ((''redis'', []) # in_block kvs @ as) out)"
    unfolding block_means_def blk by blast
  moreover have "?d \<longleftrightarrow> (\<exists>kv as. states s kv \<and> conf_text ss as \<and> reads u st (kv # as) out)"
    unfolding top_means_def reads_Cons by blast
  moreover have "top_means u (s # ss) st out \<longleftrightarrow>
      (\<exists>kv as. states s kv \<and> conf_text ss as \<and> reads u st (kv # as) out) \<or>
      (\<exists>body kvs rest as. opens s \<and> ss = body @ ''}'' # rest \<and> list_all2 states body kvs \<and>
         conf_text rest as \<and> reads u st ((''redis'', []) # in_block kvs @ as) out)"
    unfolding top_means_def by (rule ex_text_of) (simp add: conf_text_Cons)
  ultimately show ?thesis by (simp only:)
qed

lemma top_means_cong:
  "cs_seen st = cs_seen st' \<Longrightarrow> cs_out st = cs_out st' \<Longrightarrow> top_means u ss st out = top_means u ss st' out"
  by (simp add: top_means_def reads_cong [of st st'])

lemma block_means_cong:
  "cs_seen st = cs_seen st' \<Longrightarrow> cs_out st = cs_out st' \<Longrightarrow> block_means u ss st out = block_means u ss st' out"
  by (simp add: block_means_def reads_cong [of st st'])

lemma conf_line_blank: "confText l = [] \<Longrightarrow> conf_line u n l st = Inr st"
  by (simp add: conf_line_def)

lemma conf_line_close: "confText l = ''}'' \<Longrightarrow> conf_line u n l st = Inr st' \<longleftrightarrow> cs_block st \<noteq> [] \<and> st' = st\<lparr>cs_block := []\<rparr>"
  by (auto simp: conf_line_def Let_def)

lemma conf_line_key:
  "confText l \<noteq> [] \<Longrightarrow> confText l \<noteq> ''}'' \<Longrightarrow> cs_block st \<noteq> [] \<Longrightarrow> conf_line u n l st = parseRedisKey u (confText l) st"
  by (simp add: conf_line_def Let_def)

lemma conf_line_top:
  assumes "confText l \<noteq> []" and "confText l \<noteq> ''}''" and "cs_block st = []"
  shows "conf_line u n l st = Inr st' \<longleftrightarrow>
    (\<exists>kv. (states (confText l) kv \<and> fst kv \<notin> set (cs_seen st) \<and> assign_ok u kv) \<and>
       st' = st\<lparr>cs_seen := fst kv # cs_seen st, cs_out := assign kv (cs_out st)\<rparr>) \<or>
    ((opens (confText l) \<and> ''redis'' \<notin> set (cs_seen st)) \<and>
       st' = st\<lparr>cs_seen := ''redis'' # cs_seen st, cs_block := ''redis'', cs_opened := n\<rparr>)"
proof (cases "has_suffix (confText l) ''{''")
  case True
  then have "\<not> states (confText l) kv" for kv using states_last [of "confText l" kv] by (auto simp: has_suffix_append)
  then show ?thesis
    using assms True conf_open_Inr [OF core_confText True] by (simp add: conf_line_def Let_def)
next
  case False
  then have "\<not> opens (confText l)" by (auto simp: opens_def has_suffix_append)
  then show ?thesis
    using assms False conf_statement_Inr [OF core_confText, of l st st' u] by (simp add: conf_line_def Let_def)
qed

lemma ex_one_of:
  "(\<exists>y. ((\<exists>x. p x \<and> y = f x) \<or> (q \<and> y = g)) \<and> r y) \<longleftrightarrow> (\<exists>x. p x \<and> r (f x)) \<or> (q \<and> r g)"
  by blast

lemma ex_two_of:
  "(\<exists>y. (\<exists>k v. p k v \<and> q k v \<and> t k v \<and> y = f k v) \<and> r y) \<longleftrightarrow> (\<exists>k v. p k v \<and> q k v \<and> t k v \<and> r (f k v))"
  by blast

lemma says_Cons [simp]:
  "confText l = [] \<Longrightarrow> says (l # ls) = says ls"
  "confText l \<noteq> [] \<Longrightarrow> says (l # ls) = confText l # says ls"
  by (simp_all add: says_def)

lemma loop_means:
  "(cs_block st = [] \<longrightarrow> accepts u n ls st out = top_means u (says ls) st out) \<and>
   (cs_block st = ''redis'' \<longrightarrow> accepts u n ls st out = block_means u (says ls) st out)"
proof (induction ls arbitrary: n st)
  case Nil
  then show ?case by (auto simp: says_def)
next
  case (Cons l ls)
  note top = Cons.IH [THEN conjunct1, rule_format] and blk = Cons.IH [THEN conjunct2, rule_format]
  consider (blank) "confText l = []" | (close) "confText l = ''}''"
    | (other) "confText l \<noteq> []" "confText l \<noteq> ''}''" by blast
  then show ?case
  proof cases
    case blank
    then show ?thesis using Cons.IH by (simp add: accepts_Cons conf_line_blank)
  next
    case close
    have "\<not> states ''}'' kv" "\<not> opens ''}''" for kv using not_close by blast+
    then have "\<not> top_means u (''}'' # says ls) st out" by (simp add: top_means_Cons)
    moreover have "top_means u (says ls) (st\<lparr>cs_block := []\<rparr>) out = top_means u (says ls) st out"
      by (rule top_means_cong) simp_all
    ultimately show ?thesis
      using close by (simp add: accepts_Cons conf_line_close block_means_close top)
  next
    case other
    have opened: "block_means u (says ls) (st\<lparr>cs_seen := q, cs_block := b, cs_opened := m\<rparr>) out =
        block_means u (says ls) (st\<lparr>cs_seen := q\<rparr>) out" for q b m
      by (rule block_means_cong) simp_all
    have t: "accepts u n (l # ls) st out = top_means u (says (l # ls)) st out" if "cs_block st = []"
      unfolding accepts_Cons conf_line_top [OF other that] says_Cons(2) [OF other(1)] top_means_Cons ex_one_of
      using that by (simp add: top blk opened)
    have b: "accepts u n (l # ls) st out = block_means u (says (l # ls)) st out" if "cs_block st = ''redis''"
    proof -
      have ne: "cs_block st \<noteq> []" using that by simp
      show ?thesis
        unfolding accepts_Cons conf_line_key [OF other ne] parseRedisKey_Inr [OF core_confText]
          says_Cons(2) [OF other(1)] block_means_key [OF other(2)] ex_two_of
        using that by (simp add: blk)
    qed
    from t b show ?thesis by blast
  qed
qed

lemma parse_accepts: "parseQueueFile u src = Inr out \<longleftrightarrow> accepts u 1 (split_on newline src) conf_start out"
  by (auto simp: parseQueueFile_def accepts_def split: sum.splits)

lemma parse_means:
  "parseQueueFile u src = Inr out \<longleftrightarrow>
   (\<exists>as. conf_text (says (split_on newline src)) as \<and> distinct (map fst as) \<and> list_all (assign_ok u) as \<and>
      out = meaning as)"
proof -
  have "reads u conf_start as out \<longleftrightarrow> distinct (map fst as) \<and> list_all (assign_ok u) as \<and> out = meaning as" for as
    by (auto simp: reads_def conf_start_def fresh_def fold_assign_meaning)
  moreover have "cs_block conf_start = []" by (simp add: conf_start_def)
  ultimately show ?thesis
    using loop_means [of conf_start u 1 "split_on newline src" out]
    by (simp add: parse_accepts top_means_def)
qed

section \<open>Properties\<close>

text \<open>
  C17 (equivalence): the parser of the file, a loop with an open block and a set of names seen, is
  the grammar: a text is accepted exactly when its lines, without comments and blanks, are
  directives and blocks of the grammar, no name is given twice and every name is known and has a
  value of its kind; the values read are the ones the names were given.
\<close>

theorem conf_parser_is_grammar:
  "parseQueueFile u src = Inr out \<longleftrightarrow>
   (\<exists>as. conf_text (says (split_on newline src)) as \<and> distinct (map fst as) \<and> list_all (assign_ok u) as \<and>
      out = meaning as)"
  by (rule parse_means)

end
