(* ===== verification/Durations.thy ===== *)
theory Durations
  imports Profile_Store
begin

text \<open>
  \<open>time.ParseDuration\<close> of the standard library, which reads the durations of the environment: a
  sign and a sequence of decimal numbers with units, summed in nanoseconds.  The integers are
  \<open>uint64\<close>, the part after a point goes through \<open>float64\<close>.  The error is one of the caller's, so
  a text that is no duration is \<open>None\<close>.
\<close>

section \<open>Numbers\<close>

fun leading_int :: "int \<Rightarrow> string \<Rightarrow> (int \<times> string) option" where
  "leading_int x [] = Some (x, [])"
| "leading_int x (c # s) =
     (if \<not> is_digit c then Some (x, c # s)
      else if x > 2 ^ 63 div 10 then None
      else let y = x * 10 + digit_val c in if y > 2 ^ 63 then None else leading_int y s)"

text \<open>Digits behind the point that no longer fit are read and dropped.\<close>

fun leading_fraction :: "int \<Rightarrow> f64 \<Rightarrow> bool \<Rightarrow> string \<Rightarrow> int \<times> f64 \<times> string" where
  "leading_fraction x scale full [] = (x, scale, [])"
| "leading_fraction x scale full (c # s) =
     (if \<not> is_digit c then (x, scale, c # s)
      else if full \<or> x > (2 ^ 63 - 1) div 10 then leading_fraction x scale True s
      else let y = x * 10 + digit_val c in
           if y > 2 ^ 63 then leading_fraction x scale True s
           else leading_fraction y (fmul scale (Fin 10)) False s)"

definition unit_map :: "string \<rightharpoonup> int" where
  "unit_map = [''ns'' \<mapsto> 1, ''us'' \<mapsto> 1000, CHR 0xC2 # CHR 0xB5 # ''s'' \<mapsto> 1000, CHR 0xCE # CHR 0xBC # ''s'' \<mapsto> 1000,
     ''ms'' \<mapsto> 1000000, ''s'' \<mapsto> 1000000000, ''m'' \<mapsto> 60000000000, ''h'' \<mapsto> 3600000000000]"

definition numeric :: "char \<Rightarrow> bool" where
  "numeric c \<longleftrightarrow> c = CHR ''.'' \<or> is_digit c"

section \<open>One number with its unit\<close>

definition fraction_part :: "string \<Rightarrow> int \<times> f64 \<times> bool \<times> string" where
  "fraction_part s =
     (case s of
        [] \<Rightarrow> (0, Fin 1, False, [])
      | c # r \<Rightarrow>
          if c = CHR ''.'' then
            (case leading_fraction 0 (Fin 1) False r of (f, scale, r') \<Rightarrow> (f, scale, length r' \<noteq> length r, r'))
          else (0, Fin 1, False, s))"

definition scaled_unit :: "int \<Rightarrow> int \<Rightarrow> int \<Rightarrow> f64 \<Rightarrow> int option" where
  "scaled_unit unit v f scale =
     (if v > 2 ^ 63 div unit then None
      else if f > 0 then
        (let w = (v * unit + f64_to_int (fmul (f64_of_int f) (fdiv (f64_of_int unit) scale))) mod 2 ^ 64
         in if w > 2 ^ 63 then None else Some w)
      else Some (v * unit))"

definition duration_term :: "string \<Rightarrow> (int \<times> string) option" where
  "duration_term s =
     (if s = [] \<or> \<not> numeric (hd s) then None
      else case leading_int 0 s of
             None \<Rightarrow> None
           | Some (v, s1) \<Rightarrow>
               (case fraction_part s1 of
                  (f, scale, post, s2) \<Rightarrow>
                    if length s1 = length s \<and> \<not> post then None
                    else let u = takeWhile (\<lambda>c. \<not> numeric c) s2; s3 = dropWhile (\<lambda>c. \<not> numeric c) s2 in
                         if u = [] then None
                         else case unit_map u of
                                None \<Rightarrow> None
                              | Some unit \<Rightarrow> map_option (\<lambda>w. (w, s3)) (scaled_unit unit v f scale)))"

section \<open>The sum\<close>

lemma leading_int_length: "leading_int x s = Some (v, r) \<Longrightarrow> length r \<le> length s"
  by (induction x s rule: leading_int.induct) (force simp: Let_def split: if_splits)+

lemma leading_fraction_length: "leading_fraction x sc full s = (f, sc', r) \<Longrightarrow> length r \<le> length s"
  by (induction x sc full s rule: leading_fraction.induct) (force simp: Let_def split: if_splits)+

lemma fraction_part_length: "fraction_part s = (f, sc, post, r) \<Longrightarrow> length r \<le> length s"
  by (auto simp: fraction_part_def split: list.splits if_splits prod.splits dest!: leading_fraction_length)

lemma duration_term_shorter:
  assumes "duration_term s = Some (w, r)"
  shows "length r < length s"
proof -
  obtain v s1 f sc post s2 where h: "leading_int 0 s = Some (v, s1)" "fraction_part s1 = (f, sc, post, s2)"
      "takeWhile (\<lambda>c. \<not> numeric c) s2 \<noteq> []" "r = dropWhile (\<lambda>c. \<not> numeric c) s2"
    using assms by (auto simp: duration_term_def Let_def split: if_splits option.splits prod.splits)
  have "length (takeWhile (\<lambda>c. \<not> numeric c) s2) + length r = length s2"
    unfolding h(4) by (metis length_append takeWhile_dropWhile_id)
  with h(3) have "length r < length s2" by (cases "takeWhile (\<lambda>c. \<not> numeric c) s2") auto
  then show ?thesis using leading_int_length [OF h(1)] fraction_part_length [OF h(2)] by simp
qed

function duration_sum :: "int \<Rightarrow> string \<Rightarrow> int option" where
  "duration_sum d s =
     (if s = [] then Some d
      else case duration_term s of
             None \<Rightarrow> None
           | Some (w, r) \<Rightarrow> let d' = (d + w) mod 2 ^ 64 in if d' > 2 ^ 63 then None else duration_sum d' r)"
  by pat_completeness auto

termination duration_sum
  by (relation "measure (\<lambda>(d, s). length s)") (auto dest: duration_term_shorter)

declare duration_sum.simps [simp del]

definition go_ParseDuration :: "string \<Rightarrow> int option" where
  "go_ParseDuration s =
     (let neg = (s \<noteq> [] \<and> hd s = CHR ''-''); r = (if s \<noteq> [] \<and> hd s \<in> {CHR ''-'', CHR ''+''} then tl s else s) in
      if r = ''0'' then Some 0
      else if r = [] then None
      else case duration_sum 0 r of
             None \<Rightarrow> None
           | Some d \<Rightarrow> if neg then Some (- d) else if d > 2 ^ 63 - 1 then None else Some d)"

lemma duration_sum_range: "0 \<le> d \<Longrightarrow> d \<le> 2 ^ 63 \<Longrightarrow> duration_sum d s = Some e \<Longrightarrow> 0 \<le> e \<and> e \<le> 2 ^ 63"
proof (induction d s rule: duration_sum.induct)
  case (1 d s)
  show ?case
  proof (cases "s = []")
    case True
    with "1.prems" show ?thesis by (simp add: duration_sum.simps)
  next
    case False
    with "1.prems"(3) obtain w r where w: "duration_term s = Some (w, r)"
      by (subst (asm) duration_sum.simps) (auto split: option.splits)
    let ?d = "(d + w) mod 2 ^ 64"
    from "1.prems"(3) False w have "\<not> ?d > 2 ^ 63" "duration_sum ?d r = Some e"
      by (subst (asm) duration_sum.simps, simp add: Let_def split: if_splits)+
    then show ?thesis using "1.IH" [OF False w refl refl] by simp
  qed
qed

lemma go_ParseDuration_in64: "go_ParseDuration s = Some d \<Longrightarrow> in64 d"
  using duration_sum_range [of 0] by (fastforce simp: go_ParseDuration_def Let_def in64_def split: if_splits option.splits)

text \<open>What the settings are written like.\<close>

lemma go_ParseDuration_examples:
  "go_ParseDuration ''500ms'' = Some 500000000" "go_ParseDuration ''1m30s'' = Some 90000000000"
  "go_ParseDuration ''-2s'' = Some (- 2000000000)" "go_ParseDuration ''5'' = None"
  by code_simp+

lemma go_ParseDuration_fraction: "go_ParseDuration ''1.5s'' = Some 1500000000"
  by code_simp

end
