(* ===== verification/Settings.thy ===== *)
theory Settings
  imports Conf_Laws Durations
begin

text \<open>
  \<open>internal/config/config.go\<close> and \<open>internal/config/logship.go\<close>: the configuration of the process,
  from its environment and from \<open>inspector.conf\<close>.  What the process asks of the machine is a
  record of answers: the environment, which paths are files, what they hold, the working
  directory, the number of processors and the name of the host.  The names of the log levels are
  those of a library outside the repository.
\<close>

section \<open>The machine\<close>

record machine =
  mc_env :: "string \<rightharpoonup> string"
  mc_is_file :: "string \<Rightarrow> bool"
  mc_read :: "string \<rightharpoonup> string"
  mc_cwd :: "string option"
  mc_procs :: int
  mc_host :: "string option"
  mc_url :: url_parser
  mc_level :: "string \<Rightarrow> err + int"

text \<open>\<open>filepath.Clean\<close> on Unix, over the components of a path, the last one first.\<close>

fun clean_parts :: "bool \<Rightarrow> string list \<Rightarrow> string list \<Rightarrow> string list" where
  "clean_parts rooted [] acc = acc"
| "clean_parts rooted (p # ps) acc =
     (if p = [] \<or> p = ''.'' then clean_parts rooted ps acc
      else if p = ''..'' then
        (if acc \<noteq> [] \<and> hd acc \<noteq> ''..'' then clean_parts rooted ps (tl acc)
         else if rooted then clean_parts rooted ps acc
         else clean_parts rooted ps (p # acc))
      else clean_parts rooted ps (p # acc))"

fun join_parts :: "string list \<Rightarrow> string" where
  "join_parts [] = []"
| "join_parts [p] = p"
| "join_parts (p # q # ps) = p @ ''/'' @ join_parts (q # ps)"

definition is_abs :: "string \<Rightarrow> bool" where
  "is_abs p \<longleftrightarrow> has_prefix p ''/''"

definition clean_path :: "string \<Rightarrow> string" where
  "clean_path p =
     (let body = join_parts (rev (clean_parts (is_abs p) (split_on CHR ''/'' p) []))
      in if is_abs p then ''/'' @ body else if body = [] then ''.'' else body)"

definition abs_path :: "machine \<Rightarrow> string \<Rightarrow> string option" where
  "abs_path mc p =
     (if is_abs p then Some (clean_path p)
      else map_option (\<lambda>wd. clean_path (wd @ ''/'' @ p)) (mc_cwd mc))"

section \<open>Single settings\<close>

text \<open>A variable of the environment that is set: to anything, or to more than blanks.\<close>

definition env_set :: "machine \<Rightarrow> string \<Rightarrow> string option" where
  "env_set mc name = (case mc_env mc name of None \<Rightarrow> None | Some v \<Rightarrow> if v = [] then None else Some v)"

definition env_word :: "machine \<Rightarrow> string \<Rightarrow> string option" where
  "env_word mc name =
     (case mc_env mc name of None \<Rightarrow> None | Some v \<Rightarrow> if trim_space v = [] then None else Some (trim_space v))"

definition env_or :: "machine \<Rightarrow> string \<Rightarrow> string \<Rightarrow> string" where
  "env_or mc name d = (case env_set mc name of None \<Rightarrow> d | Some v \<Rightarrow> v)"

definition envOverride :: "machine \<Rightarrow> string \<Rightarrow> string \<Rightarrow> string" where
  "envOverride mc name current = (case env_word mc name of None \<Rightarrow> current | Some v \<Rightarrow> v)"

definition envIntIfSet :: "machine \<Rightarrow> string \<Rightarrow> int \<Rightarrow> err + int" where
  "envIntIfSet mc name d =
     (case env_set mc name of
        None \<Rightarrow> Inr d
      | Some raw \<Rightarrow> (case atoi (trim_space raw) of None \<Rightarrow> Inl (Err name ''invalid syntax'') | Some v \<Rightarrow> Inr v))"

definition envInt :: "machine \<Rightarrow> string \<Rightarrow> int \<Rightarrow> err + int" where
  "envInt mc name d = envIntIfSet mc name d"

definition splitList :: "string \<Rightarrow> string list" where
  "splitList s = filter (\<lambda>p. p \<noteq> []) (map trim_space (split_on CHR '','' s))"

fun int_list :: "string \<Rightarrow> string list \<Rightarrow> err + int list" where
  "int_list name [] = Inr []"
| "int_list name (p # ps) =
     (case atoi p of
        None \<Rightarrow> Inl (Err name ''invalid syntax'')
      | Some v \<Rightarrow> (case int_list name ps of Inl e \<Rightarrow> Inl e | Inr vs \<Rightarrow> Inr (v # vs)))"

definition envIntList :: "machine \<Rightarrow> string \<Rightarrow> int list \<Rightarrow> err + int list" where
  "envIntList mc name d = (case env_set mc name of None \<Rightarrow> Inr d | Some raw \<Rightarrow> int_list name (splitList raw))"

definition envDuration :: "machine \<Rightarrow> string \<Rightarrow> int \<Rightarrow> err + int" where
  "envDuration mc name d =
     (case env_set mc name of
        None \<Rightarrow> Inr d
      | Some raw \<Rightarrow>
          (case go_ParseDuration (trim_space raw) of
             None \<Rightarrow> Inl (Err name ''invalid duration'')
           | Some v \<Rightarrow> if v \<le> 0 then Inl (Err name ''must be positive'') else Inr v))"

definition envDurationOrZero :: "machine \<Rightarrow> string \<Rightarrow> int \<Rightarrow> err + int" where
  "envDurationOrZero mc name d =
     (case env_set mc name of
        None \<Rightarrow> Inr d
      | Some raw \<Rightarrow>
          (case go_ParseDuration (trim_space raw) of
             None \<Rightarrow> Inl (Err name ''invalid duration'')
           | Some v \<Rightarrow> if v < 0 then Inl (Err name ''must not be negative'') else Inr v))"

definition parseLevel :: "machine \<Rightarrow> string \<Rightarrow> err + int" where
  "parseLevel mc s = (case mc_level mc s of Inl e \<Rightarrow> Inl (Err ''WAF_COUNTER_LOG'' (err_what e)) | Inr l \<Rightarrow> Inr l)"

section \<open>\<open>inspector.conf\<close> and its place\<close>

definition confPath :: "machine \<Rightarrow> string \<Rightarrow> string" where
  "confPath mc name =
     (case env_word mc name of
        Some v \<Rightarrow> v
      | None \<Rightarrow>
          (case find (mc_is_file mc) [''inspector.conf'', ''/app/inspector.conf''] of None \<Rightarrow> [] | Some c \<Rightarrow> c))"

text \<open>An error of the file with its line, or one of a setting.\<close>

datatype load_error = In_Line string int err | Setting err

definition loadQueueFile :: "machine \<Rightarrow> string \<Rightarrow> load_error + queue_file" where
  "loadQueueFile mc path =
     (case mc_read mc path of
        None \<Rightarrow> Inl (Setting (Err path ''read''))
      | Some raw \<Rightarrow>
          (case parseQueueFile (mc_url mc) raw of Inl (n, e) \<Rightarrow> Inl (In_Line path n e) | Inr f \<Rightarrow> Inr f))"

record queue_settings =
  qs_max :: int
  qs_full :: string
  qs_expand :: string

definition applyQueueFile :: "queue_settings \<Rightarrow> queue_file \<Rightarrow> queue_settings" where
  "applyQueueFile c f =
     (let c1 = (case qf_max f of None \<Rightarrow> c | Some n \<Rightarrow> c\<lparr>qs_max := n\<rparr>);
          c2 = (if qf_full f \<noteq> [] then c1\<lparr>qs_full := qf_full f\<rparr> else c1)
      in if qf_expand f \<noteq> [] then c2\<lparr>qs_expand := qf_expand f\<rparr> else c2)"

definition exchangeRedis :: "machine \<Rightarrow> queue_file \<Rightarrow> string" where
  "exchangeRedis mc f = (case env_word mc ''REDIS_URL'' of Some v \<Rightarrow> v | None \<Rightarrow> qf_url f)"

definition internalRedis :: "machine \<Rightarrow> string \<Rightarrow> queue_file \<Rightarrow> string \<Rightarrow> string \<times> string" where
  "internalRedis mc path f exchange =
     (case env_word mc ''REDIS_INTERNAL_URL'' of
        Some v \<Rightarrow> (v, ''REDIS_INTERNAL_URL'')
      | None \<Rightarrow>
          if qf_internal f \<noteq> [] then (qf_internal f, path)
          else if exchange \<noteq> [] then (exchange, InternalFromExchange)
          else ([], []))"

section \<open>The configuration\<close>

record config =
  cf_servers :: "string list"
  cf_subject :: string
  cf_name :: string
  cf_queue :: string
  cf_profiles :: string
  cf_data :: string
  cf_reload :: int
  cf_workers :: int
  cf_depth :: int
  cf_full :: string
  cf_expand :: string
  cf_conf :: string
  cf_reserve :: int
  cf_min_budget :: int
  cf_redis :: string
  cf_buckets :: string
  cf_buckets_from :: string
  cf_geo :: string
  cf_geo_timeout :: int
  cf_geo_neg_max :: int
  cf_versions :: "int list"
  cf_level :: int
  cf_heartbeat :: int

definition check_config :: "config \<Rightarrow> err option" where
  "check_config c = guards
     [(cf_servers c = [], Err ''NATS_URL'' ''is empty''),
      (cf_subject c = [] \<or> cf_name c = [] \<or> cf_queue c = [], Err [] ''subject, name and queue must not be empty''),
      (cf_workers c < 1, Err ''WAF_COUNTER_WORKERS'' ''must be positive''),
      (cf_depth c < 1, Err ''queue_max'' ''must be positive''),
      (cf_full c \<notin> {QueueFullDrop, QueueFullWait}, Err ''queue_full'' ''must be drop or wait''),
      (cf_expand c \<notin> {QueueExpandOff, QueueExpandAsk}, Err ''queue_expand'' ''must be off or ask''),
      (cf_reserve c < 0 \<or> cf_min_budget c < 0, Err ''WAF_COUNTER_RESERVE_MS'' ''must not be negative''),
      (cf_versions c = [], Err ''WAF_COUNTER_VERSIONS'' ''is empty'')]"

definition validate_config :: "machine \<Rightarrow> config \<Rightarrow> err + config" where
  "validate_config mc c =
     (case check_config c of
        Some e \<Rightarrow> Inl e
      | None \<Rightarrow>
          (case abs_path mc (cf_profiles c) of
             None \<Rightarrow> Inl (Err ''WAF_COUNTER_PROFILES'' ''getwd'')
           | Some p \<Rightarrow>
               (let d = (if cf_data c = [] then p @ ''.applied'' else cf_data c) in
                case abs_path mc d of
                  None \<Rightarrow> Inl (Err ''WAF_COUNTER_DATA'' ''getwd'')
                | Some q \<Rightarrow> Inr (c\<lparr>cf_profiles := p, cf_data := q\<rparr>))))"

text \<open>The next step of \<open>Load\<close>, where the one before found no error.\<close>

definition step_ok :: "'e + 'a \<Rightarrow> ('a \<Rightarrow> 'e + 'b) \<Rightarrow> 'e + 'b" where
  "step_ok x k = (case x of Inl e \<Rightarrow> Inl e | Inr v \<Rightarrow> k v)"

lemma step_ok_Inr: "step_ok x k = Inr y \<longleftrightarrow> (\<exists>v. x = Inr v \<and> k v = Inr y)"
  by (auto simp: step_ok_def split: sum.splits)

definition setting :: "err + 'a \<Rightarrow> load_error + 'a" where
  "setting x = (case x of Inl e \<Rightarrow> Inl (Setting e) | Inr v \<Rightarrow> Inr v)"

lemma setting_Inr [simp]: "setting x = Inr v \<longleftrightarrow> x = Inr v"
  by (auto simp: setting_def split: sum.splits)

definition default_queue :: queue_settings where
  "default_queue = \<lparr>qs_max = 256, qs_full = QueueFullDrop, qs_expand = QueueExpandOff\<rparr>"

definition conf_file :: "machine \<Rightarrow> load_error + queue_file" where
  "conf_file mc =
     (let path = confPath mc ''WAF_COUNTER_CONF'' in if path \<noteq> [] then loadQueueFile mc path else Inr no_file)"

definition config_Load :: "machine \<Rightarrow> load_error + config" where
  "config_Load mc =
     (let name = env_or mc ''WAF_COUNTER_NAME'' ''counter''; path = confPath mc ''WAF_COUNTER_CONF'' in
      step_ok (setting (envInt mc ''WAF_COUNTER_WORKERS'' (mc_procs mc))) (\<lambda>workers.
      step_ok (conf_file mc) (\<lambda>f.
      let q = (if path \<noteq> [] then applyQueueFile default_queue f else default_queue);
          redis = exchangeRedis mc f; internal = internalRedis mc path f redis in
      step_ok (setting (envIntIfSet mc ''WAF_COUNTER_QUEUE_DEPTH'' (qs_max q))) (\<lambda>depth.
      step_ok (setting (envInt mc ''WAF_COUNTER_RESERVE_MS'' 2)) (\<lambda>reserve.
      step_ok (setting (envInt mc ''WAF_COUNTER_MIN_BUDGET_MS'' 2)) (\<lambda>minb.
      step_ok (setting (envIntList mc ''WAF_COUNTER_VERSIONS'' [2])) (\<lambda>versions.
      step_ok (setting (parseLevel mc (env_or mc ''WAF_COUNTER_LOG'' ''info''))) (\<lambda>lvl.
      step_ok (setting (envDuration mc ''WAF_COUNTER_GEO_TIMEOUT'' 500000000)) (\<lambda>geo_timeout.
      step_ok (setting (envInt mc ''WAF_COUNTER_GEO_NEG_MAX'' 0)) (\<lambda>geo_neg.
      step_ok (setting (envDuration mc ''WAF_HEARTBEAT_EVERY'' 4000000000)) (\<lambda>beat.
      step_ok (setting (envDurationOrZero mc ''WAF_COUNTER_RELOAD_EVERY'' 1000000000)) (\<lambda>reload.
      setting (validate_config mc
        \<lparr>cf_servers = splitList (env_or mc ''NATS_URL'' ''nats://127.0.0.1:4222''),
         cf_subject = env_or mc ''WAF_COUNTER_SUBJECT'' ''waf.req.counter'', cf_name = name,
         cf_queue = env_or mc ''WAF_COUNTER_QUEUE'' name,
         cf_profiles = env_or mc ''WAF_COUNTER_PROFILES'' ''./profiles'',
         cf_data = env_or mc ''WAF_COUNTER_DATA'' [],
         cf_reload = reload, cf_workers = workers, cf_depth = depth,
         cf_full = envOverride mc ''WAF_COUNTER_QUEUE_FULL'' (qs_full q),
         cf_expand = envOverride mc ''WAF_COUNTER_QUEUE_EXPAND'' (qs_expand q),
         cf_conf = path, cf_reserve = reserve, cf_min_budget = minb,
         cf_redis = redis, cf_buckets = fst internal, cf_buckets_from = snd internal,
         cf_geo = env_or mc ''WAF_COUNTER_GEO_ADDR'' [], cf_geo_timeout = geo_timeout, cf_geo_neg_max = geo_neg,
         cf_versions = versions, cf_level = lvl, cf_heartbeat = beat\<rparr>)))))))))))))"

section \<open>Shipping of logs\<close>

definition LogShip :: "machine \<Rightarrow> bool" where
  "LogShip mc =
     (let v = to_lower (trim_space (case mc_env mc ''WAF_LOG_SHIP'' of None \<Rightarrow> [] | Some v \<Rightarrow> v))
      in v \<notin> {''off'', ''0'', ''no'', ''false''})"

definition LogWriter :: "machine \<Rightarrow> string \<Rightarrow> string" where
  "LogWriter mc fallback =
     (let v = trim_space (case mc_env mc ''WAF_LOG_WRITER'' of None \<Rightarrow> [] | Some v \<Rightarrow> v) in
      if v \<noteq> [] then v
      else case mc_host mc of Some name \<Rightarrow> if name \<noteq> [] then name else fallback | None \<Rightarrow> fallback)"

end
