(* ===== verification/Settings_Laws.thy ===== *)
theory Settings_Laws
  imports Settings
begin

text \<open>
  What a process that came up was configured with: every setting is in its range, whichever of the
  environment, \<open>inspector.conf\<close> and the defaults it came from, and the order in which these are
  asked.
\<close>

section \<open>Paths\<close>

definition proper :: "string \<Rightarrow> bool" where
  "proper p \<longleftrightarrow> p \<noteq> [] \<and> p \<noteq> ''.'' \<and> p \<noteq> ''..'' \<and> CHR ''/'' \<notin> set p"

lemma split_on_free: "p \<in> set (split_on c s) \<Longrightarrow> c \<notin> set p"
  by (induction c s arbitrary: p rule: split_on.induct) (auto split: list.splits if_splits)

lemma clean_parts_proper:
  "list_all proper acc \<Longrightarrow> \<forall>p \<in> set ps. CHR ''/'' \<notin> set p \<Longrightarrow> list_all proper (clean_parts True ps acc)"
proof (induction ps arbitrary: acc)
  case Nil
  then show ?case by simp
next
  case (Cons p ps)
  have tl: "list_all proper (tl acc)" using Cons.prems(1) by (cases acc) auto
  consider "p = [] \<or> p = ''.''" | "p = ''..''" | "proper p" "p \<noteq> []" "p \<noteq> ''.''" "p \<noteq> ''..''"
    using Cons.prems(2) by (auto simp: proper_def)
  then show ?case
    by cases (use Cons tl in simp_all)
qed

lemma clean_parts_id: "list_all proper ps \<Longrightarrow> clean_parts r ps acc = rev ps @ acc"
  by (induction r ps acc rule: clean_parts.induct) (auto simp: proper_def)

lemma split_on_none: "c \<notin> set p \<Longrightarrow> split_on c p = [p]"
  by (induction c p rule: split_on.induct) auto

lemma split_on_first: "c \<notin> set p \<Longrightarrow> split_on c (p @ c # s) = p # split_on c s"
  by (induction p) auto

lemma split_join: "ps \<noteq> [] \<Longrightarrow> list_all proper ps \<Longrightarrow> split_on CHR ''/'' (join_parts ps) = ps"
  by (induction ps rule: join_parts.induct) (auto simp: split_on_none split_on_first proper_def)

definition clean_abs :: "string \<Rightarrow> bool" where
  "clean_abs p \<longleftrightarrow> is_abs p \<and> clean_path p = p"

lemma is_abs_Cons [simp]: "is_abs (CHR ''/'' # s)"
  by (simp add: is_abs_def has_prefix_def)

lemma clean_path_abs: "is_abs p \<Longrightarrow> clean_abs (clean_path p)"
proof -
  assume a: "is_abs p"
  let ?ps = "rev (clean_parts True (split_on CHR ''/'' p) [])"
  have pr: "list_all proper ?ps"
    using clean_parts_proper [of "[]" "split_on CHR ''/'' p"] split_on_free by (auto simp: list_all_iff)
  have c: "clean_path p = CHR ''/'' # join_parts ?ps" using a by (simp add: clean_path_def Let_def)
  have "clean_parts True (split_on CHR ''/'' (join_parts ?ps)) [] = rev ?ps"
  proof (cases "?ps = []")
    case True
    then show ?thesis by simp
  next
    case False
    from clean_parts_id [OF pr, of True "[]"] show ?thesis by (simp add: split_join [OF False pr])
  qed
  then have "clean_path (CHR ''/'' # join_parts ?ps) = CHR ''/'' # join_parts ?ps"
    by (simp add: clean_path_def Let_def)
  then show ?thesis unfolding clean_abs_def c by simp
qed

text \<open>A working directory is an absolute path.\<close>

definition machine_ok :: "machine \<Rightarrow> bool" where
  "machine_ok mc \<longleftrightarrow> (case mc_cwd mc of None \<Rightarrow> True | Some wd \<Rightarrow> is_abs wd)"

lemma is_abs_append: "is_abs wd \<Longrightarrow> is_abs (wd @ s)"
  by (cases wd) (auto simp: is_abs_def has_prefix_def)

lemma abs_path_abs: "machine_ok mc \<Longrightarrow> abs_path mc p = Some q \<Longrightarrow> clean_abs q"
  by (auto simp: abs_path_def machine_ok_def split: if_splits intro!: clean_path_abs is_abs_append)

section \<open>What \<open>Load\<close> returns\<close>

definition config_ok :: "config \<Rightarrow> bool" where
  "config_ok c \<longleftrightarrow>
     cf_servers c \<noteq> [] \<and> (\<forall>s \<in> set (cf_servers c). s \<noteq> [] \<and> core s) \<and>
     cf_subject c \<noteq> [] \<and> cf_name c \<noteq> [] \<and> cf_queue c \<noteq> [] \<and>
     1 \<le> cf_workers c \<and> 1 \<le> cf_depth c \<and> cf_full c \<in> {QueueFullDrop, QueueFullWait} \<and>
     cf_expand c \<in> {QueueExpandOff, QueueExpandAsk} \<and> 0 \<le> cf_reserve c \<and> 0 \<le> cf_min_budget c \<and>
     cf_versions c \<noteq> [] \<and> clean_abs (cf_profiles c) \<and> clean_abs (cf_data c) \<and>
     0 < cf_geo_timeout c \<and> 0 < cf_heartbeat c \<and> 0 \<le> cf_reload c"

definition in_range :: "config \<Rightarrow> bool" where
  "in_range c \<longleftrightarrow> in64 (cf_depth c) \<and> in64 (cf_reserve c) \<and> in64 (cf_min_budget c) \<and> in64 (cf_geo_timeout c) \<and>
     in64 (cf_heartbeat c) \<and> in64 (cf_reload c) \<and> (\<forall>v \<in> set (cf_versions c). in64 v)"

lemma envDuration_pos: "envDuration mc name d = Inr v \<Longrightarrow> 0 < d \<Longrightarrow> in64 d \<Longrightarrow> 0 < v \<and> in64 v"
  by (auto simp: envDuration_def dest: go_ParseDuration_in64 split: option.splits if_splits)

lemma envDurationOrZero_nonneg: "envDurationOrZero mc name d = Inr v \<Longrightarrow> 0 \<le> d \<Longrightarrow> in64 d \<Longrightarrow> 0 \<le> v \<and> in64 v"
  by (auto simp: envDurationOrZero_def dest: go_ParseDuration_in64 split: option.splits if_splits)

lemma envInt_in64: "envInt mc name d = Inr v \<Longrightarrow> in64 d \<Longrightarrow> in64 v"
  by (auto simp: envInt_def envIntIfSet_def dest: atoi_in64 split: option.splits)

lemma int_list_in64: "int_list name ps = Inr vs \<Longrightarrow> \<forall>v \<in> set vs. in64 v"
  by (induction name ps arbitrary: vs rule: int_list.induct)
    (auto dest: atoi_in64 split: option.splits sum.splits)

lemma envIntList_in64: "envIntList mc name d = Inr vs \<Longrightarrow> \<forall>v \<in> set d. in64 v \<Longrightarrow> \<forall>v \<in> set vs. in64 v"
  by (auto simp: envIntList_def dest: int_list_in64 split: option.splits)

lemma splitList_words: "p \<in> set (splitList s) \<Longrightarrow> p \<noteq> [] \<and> core p"
  by (auto simp: splitList_def)

text \<open>The queue as the defaults and the file have it.\<close>

definition file_queue :: "machine \<Rightarrow> queue_file \<Rightarrow> queue_settings" where
  "file_queue mc f = (if confPath mc ''WAF_COUNTER_CONF'' \<noteq> [] then applyQueueFile default_queue f else default_queue)"

lemma meaning_max: "list_all (assign_ok u) as \<Longrightarrow> qf_max (meaning as) = Some n \<Longrightarrow> 1 \<le> n \<and> in64 n"
proof -
  assume h: "list_all (assign_ok u) as" "qf_max (meaning as) = Some n"
  then obtain v where v: "map_of as ''queue_max'' = Some v" "atoi v = Some n"
    by (auto simp: meaning_def bind_eq_Some_conv)
  with h(1) have "assign_ok u (''queue_max'', v)" by (auto simp: list_all_iff dest: map_of_SomeD)
  with v(2) show ?thesis by (auto simp: assign_ok_def dest: atoi_in64)
qed

lemma conf_max: "parseQueueFile u src = Inr f \<Longrightarrow> qf_max f = Some n \<Longrightarrow> 1 \<le> n \<and> in64 n"
  using parse_means [of u src f] meaning_max by blast

lemma conf_file_max: "conf_file mc = Inr f \<Longrightarrow> qf_max f = Some n \<Longrightarrow> 1 \<le> n \<and> in64 n"
  by (auto simp: conf_file_def loadQueueFile_def no_file_def conf_max Let_def split: option.splits sum.splits if_splits)

lemma file_queue_max: "conf_file mc = Inr f \<Longrightarrow> 1 \<le> qs_max (file_queue mc f) \<and> in64 (qs_max (file_queue mc f))"
  using conf_file_max [of mc f]
  by (auto simp: file_queue_def applyQueueFile_def default_queue_def in64_def Let_def split: option.splits)

text \<open>The first of the layers that says something.\<close>

definition layered :: "'a option list \<Rightarrow> 'a \<Rightarrow> 'a" where
  "layered xs d = (case concat (map (\<lambda>x. case x of None \<Rightarrow> [] | Some v \<Rightarrow> [v]) xs) of [] \<Rightarrow> d | v # _ \<Rightarrow> v)"

definition word :: "string \<Rightarrow> string option" where
  "word s = (if s = [] then None else Some s)"

lemma layered_simps:
  "layered [] d = d" "layered (None # xs) d = layered xs d" "layered (Some v # xs) d = v"
  by (simp_all add: layered_def)

lemma conf_file_queue:
  assumes "conf_file mc = Inr f"
  shows "qs_max (file_queue mc f) = layered [qf_max f] 256"
    and "qs_full (file_queue mc f) = layered [word (qf_full f)] QueueFullDrop"
    and "qs_expand (file_queue mc f) = layered [word (qf_expand f)] QueueExpandOff"
  using assms
  by (auto simp: file_queue_def applyQueueFile_def default_queue_def conf_file_def no_file_def Let_def
      layered_simps word_def split: option.splits if_splits)

lemma Load_parts:
  assumes "config_Load mc = Inr c"
  obtains c0 f where
    "validate_config mc c0 = Inr c" and "conf_file mc = Inr f"
    and "envIntIfSet mc ''WAF_COUNTER_QUEUE_DEPTH'' (qs_max (file_queue mc f)) = Inr (cf_depth c0)"
    and "cf_full c0 = envOverride mc ''WAF_COUNTER_QUEUE_FULL'' (qs_full (file_queue mc f))"
    and "cf_expand c0 = envOverride mc ''WAF_COUNTER_QUEUE_EXPAND'' (qs_expand (file_queue mc f))"
    and "envInt mc ''WAF_COUNTER_RESERVE_MS'' 2 = Inr (cf_reserve c0)"
    and "envInt mc ''WAF_COUNTER_MIN_BUDGET_MS'' 2 = Inr (cf_min_budget c0)"
    and "envIntList mc ''WAF_COUNTER_VERSIONS'' [2] = Inr (cf_versions c0)"
    and "envDuration mc ''WAF_COUNTER_GEO_TIMEOUT'' 500000000 = Inr (cf_geo_timeout c0)"
    and "envDuration mc ''WAF_HEARTBEAT_EVERY'' 4000000000 = Inr (cf_heartbeat c0)"
    and "envDurationOrZero mc ''WAF_COUNTER_RELOAD_EVERY'' 1000000000 = Inr (cf_reload c0)"
    and "cf_servers c0 = splitList (env_or mc ''NATS_URL'' ''nats://127.0.0.1:4222'')"
    and "cf_redis c0 = exchangeRedis mc f"
    and "(cf_buckets c0, cf_buckets_from c0) = internalRedis mc (confPath mc ''WAF_COUNTER_CONF'') f (exchangeRedis mc f)"
proof -
  from assms show thesis
    unfolding config_Load_def Let_def file_queue_def [symmetric] step_ok_Inr setting_Inr
    by (elim exE conjE) (rule that, assumption, assumption, simp_all)
qed

lemma validate_config_Inr:
  "validate_config mc c0 = Inr c \<Longrightarrow> check_config c0 = None \<and>
     (\<exists>p q. abs_path mc (cf_profiles c0) = Some p \<and>
        abs_path mc (if cf_data c0 = [] then p @ ''.applied'' else cf_data c0) = Some q \<and>
        c = c0\<lparr>cf_profiles := p, cf_data := q\<rparr>)"
  by (auto simp: validate_config_def Let_def split: option.splits if_splits)

lemma Load_ok:
  assumes "machine_ok mc" and "config_Load mc = Inr c"
  shows "config_ok c \<and> in_range c"
  using assms(2)
proof (rule Load_parts)
  fix c0 f
  assume v: "validate_config mc c0 = Inr c" and f: "conf_file mc = Inr f"
    and depth: "envIntIfSet mc ''WAF_COUNTER_QUEUE_DEPTH'' (qs_max (file_queue mc f)) = Inr (cf_depth c0)"
    and ints: "envInt mc ''WAF_COUNTER_RESERVE_MS'' 2 = Inr (cf_reserve c0)"
      "envInt mc ''WAF_COUNTER_MIN_BUDGET_MS'' 2 = Inr (cf_min_budget c0)"
    and vs: "envIntList mc ''WAF_COUNTER_VERSIONS'' [2] = Inr (cf_versions c0)"
    and durs: "envDuration mc ''WAF_COUNTER_GEO_TIMEOUT'' 500000000 = Inr (cf_geo_timeout c0)"
      "envDuration mc ''WAF_HEARTBEAT_EVERY'' 4000000000 = Inr (cf_heartbeat c0)"
      "envDurationOrZero mc ''WAF_COUNTER_RELOAD_EVERY'' 1000000000 = Inr (cf_reload c0)"
    and sv: "cf_servers c0 = splitList (env_or mc ''NATS_URL'' ''nats://127.0.0.1:4222'')"
  from validate_config_Inr [OF v] obtain p q where pq: "check_config c0 = None"
      "abs_path mc (cf_profiles c0) = Some p"
      "abs_path mc (if cf_data c0 = [] then p @ ''.applied'' else cf_data c0) = Some q"
      "c = c0\<lparr>cf_profiles := p, cf_data := q\<rparr>" by blast
  have paths: "clean_abs p" "clean_abs q" using abs_path_abs [OF assms(1)] pq by auto
  have "in64 (cf_depth c0)"
    using envInt_in64 [unfolded envInt_def, OF depth] file_queue_max [OF f] by blast
  moreover have "in64 (cf_reserve c0)" "in64 (cf_min_budget c0)"
    using envInt_in64 [OF ints(1)] envInt_in64 [OF ints(2)] by (simp_all add: in64_def)
  moreover have "\<forall>v \<in> set (cf_versions c0). in64 v" using envIntList_in64 [OF vs] by (simp add: in64_def)
  moreover have "0 < cf_geo_timeout c0 \<and> in64 (cf_geo_timeout c0)" "0 < cf_heartbeat c0 \<and> in64 (cf_heartbeat c0)"
      "0 \<le> cf_reload c0 \<and> in64 (cf_reload c0)"
    using envDuration_pos [OF durs(1)] envDuration_pos [OF durs(2)] envDurationOrZero_nonneg [OF durs(3)]
    by (simp_all add: in64_def)
  moreover have "\<forall>s \<in> set (cf_servers c0). s \<noteq> [] \<and> core s" unfolding sv using splitList_words by blast
  ultimately show ?thesis
    using pq(1) paths unfolding pq(4) config_ok_def in_range_def check_config_def by auto
qed

section \<open>A concrete machine\<close>

text \<open>
  The image: \<open>inspector.conf\<close> as it is shipped, from its first directive on, and some variables.
\<close>

definition shipped_conf :: string where
  "shipped_conf = concat (map (\<lambda>l. l @ [newline])
     [''queue_max     256;'', ''queue_full    drop;'', ''queue_expand  off;'', [],
      ''# Redis addresses, the same form as in agent.conf; REDIS_URL and REDIS_INTERNAL_URL override them.'',
      ''#   url       exchange: request snapshot'', ''#   internal  internal Redis: counter buckets'', ''redis {'', ''    url       redis://redis:6379;'',
      ''    internal  redis://redis-internal:6379;'', ''}''])"

definition simple_url :: url_parser where
  "simple_url s = (if has_prefix s ''redis://'' then Some (''redis'', drop 8 s) else None)"

definition demo_machine :: machine where
  "demo_machine =
     \<lparr>mc_env = [''WAF_COUNTER_QUEUE_FULL'' \<mapsto> '' wait '', ''WAF_HEARTBEAT_EVERY'' \<mapsto> ''1m30s'',
        ''WAF_COUNTER_VERSIONS'' \<mapsto> ''2, 3''],
      mc_is_file = (\<lambda>p. p = ''inspector.conf''), mc_read = [''inspector.conf'' \<mapsto> shipped_conf],
      mc_cwd = Some ''/app'', mc_procs = 4, mc_host = None, mc_url = simple_url, mc_level = (\<lambda>_. Inr 0)\<rparr>"

lemma shipped_conf_read:
  "parseQueueFile simple_url shipped_conf =
     Inr \<lparr>qf_max = Some 256, qf_full = ''drop'', qf_expand = ''off'', qf_url = ''redis://redis:6379'',
       qf_internal = ''redis://redis-internal:6379''\<rparr>"
  by code_simp

lemma demo_machine_ok: "machine_ok demo_machine"
  by (simp add: machine_ok_def demo_machine_def is_abs_def has_prefix_def)

definition demo_config :: config where
  "demo_config =
     \<lparr>cf_servers = [''nats://127.0.0.1:4222''], cf_subject = ''waf.req.counter'', cf_name = ''counter'',
      cf_queue = ''counter'', cf_profiles = ''/app/profiles'', cf_data = ''/app/profiles.applied'',
      cf_reload = 1000000000, cf_workers = 4, cf_depth = 256, cf_full = ''wait'', cf_expand = ''off'',
      cf_conf = ''inspector.conf'', cf_reserve = 2, cf_min_budget = 2, cf_redis = ''redis://redis:6379'',
      cf_buckets = ''redis://redis-internal:6379'', cf_buckets_from = ''inspector.conf'', cf_geo = [],
      cf_geo_timeout = 500000000, cf_geo_neg_max = 0, cf_versions = [2, 3], cf_level = 0,
      cf_heartbeat = 90000000000\<rparr>"

lemma demo_Load: "config_Load demo_machine = Inr demo_config"
  by code_simp

text \<open>Only a blank separates a directive from its value, though the check of the value knows tabs.\<close>

lemma tab_is_no_separator:
  "parseQueueFile u (''queue_max'' @ [CHR 0x09] @ ''256;'') =
     Inl (1, Err (''queue_max'' @ [CHR 0x09] @ ''256'') ''has no value'')"
  by code_simp

section \<open>Properties\<close>

text \<open>
  C26 (type): a configuration that \<open>Load\<close> returns is one the process can run with: there are servers,
  names, a worker, room in the queue and a version to answer; the mode of the queue is one of the
  known ones; no time that feeds a ticker or a timeout is zero or negative; the directories are
  absolute paths in their shortest form; every number fits its machine integer.
\<close>

theorem loaded_config_sane:
  assumes "machine_ok mc" and "config_Load mc = Inr c"
  shows "config_ok c \<and> in_range c"
  by (rule Load_ok [OF assms])

theorem loaded_config_sane_witness: "config_ok demo_config \<and> in_range demo_config"
  by (rule loaded_config_sane [OF demo_machine_ok demo_Load])

text \<open>
  Where a setting comes from: the mode of the queue and of its expansion, its
  depth and the exchange are the environment's where it has a word for them, else those of
  \<open>inspector.conf\<close>, else the defaults; the buckets are in the Redis of their own variable, else the
  internal one of the file, else the exchange, else in the process.
\<close>

theorem settings_layered:
  assumes "config_Load mc = Inr c"
  shows "\<exists>f. conf_file mc = Inr f \<and>
    cf_depth c = layered [Option.bind (env_set mc ''WAF_COUNTER_QUEUE_DEPTH'') (\<lambda>raw. atoi (trim_space raw)), qf_max f] 256 \<and>
    cf_full c = layered [env_word mc ''WAF_COUNTER_QUEUE_FULL'', word (qf_full f)] QueueFullDrop \<and>
    cf_expand c = layered [env_word mc ''WAF_COUNTER_QUEUE_EXPAND'', word (qf_expand f)] QueueExpandOff \<and>
    cf_redis c = layered [env_word mc ''REDIS_URL'', word (qf_url f)] [] \<and>
    cf_buckets c = layered [env_word mc ''REDIS_INTERNAL_URL'', word (qf_internal f), word (cf_redis c)] []"
  using assms
proof (rule Load_parts)
  fix c0 f
  assume h: "validate_config mc c0 = Inr c" "conf_file mc = Inr f"
    "envIntIfSet mc ''WAF_COUNTER_QUEUE_DEPTH'' (qs_max (file_queue mc f)) = Inr (cf_depth c0)"
    "cf_full c0 = envOverride mc ''WAF_COUNTER_QUEUE_FULL'' (qs_full (file_queue mc f))"
    "cf_expand c0 = envOverride mc ''WAF_COUNTER_QUEUE_EXPAND'' (qs_expand (file_queue mc f))"
    "cf_redis c0 = exchangeRedis mc f"
    "(cf_buckets c0, cf_buckets_from c0) = internalRedis mc (confPath mc ''WAF_COUNTER_CONF'') f (exchangeRedis mc f)"
  note q = conf_file_queue [OF h(2)]
  from validate_config_Inr [OF h(1)] obtain p d where c: "c = c0\<lparr>cf_profiles := p, cf_data := d\<rparr>" by blast
  have "cf_depth c = layered [Option.bind (env_set mc ''WAF_COUNTER_QUEUE_DEPTH'') (\<lambda>raw. atoi (trim_space raw)), qf_max f] 256"
    using h(3) q(1) by (auto simp: c envIntIfSet_def layered_simps split: option.splits)
  moreover have "cf_full c = layered [env_word mc ''WAF_COUNTER_QUEUE_FULL'', word (qf_full f)] QueueFullDrop"
    using h(4) q(2) by (auto simp: c envOverride_def layered_simps split: option.splits)
  moreover have "cf_expand c = layered [env_word mc ''WAF_COUNTER_QUEUE_EXPAND'', word (qf_expand f)] QueueExpandOff"
    using h(5) q(3) by (auto simp: c envOverride_def layered_simps split: option.splits)
  moreover have r: "cf_redis c = layered [env_word mc ''REDIS_URL'', word (qf_url f)] []"
    using h(6) by (auto simp: c exchangeRedis_def layered_simps word_def split: option.splits)
  moreover have "cf_buckets c = layered [env_word mc ''REDIS_INTERNAL_URL'', word (qf_internal f), word (cf_redis c)] []"
    using h(6,7) by (auto simp: c internalRedis_def layered_simps word_def split: option.splits if_splits)
  ultimately show ?thesis using h(2) by blast
qed

theorem settings_layered_witness:
  "cf_full demo_config = layered [env_word demo_machine ''WAF_COUNTER_QUEUE_FULL'', Some ''drop''] QueueFullDrop \<and>
   cf_full demo_config = ''wait''"
proof -
  have "conf_file demo_machine = Inr f \<longleftrightarrow> f = \<lparr>qf_max = Some 256, qf_full = ''drop'', qf_expand = ''off'',
       qf_url = ''redis://redis:6379'', qf_internal = ''redis://redis-internal:6379''\<rparr>" for f
    using shipped_conf_read by (auto simp: conf_file_def confPath_def env_word_def loadQueueFile_def demo_machine_def)
  then show ?thesis using settings_layered [OF demo_Load] by (auto simp: word_def demo_config_def)
qed

end
