(* ===== verification/Probe.thy ===== *)
theory Probe
  imports Handler_Laws Settings_Laws Buckets_Redis
begin

text \<open>
  \<open>cmd/probe/main.go\<close>: the health check of the container, a client that sends one request and
  compares the verdict.  The command line has been parsed; the bus, which brings the answer or an
  error, and JSON are parameters.  The probe's rule reads a bucket like any other: over Redis a probe
  fails when Redis does.
\<close>

section \<open>The request\<close>

record probe_args =
  pa_servers :: string
  pa_subject :: string
  pa_name :: string
  pa_profile :: string
  pa_uri :: string
  pa_method :: string
  pa_phase :: string
  pa_status :: int
  pa_expect :: string
  pa_timeout :: int

text \<open>The flags without a command line.\<close>

definition probe_defaults :: "machine \<Rightarrow> probe_args" where
  "probe_defaults mc =
     \<lparr>pa_servers = env_or mc ''NATS_URL'' ''nats://127.0.0.1:4222'',
      pa_subject = env_or mc ''WAF_COUNTER_SUBJECT'' ''waf.req.counter'',
      pa_name = env_or mc ''WAF_COUNTER_NAME'' ''counter'', pa_profile = ''_probe'', pa_uri = ''/healthcheck'',
      pa_method = ''GET'', pa_phase = PhaseRequest, pa_status = 200, pa_expect = VerdictDeny,
      pa_timeout = 1000000000\<rparr>"

text \<open>\<open>fmt.Sprintf("%016x", n)\<close>: sixteen places, the sign among them.\<close>

fun hex_nat :: "nat \<Rightarrow> string" where
  "hex_nat n = (if n < 10 then [char_of (48 + n)] else if n < 16 then [char_of (87 + n)] else hex_nat (n div 16) @ hex_nat (n mod 16))"

declare hex_nat.simps [simp del]

definition pad_zero :: "nat \<Rightarrow> string \<Rightarrow> string" where
  "pad_zero w s = replicate (w - length s) CHR ''0'' @ s"

definition hex16 :: "int \<Rightarrow> string" where
  "hex16 n = (if n < 0 then CHR ''-'' # pad_zero 15 (hex_nat (nat (- n))) else pad_zero 16 (hex_nat (nat n)))"

definition no_objects :: obj_store where
  "no_objects = \<lparr>st_headers = None, st_args = None, st_body = None\<rparr>"

definition probe_message :: "probe_args \<Rightarrow> int \<Rightarrow> request" where
  "probe_message a now =
     (case cut (pa_uri a) CHR ''?'' of
        (path, args, _) \<Rightarrow>
          \<lparr>rq_v = Version, rq_rid = hex16 now, rq_ray = [], rq_phase = pa_phase a, rq_wave = 0,
           rq_inspector = pa_name a, rq_deadline_ms = pa_timeout a sdiv 1000000, rq_audit_subject = None,
           rq_node = ''probe'',
           rq_conn = \<lparr>client_ip = ''127.0.0.1'', client_port = 12345, server_ip = ''127.0.0.1'', server_port = 8080,
             conn_tls = None\<rparr>,
           rq_http = \<lparr>http_method = pa_method a, http_scheme = ''http'', http_host = ''probe.local'', http_uri = path,
             http_args_size = int (length args), http_version = ''HTTP/1.1''\<rparr>,
           rq_vars = [], rq_needs = [], rq_store = no_objects,
           rq_route = \<lparr>rt_server_name = ''probe.local'', rt_location = ''/'', rt_profile = pa_profile a\<rparr>,
           rq_score = \<lparr>sc_total = 0, sc_deny_at = 100\<rparr>, rq_prior = [], rq_sessions = [],
           rq_response = (if pa_phase a = PhaseResponse then
               Some \<lparr>rsp_status = pa_status a, rsp_headers = [], rsp_upstream_ms = 0\<rparr> else None),
           rq_request_store = no_objects, rq_resume = None, rq_release = None, rq_conn_id = [], rq_seq = 0,
           rq_stream = None\<rparr>)"

section \<open>The answer\<close>

text \<open>\<open>run\<close> after the request was sent: no error is the exit code zero.\<close>

definition probe_check :: "(string \<Rightarrow> reply option) \<Rightarrow> string \<Rightarrow> err + string \<Rightarrow> err option" where
  "probe_check decode expect got =
     (case got of
        Inl e \<Rightarrow> Some (Err ''probe'' ''no verdict'')
      | Inr payload \<Rightarrow>
          (case decode payload of
             None \<Rightarrow> Some (Err ''probe'' ''malformed reply'')
           | Some r \<Rightarrow>
               if expect \<noteq> [] \<and> rp_verdict r \<noteq> expect then Some (Err ''probe'' ''unexpected verdict'') else None))"

definition probe_run ::
    "(request \<Rightarrow> string) \<Rightarrow> (string \<Rightarrow> reply option) \<Rightarrow> (string \<Rightarrow> string \<Rightarrow> err + string)
     \<Rightarrow> probe_args \<Rightarrow> int \<Rightarrow> err option" where
  "probe_run encode decode bus a now =
     probe_check decode (pa_expect a) (bus (pa_subject a) (encode (probe_message a now)))"

section \<open>The probe meets the inspector\<close>

lemma hex_nat_nonempty: "hex_nat n \<noteq> []"
  by (induction n rule: hex_nat.induct) (subst hex_nat.simps, simp)

lemma hex16_nonempty [simp]: "hex16 n \<noteq> []"
  by (simp add: hex16_def pad_zero_def hex_nat_nonempty)

text \<open>Arguments that make a request the inspector takes.\<close>

definition args_ok :: "probe_args \<Rightarrow> bool" where
  "args_ok a \<longleftrightarrow> pa_name a \<noteq> [] \<and> pa_method a \<noteq> [] \<and> fst (cut (pa_uri a) CHR ''?'') \<noteq> [] \<and>
     pa_phase a \<in> {PhaseRequest, PhaseResponse}"

lemma defaults_args_ok: "args_ok (probe_defaults mc)"
proof -
  have "fst (cut ''/healthcheck'' CHR ''?'') \<noteq> []" by code_simp
  moreover have "env_or mc ''WAF_COUNTER_NAME'' ''counter'' \<noteq> []"
    by (auto simp: env_or_def env_set_def split: option.split)
  ultimately show ?thesis by (simp add: args_ok_def probe_defaults_def)
qed

lemma probe_message_fields:
  "rq_v (probe_message a n) = Version" "rq_rid (probe_message a n) = hex16 n" "rq_phase (probe_message a n) = pa_phase a"
  "rq_inspector (probe_message a n) = pa_name a" "rq_release (probe_message a n) = None"
  "rq_store (probe_message a n) = no_objects" "rq_request_store (probe_message a n) = no_objects"
  "http_method (rq_http (probe_message a n)) = pa_method a"
  "http_uri (rq_http (probe_message a n)) = fst (cut (pa_uri a) CHR ''?'')"
  "client_ip (rq_conn (probe_message a n)) = ''127.0.0.1''"
  "rt_profile (rq_route (probe_message a n)) = pa_profile a"
  by (simp_all add: probe_message_def split_beta)

lemma no_objects_valid: "validate_store w no_objects = None"
  by (simp add: no_objects_def validate_store_def validate_locator_def)

lemma probe_received:
  assumes "args_ok a" and "Supports e Version" and "en_unmarshal e payload = Some (probe_message a n)"
  shows "receive e payload inbox =
    Submitted \<lparr>tk_req = probe_message a n, tk_reply = inbox, tk_personal = False, tk_fill = 0, tk_enqueued = 0\<rparr>"
proof -
  have "Parse (en_unmarshal e) payload = Inr (probe_message a n)"
    using assms(1) by (auto simp: Parse_def assms(3) probe_message_fields args_ok_def no_objects_valid)
  then show ?thesis using assms(1,2) by (auto simp: receive_def probe_message_fields args_ok_def)
qed

text \<open>
  What the inspector answers to the probe: its message is received, waits, is evaluated by a worker
  at some fill and time, and the reply goes to the inbox of the request.
\<close>

definition answered_by :: "'s env \<Rightarrow> snapshot \<Rightarrow> int \<Rightarrow> int \<Rightarrow> int \<Rightarrow> int \<Rightarrow> f64 \<Rightarrow> 's \<Rightarrow> string \<Rightarrow> string \<Rightarrow> err + string" where
  "answered_by e sn fill enq budget now ms s inbox payload =
     (case receive e payload inbox of
        Submitted t \<Rightarrow>
          (case responses (fst (snd (evaluate e (Some sn) (t\<lparr>tk_fill := fill, tk_enqueued := enq\<rparr>) budget [] now ms s))) of
             (to, p) # _ \<Rightarrow> if to = inbox then Inr p else Inl (Err ''nats'' ''timeout'')
           | [] \<Rightarrow> Inl (Err ''nats'' ''timeout''))
      | _ \<Rightarrow> Inl (Err ''nats'' ''timeout''))"

lemma probe_answered:
  assumes "snap_profile (Some sn) (pa_profile a) = Some probe_profile"
    and "args_ok a" and "pa_phase a = PhaseRequest" and "Supports e Version" and "inbox \<noteq> []"
    and "en_unmarshal e payload = Some (probe_message a n)"
    and call: "en_apply e s (sn_tiers sn) [] [probe_bucket ''127.0.0.1''] now = (s1, r)"
  shows "case r of
     Inl x \<Rightarrow> \<exists>rep. answered_by e sn fill enq budget now ms s inbox payload = Inr (en_encode e rep) \<and> rp_verdict rep = VerdictError
   | Inr ls \<Rightarrow> not_below ls \<longrightarrow>
       (\<exists>rep. answered_by e sn fill enq budget now ms s inbox payload = Inr (en_encode e rep) \<and> rp_verdict rep = VerdictDeny)"
proof -
  let ?t = "\<lparr>tk_req = probe_message a n, tk_reply = inbox, tk_personal = False, tk_fill = fill, tk_enqueued = enq\<rparr>"
  let ?i = "inspect e (Some sn) (probe_message a n) fill now ms s"
  have prof: "snap_profile (Some sn) (rt_profile (rq_route (probe_message a n))) = Some probe_profile"
    "rq_phase (probe_message a n) = PhaseRequest" "client_ip (rq_conn (probe_message a n)) \<noteq> []"
    using assms(1,3) by (simp_all add: probe_message_fields)
  note i = probe_inspected [OF prof, of e s now s1 r fill ms, unfolded probe_message_fields(10), OF call]
  have ans: "answered_by e sn fill enq budget now ms s inbox payload = Inr (en_encode e (an_reply t))" if "?i = Done t" for t
    using probe_received [OF assms(2,4,6), of inbox] evaluate_sends [of ?t e "Some sn" budget now ms s] assms(5) that
    by (simp add: answered_by_def)
  show ?thesis
  proof (cases r)
    case (Inl x)
    with i obtain det where "?i = Done (answer s1 (ErrorReply (probe_message a n) CodeBucketsUnavailable) det [])" by auto
    from ans [OF this] Inl show ?thesis by (auto simp: reply_defs)
  next
    case (Inr ls)
    with i have "not_below ls \<Longrightarrow> denied_with ''counter_limit'' ''CNT_PROBE'' ?i" by simp
    with ans Inr show ?thesis by (cases ?i) auto
  qed
qed

text \<open>Neither store has levels below zero; the ledger of the process always answers.\<close>

lemma local_answers:
  assumes "tiers_ok ts" and "ledger_ok (l_m l)"
  obtains l' ls where "local_apply iter l ts [] rs now = (l', Inr ls)" "not_below ls"
proof -
  obtain l' ls where a: "Apply iter l ts [] rs now = (l', ls)" by force
  then have c: "local_apply iter l ts [] rs now = (l', Inr ls)" by (simp add: local_apply_def)
  have "list_all (\<lambda>l. percent_ok (lv_percent l)) ls"
    by (rule lb.percents [OF assms(2,1), of "[]" iter rs now]) (simp_all add: charges_ok_def c)
  then have "not_below ls" by (simp add: not_below_def list_all_iff percent_not_below)
  with c that show thesis by blast
qed

lemma redis_not_below:
  assumes "tiers_ok ts" and "ApplyClient srv r ts [] rs now = (r', Inr ls)"
  shows "not_below ls"
proof -
  have "charges_ok []" by (simp add: charges_ok_def)
  from ApplyClient_each [OF assms(1) this assms(2)]
  have l: "\<forall>i < length ls. level_ok ts (ls ! i) \<or> lv_percent (ls ! i) = NaN" by blast
  have "\<not> flt (lv_percent x) (Fin 0)" if x: "x \<in> set ls" for x
  proof -
    from x l have "level_ok ts x \<or> lv_percent x = NaN" by (auto simp: in_set_conv_nth)
    then show ?thesis
    proof
      assume "level_ok ts x"
      then have "percent_ok (lv_percent x)" by (simp add: level_ok_def percent_ok_def)
      then show ?thesis by (rule percent_not_below)
    qed simp
  qed
  then show ?thesis by (simp add: not_below_def list_all_iff)
qed

section \<open>Properties\<close>

text \<open>
  C23 (functional): the health check tells whether the counter judges.  The request that the probe
  builds without flags is understood, is submitted and is judged by the probe profile, whose rule
  reads one bucket.  If the buckets answer, the denial reaches the probe and it ends without an error:
  always over the ledger of the process, and over Redis whatever its server answered, as long as the
  call succeeds.  If the call fails, which over Redis it does when the server is silent, the probe
  ends with an error.  And it ends without one only where an answer with the verdict it expects came
  back.
\<close>

theorem health_check_passes:
  fixes e :: "'s env" and s :: 's and fill enq budget now :: int and ms :: f64
  assumes "tiers_ok (sn_tiers sn)"
    and "snap_profile (Some sn) ''_probe'' = Some probe_profile" and "Supports e Version" and "inbox \<noteq> []"
    and "en_unmarshal e (encode (probe_message (probe_defaults mc) n)) = Some (probe_message (probe_defaults mc) n)"
    and "\<And>r. \<exists>r'. decode (en_encode e r) = Some r' \<and> rp_verdict r' = rp_verdict r"
  defines "checked \<equiv> probe_run encode decode (\<lambda>subject. answered_by e sn fill enq budget now ms s inbox) (probe_defaults mc) n"
  shows "(case snd (en_apply e s (sn_tiers sn) [] [probe_bucket ''127.0.0.1''] now) of
       Inl x \<Rightarrow> checked \<noteq> None
     | Inr ls \<Rightarrow> not_below ls \<longrightarrow> checked = None) \<and>
    (\<forall>iter l. ledger_ok (l_m l) \<longrightarrow> (\<exists>l' ls. not_below ls \<and>
       local_apply iter l (sn_tiers sn) [] [probe_bucket ''127.0.0.1''] now = (l', Inr ls))) \<and>
    (\<forall>srv r r' ls. ApplyClient srv r (sn_tiers sn) [] [probe_bucket ''127.0.0.1''] now = (r', Inr ls) \<longrightarrow> not_below ls) \<and>
    (\<forall>bus. probe_run encode decode bus (probe_defaults mc) n = None \<longrightarrow>
       (\<exists>payload r. bus (pa_subject (probe_defaults mc)) (encode (probe_message (probe_defaults mc) n)) = Inr payload \<and>
          decode payload = Some r \<and> rp_verdict r = VerdictDeny))"
proof (intro conjI allI impI)
  have d: "pa_profile (probe_defaults mc) = ''_probe''" "pa_phase (probe_defaults mc) = PhaseRequest"
    "pa_expect (probe_defaults mc) = VerdictDeny" by (simp_all add: probe_defaults_def)
  obtain s1 r where call: "en_apply e s (sn_tiers sn) [] [probe_bucket ''127.0.0.1''] now = (s1, r)" by force
  have p: "snap_profile (Some sn) (pa_profile (probe_defaults mc)) = Some probe_profile" using assms(2) d(1) by simp
  note a = probe_answered [OF p defaults_args_ok d(2) assms(3,4,5) call, of fill enq budget ms]
  have c: "checked = None \<longleftrightarrow> rp_verdict rep = VerdictDeny"
    if "answered_by e sn fill enq budget now ms s inbox (encode (probe_message (probe_defaults mc) n)) = Inr (en_encode e rep)" for rep
  proof -
    obtain rep' where "decode (en_encode e rep) = Some rep'" "rp_verdict rep' = rp_verdict rep" using assms(6) by blast
    with that show ?thesis by (simp add: checked_def probe_run_def probe_check_def d)
  qed
  show "case snd (en_apply e s (sn_tiers sn) [] [probe_bucket ''127.0.0.1''] now) of
       Inl x \<Rightarrow> checked \<noteq> None | Inr ls \<Rightarrow> not_below ls \<longrightarrow> checked = None"
    unfolding call snd_conv using a c by (cases r) (fastforce split: sum.splits)+
next
  fix iter :: "string list \<Rightarrow> string list" and l :: ledger assume "ledger_ok (l_m l)"
  from local_answers [OF assms(1) this] show "\<exists>l' ls. not_below ls \<and>
       local_apply iter l (sn_tiers sn) [] [probe_bucket ''127.0.0.1''] now = (l', Inr ls)" by metis
next
  fix srv r r' ls assume "ApplyClient srv r (sn_tiers sn) [] [probe_bucket ''127.0.0.1''] now = (r', Inr ls)"
  then show "not_below ls" by (rule redis_not_below [OF assms(1)])
next
  fix bus
  assume "probe_run encode decode bus (probe_defaults mc) n = None"
  moreover have "pa_expect (probe_defaults mc) = VerdictDeny" by (simp add: probe_defaults_def)
  ultimately show "\<exists>payload r. bus (pa_subject (probe_defaults mc)) (encode (probe_message (probe_defaults mc) n)) = Inr payload \<and>
      decode payload = Some r \<and> rp_verdict r = VerdictDeny"
    by (auto simp: probe_run_def probe_check_def split: sum.splits option.splits if_splits)
qed

definition probed_env :: "request \<Rightarrow> ledger env" where
  "probed_env m = demo_env\<lparr>en_unmarshal := (\<lambda>_. Some m)\<rparr>"

theorem health_check_passes_witness:
  "\<exists>bus. probe_run (\<lambda>_. []) (\<lambda>v. Some (mkReply 2 [] [] v)) bus (probe_defaults demo_machine) 1704067300000000000 = None"
proof -
  let ?m = "probe_message (probe_defaults demo_machine) 1704067300000000000" and ?s = "newLedger 100"
  have l: "ledger_ok (l_m ?s)" and ts: "tiers_ok (sn_tiers probe_snapshot)" and v: "Supports (probed_env ?m) Version"
    and ap: "en_apply (probed_env ?m) = local_apply id" and um: "en_unmarshal (probed_env ?m) [] = Some ?m"
    by (simp_all add: probed_env_def demo_env_def newLedger_def ledger_ok_def probe_snapshot_def demo_snapshot_def
        shipped_tiers_ok Supports_def)
  have dc: "\<exists>r'. Some (mkReply 2 [] [] (en_encode (probed_env ?m) r)) = Some r' \<and> rp_verdict r' = rp_verdict r" for r
    by (simp add: probed_env_def demo_env_def mkReply_def)
  obtain l' ls where a: "local_apply id ?s (sn_tiers probe_snapshot) [] [probe_bucket ''127.0.0.1''] 1704067300000000000 = (l', Inr ls)"
    "not_below ls" using local_answers [OF ts l] by metis
  note h = health_check_passes [where e = "probed_env ?m" and s = ?s and inbox = "''_INBOX.1''" and encode = "\<lambda>_. []"
      and decode = "\<lambda>v. Some (mkReply 2 [] [] v)" and now = 1704067300000000000 and fill = 0 and enq = 0 and budget = 0
      and ms = "Fin 0", OF ts probe_snapshot_profile v _ um dc]
  have "probe_run (\<lambda>_. []) (\<lambda>v. Some (mkReply 2 [] [] v))
      (\<lambda>subject. answered_by (probed_env ?m) probe_snapshot 0 0 0 1704067300000000000 (Fin 0) ?s ''_INBOX.1'')
      (probe_defaults demo_machine) 1704067300000000000 = None"
    using conjunct1 [OF h] a(2) unfolding ap a(1) snd_conv sum.case by simp
  then show ?thesis by blast
qed

end
