(* ===== verification/Queue_Laws.thy ===== *)
theory Queue_Laws
  imports Queue "HOL-Library.Sublist"
begin

text \<open>
  What the queue promises, for every schedule, every clock and any number of submitting threads:
  the bound, exactly one answer for every task, the counters, the order of service, and that
  no wake-up is lost.
\<close>

section \<open>Lists of threads\<close>

text \<open>What a thread weighs, summed over all threads: the held tasks, or the woken workers.\<close>

definition total :: "(thread \<Rightarrow> 'a::cancel_comm_monoid_add) \<Rightarrow> thread list \<Rightarrow> 'a" where
  "total f ts = sum_list (map f ts)"

lemma total_snoc [simp]: "total f (ts @ [th]) = total f ts + f th"
  by (simp add: total_def)

lemma total_update: "i < length ts \<Longrightarrow> total f (ts[i := th]) + f (ts ! i) = total f ts + f th"
proof (induction ts arbitrary: i)
  case Nil
  then show ?case by simp
next
  case (Cons x ts)
  show ?case
  proof (cases i)
    case 0
    then show ?thesis by (simp add: total_def ac_simps)
  next
    case (Suc k)
    with Cons have "total f (ts[k := th]) + f (ts ! k) = total f ts + f th" by simp
    then show ?thesis by (simp add: Suc total_def add.assoc)
  qed
qed

lemma total_idle: "\<forall>th \<in> set ts. f th = 0 \<Longrightarrow> total f ts = 0"
  by (induction ts) (simp_all add: total_def)

lemma total_woken: "(\<And>th. f (woken th) = f th) \<Longrightarrow> total f (map woken ts) = total f ts"
  by (simp add: total_def comp_def)

lemma signal_one_cases:
  obtains (none) "signal_one j ts = ts" "\<forall>th \<in> set ts. \<not> waiting th"
  | (one) k where "k < length ts" "waiting (ts ! k)" "signal_one j ts = ts[k := woken (ts ! k)]"
proof (cases "j < length ts \<and> waiting (ts ! j)")
  case True
  then show ?thesis using one [of j] by (simp add: signal_one_def)
next
  case no: False
  show ?thesis
  proof (cases "find (\<lambda>k. waiting (ts ! k)) [0..<length ts]")
    case None
    then have "\<forall>th \<in> set ts. \<not> waiting th" by (auto simp: find_None_iff in_set_conv_nth)
    moreover have "signal_one j ts = ts" unfolding signal_one_def using no None by (simp only: if_False option.case)
    ultimately show ?thesis by (rule none [rotated])
  next
    case (Some k)
    then have "k < length ts" "waiting (ts ! k)" by (auto simp: find_Some_iff)
    moreover have "signal_one j ts = ts[k := woken (ts ! k)]"
      unfolding signal_one_def using no Some by (simp only: if_False option.case)
    ultimately show ?thesis by (rule one)
  qed
qed

lemma total_wake:
  assumes "\<And>th. f (woken th) = f th"
  shows "total f (apply_wake w j ts) = total f ts"
proof (cases w)
  case Signal
  show ?thesis
  proof (cases rule: signal_one_cases [of j ts])
    case none
    then show ?thesis by (simp add: Signal apply_wake_def)
  next
    case (one k)
    from total_update [OF one(1), of f "woken (ts ! k)"] show ?thesis
      by (simp add: Signal apply_wake_def one(3) assms)
  qed
qed (simp_all add: apply_wake_def total_woken assms)

lemma set_wake: "th \<in> set (apply_wake w j ts) \<Longrightarrow> th \<in> set ts \<or> (\<exists>x \<in> set ts. th = woken x)"
proof (cases rule: signal_one_cases [of j ts])
  case none
  assume "th \<in> set (apply_wake w j ts)"
  with none(1) show ?thesis by (cases w) (auto simp: apply_wake_def)
next
  case (one k)
  assume h: "th \<in> set (apply_wake w j ts)"
  have "set (ts[k := woken (ts ! k)]) \<subseteq> insert (woken (ts ! k)) (set ts)" by (rule set_update_subset_insert)
  with h one show ?thesis by (cases w) (auto simp: apply_wake_def)
qed

section \<open>What a thread holds\<close>

text \<open>A message is a task without what the pool writes into it.\<close>

type_synonym msg = "request \<times> string"

definition msg_of :: "task \<Rightarrow> msg" where
  "msg_of t = (tk_req t, tk_reply t)"

definition msgs :: "task list \<Rightarrow> msg multiset" where
  "msgs ts = image_mset msg_of (mset ts)"

lemma msgs_simps [simp]:
  "msgs [] = {#}" "msgs (t # ts) = add_mset (msg_of t) (msgs ts)" "msgs (ts @ us) = msgs ts + msgs us"
  by (simp_all add: msgs_def)

lemma msgs_partition: "msgs (filter P ts) + msgs (filter (\<lambda>t. \<not> P t) ts) = msgs ts"
  by (induction ts) auto

lemma msg_of_update [simp]:
  "msg_of (t\<lparr>tk_enqueued := n\<rparr>) = msg_of t" "msg_of (t\<lparr>tk_fill := k\<rparr>) = msg_of t"
  by (simp_all add: msg_of_def)

fun cont_holds :: "cont \<Rightarrow> msg multiset" where
  "cont_holds (CLock t) = {#msg_of t#}"
| "cont_holds (CLoop t b) = {#msg_of t#}"
| "cont_holds (CRun t) = {#msg_of t#}"
| "cont_holds c = {#}"

fun holds_task :: "thread \<Rightarrow> msg multiset" where
  "holds_task (Submitting t) = {#msg_of t#}"
| "holds_task (Collecting t) = {#msg_of t#}"
| "holds_task (SubLock t) = {#msg_of t#}"
| "holds_task (SubWaiting t) = {#msg_of t#}"
| "holds_task (SubWoken t b) = {#msg_of t#}"
| "holds_task (Shedding t) = {#msg_of t#}"
| "holds_task (Expiring ts c) = msgs ts + cont_holds c"
| "holds_task th = {#}"

lemma holds_woken [simp]: "holds_task (woken th) = holds_task th"
  by (cases th) simp_all

definition answered :: "event list \<Rightarrow> msg multiset" where
  "answered ev = msgs (map fst ev)"

lemma answered_simps [simp]:
  "answered [] = {#}" "answered (e # ev) = add_mset (msg_of (fst e)) (answered ev)"
  "answered (ev @ ev') = answered ev + answered ev'"
  by (simp_all add: answered_def)

definition counted :: "string \<Rightarrow> event list \<Rightarrow> int" where
  "counted why ev = int (length (filter (\<lambda>e. snd e = why) ev))"

lemma counted_simps [simp]:
  "counted why [] = 0" "counted why (e # ev) = (if snd e = why then 1 else 0) + counted why ev"
  "counted why (ev @ ev') = counted why ev + counted why ev'"
  by (simp_all add: counted_def)

section \<open>What one action does\<close>

text \<open>The bound, the settings, the accounting and the conservation of tasks, for one action.\<close>

definition act_ok :: "pool \<Rightarrow> thread \<Rightarrow> act \<Rightarrow> bool" where
  "act_ok p th a = (case a of (p', th', w, ev) \<Rightarrow>
     po_depth p' = po_depth p \<and> po_closed p' = po_closed p \<and>
     (q_len p \<le> po_depth p \<longrightarrow> q_len p' \<le> po_depth p) \<and>
     po_expired p' - po_expired p = counted ReasonDeadlineExceeded ev \<and>
     po_shed p' - po_shed p = counted ReasonQueueLimit ev \<and>
     answered ev + msgs (po_q p') + holds_task th' = msgs (po_q p) + holds_task th)"

lemma takeExpired_len: "q_len (fst (takeExpiredLocked now p)) \<le> q_len p"
  by (simp add: takeExpiredLocked_def q_len_def)

lemma takeExpired_msgs:
  "msgs (po_q (fst (takeExpiredLocked now p))) + msgs (snd (takeExpiredLocked now p)) = msgs (po_q p)"
  using msgs_partition [of "is_expired p now" "po_q p"] by (simp add: takeExpiredLocked_def add.commute)

lemma takeExpired_fields:
  "po_depth (fst (takeExpiredLocked now p)) = po_depth p" "po_closed (fst (takeExpiredLocked now p)) = po_closed p"
  "po_expired (fst (takeExpiredLocked now p)) = po_expired p" "po_shed (fst (takeExpiredLocked now p)) = po_shed p"
  by (simp_all add: takeExpiredLocked_def)

lemma takeExpired_cases:
  obtains p' dead where "takeExpiredLocked now p = (p', dead)" "q_len p' \<le> q_len p"
    "msgs (po_q p') + msgs dead = msgs (po_q p)" "po_depth p' = po_depth p" "po_closed p' = po_closed p"
    "po_expired p' = po_expired p" "po_shed p' = po_shed p"
  using that [of "fst (takeExpiredLocked now p)" "snd (takeExpiredLocked now p)"]
    takeExpired_len [of now p] takeExpired_msgs [of now p] takeExpired_fields [of now p] by simp

lemma enqueue_ok:
  "holds_task th = {#msg_of t#} \<Longrightarrow> q_len p < po_depth p \<Longrightarrow> act_ok p th (enqueueLocked t p, SubDone, Signal, [])"
  by (simp add: act_ok_def enqueueLocked_def q_len_def)

lemma keep_ok: "holds_task th = holds_task th' \<Longrightarrow> act_ok p th (p, th', w, [])"
  by (simp add: act_ok_def)

lemma taken_ok:
  assumes "takeExpiredLocked now p = (p', dead)" and "holds_task th = cont_holds c"
  shows "act_ok p th (p', Expiring dead c, w, [])"
  by (cases rule: takeExpired_cases [of now p]) (use assms in \<open>simp add: act_ok_def ac_simps\<close>)

lemma wait_loop_ok:
  assumes "holds_task th = {#msg_of t#}"
  shows "act_ok p th (wait_loop now p t b)"
  by (cases "takeExpiredLocked now p")
     (use assms in \<open>simp add: wait_loop_def enqueue_ok keep_ok taken_ok\<close>)

lemma submit_lock_ok: "act_ok p (SubLock t) (submit_lock now now1 p t)"
  by (simp add: submit_lock_def Let_def enqueue_ok keep_ok wait_loop_ok)

lemma collect_ok: "holds_task th = cont_holds c \<Longrightarrow> act_ok p th (collect now p c)"
  by (cases "takeExpiredLocked now p") (simp add: collect_def taken_ok)

lemma pop_turn_ok:
  assumes "holds_task th = {#}"
  shows "act_ok p th (pop_turn now p)"
proof (cases rule: takeExpired_cases [of now p])
  case (1 p' dead)
  show ?thesis
  proof (cases "po_q p'")
    case Nil
    with 1 assms show ?thesis by (cases dead) (simp_all add: pop_turn_def act_ok_def q_len_def)
  next
    case (Cons t ts)
    from 1(3) Cons have "add_mset (msg_of t) (msgs ts + msgs dead) = msgs (po_q p)" by simp
    with 1 assms Cons show ?thesis by (simp add: pop_turn_def act_ok_def q_len_def)
  qed
qed

lemma run_task_ok: "act_ok p (Expiring [] (CRun t)) (run_task now p t)"
  by (simp add: run_task_def act_ok_def q_len_def)

lemma resume_holds: "\<forall>t. c \<noteq> CRun t \<Longrightarrow> holds_task (resume_at c) = cont_holds c"
  by (cases c) simp_all

lemma act_ok_thread:
  assumes "thread_act now now1 p th = Some a"
  shows "act_ok p th a"
proof (cases th)
  case (Submitting t)
  with assms show ?thesis by (auto simp: submit_start_def Let_def keep_ok)
next
  case (Collecting t)
  with assms show ?thesis by (auto simp: collect_ok)
next
  case (SubLock t)
  with assms show ?thesis by (auto simp: submit_lock_ok)
next
  case (SubWoken t b)
  with assms show ?thesis by (auto simp: wait_loop_ok)
next
  case (Shedding t)
  with assms show ?thesis by (auto simp: shedLimit_def act_ok_def q_len_def)
next
  case WorkPop
  with assms show ?thesis by (auto simp: pop_turn_ok)
next
  case WorkWoken
  with assms show ?thesis by (auto simp: pop_turn_ok)
next
  case Sweeping
  with assms show ?thesis by (auto simp: collect_ok)
next
  case (Expiring ts c)
  show ?thesis
  proof (cases ts)
    case (Cons t us)
    with Expiring assms show ?thesis by (auto simp: expire_one_def act_ok_def q_len_def)
  next
    case Nil
    show ?thesis
    proof (cases "\<exists>t. c = CRun t")
      case True
      with Expiring Nil assms show ?thesis by (auto simp: run_task_ok)
    next
      case False
      then have "thread_act now now1 p (Expiring [] c) = Some (p, resume_at c, Silent, [])"
        by (cases c) simp_all
      with Expiring Nil assms False resume_holds [of c] show ?thesis by (auto simp: keep_ok)
    qed
  qed
qed (use assms in simp_all)

section \<open>The invariants of the bookkeeping\<close>

definition books_ok :: "system \<Rightarrow> bool" where
  "books_ok s \<longleftrightarrow>
     q_len (sy_pool s) \<le> po_depth (sy_pool s) \<and>
     po_expired (sy_pool s) = counted ReasonDeadlineExceeded (sy_log s) \<and>
     po_shed (sy_pool s) = counted ReasonQueueLimit (sy_log s) \<and>
     answered (sy_log s) + msgs (po_q (sy_pool s)) + total holds_task (sy_threads s) = msgs (sy_submitted s)"

lemma timed_out_holds: "timed_out th = Some th' \<Longrightarrow> holds_task th' = holds_task th"
  by (cases th rule: timed_out.cases) auto

lemma total_replace:
  assumes "i < length ts" and "f th = f (ts ! i)"
  shows "total f (ts[i := th]) = total f ts"
  using total_update [OF assms(1), of f th] assms(2) by simp

lemma act_on_books:
  assumes "i < length (sy_threads s)" and "act_ok (sy_pool s) (sy_threads s ! i) a" and "books_ok s"
  shows "books_ok (act_on i j a s)"
proof -
  obtain p th w ev where a: "a = (p, th, w, ev)" by (cases a)
  let ?h = "holds_task (sy_threads s ! i)" and ?T = "total holds_task (sy_threads s)"
    and ?T' = "total holds_task ((sy_threads s)[i := th])"
  from assms(2) have ok: "q_len (sy_pool s) \<le> po_depth (sy_pool s) \<longrightarrow> q_len p \<le> po_depth (sy_pool s)"
      "po_depth p = po_depth (sy_pool s)"
      "po_expired p - po_expired (sy_pool s) = counted ReasonDeadlineExceeded ev"
      "po_shed p - po_shed (sy_pool s) = counted ReasonQueueLimit ev"
      "answered ev + msgs (po_q p) + holds_task th = msgs (po_q (sy_pool s)) + ?h"
    by (simp_all add: act_ok_def a)
  have t: "?T' + ?h = ?T + holds_task th" using assms(1) by (rule total_update)
  have "answered (sy_log s @ ev) + msgs (po_q p) + ?T' + ?h =
      answered (sy_log s) + (answered ev + msgs (po_q p) + holds_task th) + ?T"
    using t by (simp add: ac_simps)
  also have "\<dots> = answered (sy_log s) + msgs (po_q (sy_pool s)) + ?T + ?h" unfolding ok(5) by (simp only: ac_simps)
  finally have "answered (sy_log s @ ev) + msgs (po_q p) + ?T' =
      answered (sy_log s) + msgs (po_q (sy_pool s)) + ?T" by (rule add_right_imp_eq)
  then have "answered (sy_log s @ ev) + msgs (po_q p) + ?T' = msgs (sy_submitted s)"
    using assms(3) by (simp only: books_ok_def)
  with ok assms(3) show ?thesis
    by (simp add: books_ok_def act_on_def a total_wake)
qed

lemma step_books: "step s s' \<Longrightarrow> books_ok s \<Longrightarrow> books_ok s'"
proof (induction rule: step.induct)
  case (run i s now now1 a j)
  from act_on_books [OF run(1) act_ok_thread [OF run(2)] run(3)] show ?case .
next
  case (timer i s th)
  from total_replace [where f = holds_task, OF timer(1) timed_out_holds [OF timer(2)]] timer(3)
  show ?case by (simp add: books_ok_def total_woken)
next
  case (arrive s t)
  then show ?case by (simp add: books_ok_def msgs_def ac_simps)
next
  case (stop s)
  then show ?case by (simp add: books_ok_def q_len_def)
next
  case (close s)
  then show ?case by (simp add: books_ok_def q_len_def total_woken)
next
  case (sweep_stop i s)
  have "holds_task SweepDone = holds_task (sy_threads s ! i)" using sweep_stop(2) by simp
  from total_replace [where f = holds_task, OF sweep_stop(1) this] sweep_stop(4)
  show ?case by (simp add: books_ok_def)
qed

lemma start_books: "po_q p = [] \<Longrightarrow> 0 \<le> po_depth p \<Longrightarrow> po_expired p = 0 \<Longrightarrow> po_shed p = 0 \<Longrightarrow> books_ok (start n p)"
  by (induction n) (simp_all add: books_ok_def start_def q_len_def total_def)

lemma reach_books: "reach s0 s \<Longrightarrow> books_ok s0 \<Longrightarrow> books_ok s"
  by (induction rule: reach.induct) (auto dest: step_books)

section \<open>No wake-up is lost\<close>

fun stopping :: "thread \<Rightarrow> bool" where
  "stopping WorkDone = True"
| "stopping (Expiring ds c) = (c = CStop)"
| "stopping th = False"

definition woken_workers :: "thread list \<Rightarrow> int" where
  "woken_workers ts = total (\<lambda>th. if th = WorkWoken then 1 else 0) ts"

definition wake_ok :: "system \<Rightarrow> bool" where
  "wake_ok s \<longleftrightarrow>
     (\<forall>th \<in> set (sy_threads s). waiting th \<longrightarrow> \<not> po_closed (sy_pool s) \<and>
        (if th = WorkWaiting then q_len (sy_pool s) \<le> woken_workers (sy_threads s)
         else q_len (sy_pool s) \<ge> po_depth (sy_pool s))) \<and>
     (\<forall>th \<in> set (sy_threads s). stopping th \<longrightarrow> po_closed (sy_pool s) \<and> po_q (sy_pool s) = [])"

definition act_wake :: "pool \<Rightarrow> thread \<Rightarrow> act \<Rightarrow> bool" where
  "act_wake p th a = (case a of (p', th', w, ev) \<Rightarrow>
     po_depth p' = po_depth p \<and> po_closed p' = po_closed p \<and> th' \<noteq> WorkWoken \<and>
     (po_closed p \<and> po_q p = [] \<longrightarrow> po_q p' = []) \<and>
     (stopping th' \<longrightarrow> stopping th \<or> (po_closed p \<and> po_q p' = [])) \<and>
     (th = WorkWoken \<longrightarrow> w = Broadcast \<or> (w = Silent \<and> po_q p = [])) \<and>
     (case w of
        Silent \<Rightarrow> po_q p' = po_q p \<and>
          (waiting th' \<longrightarrow> \<not> po_closed p \<and> (if th' = WorkWaiting then po_q p = [] else q_len p \<ge> po_depth p))
      | Signal \<Rightarrow> \<not> waiting th' \<and> q_len p' = q_len p + 1 \<and> q_len p < po_depth p \<and> \<not> po_closed p
      | Broadcast \<Rightarrow> \<not> waiting th'))"

lemma takeExpired_none:
  "takeExpiredLocked now p = (p', []) \<Longrightarrow> p' = p"
  by (auto simp: takeExpiredLocked_def filter_empty_conv)

lemma takeExpired_wake:
  assumes "takeExpiredLocked now p = (p', dead)"
  shows "po_depth p' = po_depth p" "po_closed p' = po_closed p" "po_q p = [] \<Longrightarrow> po_q p' = []"
  using assms by (auto simp: takeExpiredLocked_def)

lemma expiring_wake: "th \<noteq> WorkWoken \<Longrightarrow> c \<noteq> CStop \<Longrightarrow> act_wake p th (p, Expiring ds c, Silent, ev)"
  by (simp add: act_wake_def)

lemma enqueue_wake:
  "th \<noteq> WorkWoken \<Longrightarrow> q_len p < po_depth p \<Longrightarrow> \<not> po_closed p \<Longrightarrow>
   act_wake p th (enqueueLocked t p, SubDone, Signal, [])"
  by (simp add: act_wake_def enqueueLocked_def q_len_def)

lemma wait_loop_wake:
  assumes "th \<noteq> WorkWoken"
  shows "act_wake p th (wait_loop now p t b)"
proof (cases "q_len p \<ge> po_depth p \<and> \<not> b \<and> \<not> po_closed p")
  case True
  obtain p' dead where t: "takeExpiredLocked now p = (p', dead)" by (cases "takeExpiredLocked now p")
  show ?thesis
  proof (cases dead)
    case Nil
    with True t assms show ?thesis by (simp add: wait_loop_def act_wake_def)
  next
    case (Cons d ds)
    with True t assms takeExpired_wake [OF t] show ?thesis by (simp add: wait_loop_def act_wake_def)
  qed
next
  case False
  then show ?thesis
    using assms expiring_wake [OF assms, of CEnd p "[t]" "[]"] enqueue_wake [OF assms, of p t]
    unfolding wait_loop_def by (simp only: if_False split: if_split) simp
qed

lemma collect_wake:
  assumes "th \<noteq> WorkWoken" and "c \<noteq> CStop"
  shows "act_wake p th (collect now p c)"
proof (cases "takeExpiredLocked now p")
  case (Pair p' dead)
  show ?thesis
    using assms takeExpired_wake [OF Pair] takeExpired_none [of now p p'] Pair
    by (cases dead) (simp_all add: act_wake_def collect_def)
qed

lemma pop_turn_wake: "act_wake p th (pop_turn now p)"
proof (cases "takeExpiredLocked now p")
  case (Pair p' dead)
  note w = takeExpired_wake [OF Pair]
  show ?thesis
  proof (cases "po_q p'")
    case (Cons t ts)
    with Pair w show ?thesis by (auto simp: act_wake_def pop_turn_def)
  next
    case Nil
    show ?thesis
    proof (cases dead)
      case no: Nil
      with takeExpired_none [of now p p'] Pair have "p' = p" by simp
      with Pair Nil no show ?thesis by (simp add: act_wake_def pop_turn_def)
    next
      case (Cons d ds)
      with Pair Nil w show ?thesis by (simp add: act_wake_def pop_turn_def)
    qed
  qed
qed

lemma submit_lock_wake: "act_wake p (SubLock t) (submit_lock now now1 p t)"
proof (cases "q_len p < po_depth p \<or> po_closed p")
  case True
  then show ?thesis
    using expiring_wake [of "SubLock t" CEnd p "[t]" "[]"] enqueue_wake [of "SubLock t" p "t\<lparr>tk_fill := fillLocked p\<rparr>"]
    by (cases "po_closed p") (simp_all add: submit_lock_def Let_def)
next
  case False
  then show ?thesis
    using wait_loop_wake [of "SubLock t" p now1 "t\<lparr>tk_fill := fillLocked p\<rparr>" False]
    by (simp add: submit_lock_def Let_def) (simp add: act_wake_def)
qed

lemma resume_wake: "\<forall>t. c \<noteq> CRun t \<Longrightarrow> act_wake p (Expiring [] c) (p, resume_at c, Silent, [])"
  by (cases c) (simp_all add: act_wake_def)

lemma act_wake_thread:
  assumes "thread_act now now1 p th = Some a"
  shows "act_wake p th a"
proof (cases th)
  case (Submitting t)
  with assms show ?thesis
    by (cases "leftAt p (t\<lparr>tk_enqueued := now\<rparr>) now1 < po_min p") (auto simp: submit_start_def act_wake_def)
next
  case (Collecting t)
  with assms show ?thesis by (auto simp: collect_wake)
next
  case (SubLock t)
  with assms show ?thesis by (auto simp: submit_lock_wake)
next
  case (SubWoken t b)
  with assms show ?thesis by (auto simp: wait_loop_wake)
next
  case (Shedding t)
  with assms show ?thesis by (auto simp: shedLimit_def act_wake_def)
next
  case WorkPop
  with assms show ?thesis by (auto simp: pop_turn_wake)
next
  case WorkWoken
  with assms show ?thesis by (auto simp: pop_turn_wake)
next
  case Sweeping
  with assms show ?thesis by (auto simp: collect_wake)
next
  case (Expiring ts c)
  show ?thesis
  proof (cases ts)
    case (Cons t us)
    with Expiring assms show ?thesis by (auto simp: expire_one_def act_wake_def)
  next
    case Nil
    show ?thesis
    proof (cases "\<exists>t. c = CRun t")
      case True
      then obtain t where "c = CRun t" by blast
      with Expiring Nil assms show ?thesis by (cases "leftAt p t now < po_min p") (auto simp: run_task_def act_wake_def)
    next
      case False
      then have "thread_act now now1 p (Expiring [] c) = Some (p, resume_at c, Silent, [])"
        by (cases c) simp_all
      with Expiring Nil assms False resume_wake [of c p] show ?thesis by auto
    qed
  qed
qed (use assms in simp_all)

lemma woken_not_waiting [simp]: "\<not> waiting (woken th)"
  by (cases th) simp_all

lemma woken_stopping [simp]: "stopping (woken th) = stopping th"
  by (cases th) simp_all

lemma woken_workers_nonneg: "0 \<le> woken_workers ts"
  by (induction ts) (simp_all add: woken_workers_def total_def)

lemma woken_workers_update:
  "i < length ts \<Longrightarrow> woken_workers (ts[i := th]) =
     woken_workers ts + (if th = WorkWoken then 1 else 0) - (if ts ! i = WorkWoken then 1 else 0)"
  using total_update [of i ts "\<lambda>th. if th = WorkWoken then (1::int) else 0" th]
  by (simp add: woken_workers_def split: if_splits)

lemma set_update_cases: "th' \<in> set (ts[i := th]) \<Longrightarrow> th' = th \<or> th' \<in> set ts"
  using set_update_subset_insert [of ts i th] by blast

lemma woken_not_worker_wait: "waiting th \<Longrightarrow> th \<noteq> WorkWaiting \<Longrightarrow> woken th \<noteq> WorkWoken"
  by (cases th) simp_all

text \<open>After a broadcast nobody waits.\<close>

lemma broadcast_ok:
  assumes "\<And>th. th \<in> set ts \<Longrightarrow> stopping th \<Longrightarrow> po_closed p \<and> po_q p = []"
  shows "wake_ok (s\<lparr>sy_pool := p, sy_threads := map woken ts\<rparr>)"
  using assms by (auto simp: wake_ok_def)

lemma wake_ok_log: "wake_ok (s\<lparr>sy_pool := p, sy_threads := ts, sy_log := ev\<rparr>) = wake_ok (s\<lparr>sy_pool := p, sy_threads := ts\<rparr>)"
  by (simp add: wake_ok_def)

lemma act_on_wake:
  assumes "i < length (sy_threads s)" and "act_wake (sy_pool s) (sy_threads s ! i) a" and "wake_ok s"
  shows "wake_ok (act_on i j a s)"
proof -
  let ?p = "sy_pool s" and ?ts = "sy_threads s"
  obtain p' th' w ev where a: "a = (p', th', w, ev)" by (cases a)
  let ?us = "?ts[i := th']"
  have th: "?ts ! i \<in> set ?ts" using assms(1) by simp
  from assms(2) have c: "po_depth p' = po_depth ?p" "po_closed p' = po_closed ?p" "th' \<noteq> WorkWoken"
      "po_closed ?p \<and> po_q ?p = [] \<longrightarrow> po_q p' = []"
      "stopping th' \<longrightarrow> stopping (?ts ! i) \<or> (po_closed ?p \<and> po_q p' = [])"
      "?ts ! i = WorkWoken \<longrightarrow> w = Broadcast \<or> (w = Silent \<and> po_q ?p = [])"
    by (simp_all add: act_wake_def a)
  have st: "po_closed p' \<and> po_q p' = []" if "x \<in> set ?us" "stopping x" for x
    using set_update_cases [OF that(1)] that(2) th c(2,4,5) assms(3) unfolding wake_ok_def by auto
  show ?thesis
  proof (cases w)
    case Broadcast
    then show ?thesis using broadcast_ok [of ?us p' s] st
      by (simp add: act_on_def a apply_wake_def wake_ok_log)
  next
    case Silent
    with assms(2) have q: "po_q p' = po_q ?p" and new: "waiting th' \<Longrightarrow> \<not> po_closed ?p \<and>
        (if th' = WorkWaiting then po_q ?p = [] else q_len ?p \<ge> po_depth ?p)"
      by (auto simp: act_wake_def a)
    have len: "q_len p' = q_len ?p" by (simp add: q_len_def q)
    have count: "q_len ?p \<le> woken_workers ?us" if "WorkWaiting \<in> set ?ts \<or> th' = WorkWaiting"
    proof (cases "po_q ?p = []")
      case True
      then show ?thesis using woken_workers_nonneg by (simp add: q_len_def)
    next
      case False
      with that new have "WorkWaiting \<in> set ?ts" by (auto split: if_splits)
      then have "q_len ?p \<le> woken_workers ?ts" using assms(3) unfolding wake_ok_def by force
      moreover have "?ts ! i \<noteq> WorkWoken" using c(6) Silent False by auto
      ultimately show ?thesis using c(3) by (simp add: woken_workers_update [OF assms(1)])
    qed
    have "\<not> po_closed p' \<and> (if x = WorkWaiting then q_len p' \<le> woken_workers ?us else q_len p' \<ge> po_depth p')"
      if "x \<in> set ?us" "waiting x" for x
      using set_update_cases [OF that(1)]
    proof
      assume "x = th'"
      with that(2) new count show ?thesis by (auto simp: len c(1,2) split: if_splits)
    next
      assume x: "x \<in> set ?ts"
      with that(2) assms(3) have "\<not> po_closed ?p \<and> (x \<noteq> WorkWaiting \<longrightarrow> q_len ?p \<ge> po_depth ?p)"
        unfolding wake_ok_def by auto
      with x count show ?thesis by (auto simp: len c(1,2))
    qed
    with st show ?thesis by (simp add: wake_ok_def act_on_def a apply_wake_def Silent)
  next
    case Signal
    with assms(2) have new: "\<not> waiting th'" "q_len p' = q_len ?p + 1" "q_len ?p < po_depth ?p" "\<not> po_closed ?p"
      by (simp_all add: act_wake_def a)
    have only: "x = WorkWaiting \<and> x \<in> set ?ts" if "x \<in> set ?us" "waiting x" for x
      using set_update_cases [OF that(1)] that(2) new(1,3) assms(3) unfolding wake_ok_def
      by (metis not_le)
    have no_stop: "\<not> stopping x" if "x \<in> set ?us" for x
      using st [OF that] new(4) c(2) by blast
    have count: "woken_workers ?us = woken_workers ?ts"
      using c(3,6) Signal by (simp add: woken_workers_update [OF assms(1)])
    show ?thesis
    proof (cases rule: signal_one_cases [of j ?us])
      case none
      with no_stop show ?thesis by (auto simp: wake_ok_def act_on_def a apply_wake_def Signal)
    next
      case (one k)
      from one(1) have "?us ! k \<in> set ?us" by (rule nth_mem)
      from only [OF this one(2)] have k: "?us ! k = WorkWaiting" "WorkWaiting \<in> set ?ts" by metis+
      then have "q_len ?p \<le> woken_workers ?ts" using assms(3) unfolding wake_ok_def by force
      then have q: "q_len p' \<le> woken_workers (?us[k := woken (?us ! k)])"
        using count new(2) k(1) woken_workers_update [OF one(1), of "woken (?us ! k)"] by simp
      have "x = WorkWaiting" if "x \<in> set (?us[k := woken (?us ! k)])" "waiting x" for x
        using set_update_cases [OF that(1)] that(2) only by auto
      moreover have "\<not> stopping x" if "x \<in> set (?us[k := woken (?us ! k)])" for x
        using set_update_cases [OF that] no_stop k(1) by auto
      ultimately show ?thesis
        using q new(4) c(2) by (auto simp: wake_ok_def act_on_def a apply_wake_def Signal one(3))
    qed
  qed
qed

lemma timed_out_stopping: "timed_out th = Some th' \<Longrightarrow> \<not> stopping th'"
  by (cases th rule: timed_out.cases) auto

lemma step_wake: "step s s' \<Longrightarrow> wake_ok s \<Longrightarrow> wake_ok s'"
proof (induction rule: step.induct)
  case (run i s now now1 a j)
  from act_on_wake [OF run(1) act_wake_thread [OF run(2)] run(3)] show ?case .
next
  case (timer i s th)
  have "po_closed (sy_pool s) \<and> po_q (sy_pool s) = []" if "x \<in> set ((sy_threads s)[i := th])" "stopping x" for x
    using set_update_cases [OF that(1)] that(2) timed_out_stopping [OF timer(2)] timer(3)
    unfolding wake_ok_def by auto
  from broadcast_ok [of "(sy_threads s)[i := th]" "sy_pool s" s, OF this] show ?case by simp
next
  case (arrive s t)
  then show ?case by (auto simp: wake_ok_def woken_workers_def)
next
  case (stop s)
  then show ?case by (auto simp: wake_ok_def q_len_def)
next
  case (close s)
  have "\<not> stopping x" if "x \<in> set (sy_threads s)" for x
    using close(2,3) that unfolding wake_ok_def by blast
  then show ?case
    using broadcast_ok [of "sy_threads s" "(sy_pool s)\<lparr>po_closed := True\<rparr>" s] by blast
next
  case (sweep_stop i s)
  have a: "act_wake (sy_pool s) (sy_threads s ! i) (sy_pool s, SweepDone, Silent, [])"
    using sweep_stop(2) by (simp add: act_wake_def)
  from act_on_wake [OF sweep_stop(1) a sweep_stop(4), of 0] show ?case
    by (simp add: act_on_def apply_wake_def)
qed

lemma start_wake: "wake_ok (start n p)"
  by (auto simp: wake_ok_def start_def)

lemma reach_wake: "reach s0 s \<Longrightarrow> wake_ok s0 \<Longrightarrow> wake_ok s"
  by (induction rule: reach.induct) (auto dest: step_wake)

section \<open>The order of service\<close>

definition in_order :: "pool \<Rightarrow> pool \<Rightarrow> bool" where
  "in_order p p' \<longleftrightarrow> subseq (po_q p') (po_q p) \<or> (\<exists>t. po_q p' = po_q p @ [t] \<and> q_len p < po_depth p \<and> \<not> po_closed p)"

lemma takeExpired_order: "subseq (po_q (fst (takeExpiredLocked now p))) (po_q p)"
  by (simp add: takeExpiredLocked_def)

lemma in_order_refl: "in_order p p" "in_order p (p\<lparr>po_expired := n\<rparr>)" "in_order p (p\<lparr>po_shed := n\<rparr>)"
  by (simp_all add: in_order_def)

lemma in_order_enqueue: "q_len p < po_depth p \<Longrightarrow> \<not> po_closed p \<Longrightarrow> in_order p (enqueueLocked t p)"
  by (simp add: in_order_def enqueueLocked_def)

lemma wait_loop_order: "in_order p (fst (wait_loop now p t b))"
  using takeExpired_order [of now p]
  by (cases "takeExpiredLocked now p") (simp add: wait_loop_def in_order_refl in_order_enqueue, simp add: in_order_def)

lemma collect_order: "in_order p (fst (collect now p c))"
  using takeExpired_order [of now p] by (cases "takeExpiredLocked now p") (simp add: collect_def in_order_def)

lemma pop_turn_order: "in_order p (fst (pop_turn now p))"
  using takeExpired_order [of now p]
  by (cases "takeExpiredLocked now p")
     (auto simp: pop_turn_def in_order_def split: list.splits dest: subseq_Cons')

lemma submit_lock_order: "in_order p (fst (submit_lock now now1 p t))"
  by (simp add: submit_lock_def Let_def in_order_refl in_order_enqueue wait_loop_order)

lemma thread_act_order: "thread_act now now1 p th = Some a \<Longrightarrow> in_order p (fst a)"
  by (cases "(now, now1, p, th)" rule: thread_act.cases)
     (auto simp: submit_start_def Let_def in_order_refl collect_order submit_lock_order wait_loop_order shedLimit_def
       pop_turn_order expire_one_def run_task_def)

section \<open>A concrete run\<close>

text \<open>
  One worker and a queue of one place: two tasks arrive, the first is queued, the second finds
  the queue full and is shed; the worker takes the first, and the pool is closed.
\<close>

definition demo_start :: system where
  "demo_start = start 1 (newPool 1 2 2 [])"

definition demo_queued :: "move list" where
  "demo_queued = [Run 1 0 0 0, Arrive demo_task, Run 2 0 0 0, Run 2 0 0 0, Run 2 0 0 0, Run 2 0 0 0]"

definition demo_served :: "move list" where
  "demo_served = demo_queued @
     [Arrive demo_task, Run 3 0 1 1, Run 3 0 1 1, Run 3 0 1 1, Run 3 0 1 1, Run 3 0 1 1,
      Run 1 0 2 2, Run 1 0 2 2, Stop, Close, Run 1 0 3 3, Run 1 0 3 3, SweepStop 0]"

lemma demo_queued_runs: "exec_all demo_queued demo_start \<noteq> None"
  by code_simp

lemma demo_served_runs: "exec_all demo_served demo_start \<noteq> None"
  by code_simp

definition queued_state :: system where
  "queued_state = the (exec_all demo_queued demo_start)"

definition served_state :: system where
  "served_state = the (exec_all demo_served demo_start)"

lemma queued_reach: "reach (start 1 (newPool 1 2 2 [])) queued_state"
  using demo_queued_runs exec_all_reach [of demo_queued demo_start]
  by (auto simp: queued_state_def demo_start_def)

lemma served_reach: "reach (start 1 (newPool 1 2 2 [])) served_state"
  using demo_served_runs exec_all_reach [of demo_served demo_start]
  by (auto simp: served_state_def demo_start_def)

lemma served_threads: "sy_threads served_state = [SweepDone, WorkDone, SubDone, SubDone]"
  by code_simp

section \<open>Properties\<close>

definition worker :: "thread \<Rightarrow> bool" where
  "worker th \<longleftrightarrow> th \<in> {WorkPop, WorkWaiting, WorkWoken} \<or> (\<exists>ds t. th = Expiring ds (CRun t)) \<or>
     (\<exists>ds. th = Expiring ds CPop) \<or> (\<exists>ds. th = Expiring ds CStop)"

lemma worker_awake:
  assumes "worker th" and "th \<noteq> WorkWaiting"
  shows "thread_act now now1 p th \<noteq> None"
proof (cases th)
  case (Expiring ds c)
  with assms show ?thesis by (cases ds; cases c) (simp_all add: worker_def)
qed (use assms in \<open>simp_all add: worker_def\<close>)

lemma woken_workers_pos: "0 < woken_workers ts \<Longrightarrow> WorkWoken \<in> set ts"
  by (induction ts) (auto simp: woken_workers_def total_def split: if_splits)

lemma newPool_fresh:
  "po_q (newPool d r m f) = []" "1 \<le> po_depth (newPool d r m f)" "po_expired (newPool d r m f) = 0"
  "po_shed (newPool d r m f) = 0"
  by (simp_all add: newPool_def)

lemma run_books: "reach (start n (newPool d r m f)) s \<Longrightarrow> books_ok s"
proof (erule reach_books, rule start_books)
  show "0 \<le> po_depth (newPool d r m f)" using newPool_fresh(2) [of d r m f] by linarith
qed (rule newPool_fresh)+

lemma run_wake: "reach (start n (newPool d r m f)) s \<Longrightarrow> wake_ok s"
  using reach_wake start_wake by blast

lemma step_depth: "step s s' \<Longrightarrow> po_depth (sy_pool s') = po_depth (sy_pool s)"
proof (induction rule: step.induct)
  case (run i s now now1 a j)
  from act_ok_thread [OF run(2)] show ?case by (cases a) (simp add: act_ok_def act_on_def)
qed simp_all

lemma reach_depth: "reach s0 s \<Longrightarrow> po_depth (sy_pool s) = po_depth (sy_pool s0)"
  by (induction rule: reach.induct) (auto simp: step_depth)

text \<open>
  C14 (invariant): under every schedule the queue holds at most its depth, and the counters that
  the process publishes are exact: one expired task for every answer for a missed deadline, one
  shed task for every answer for a full queue.
\<close>

theorem queue_bounded:
  assumes "reach (start n (newPool d r m f)) s"
  shows "q_len (sy_pool s) \<le> max 1 d \<and>
    po_expired (sy_pool s) = counted ReasonDeadlineExceeded (sy_log s) \<and>
    po_shed (sy_pool s) = counted ReasonQueueLimit (sy_log s)"
proof -
  have "po_depth (sy_pool s) = max 1 d"
    unfolding reach_depth [OF assms] by (simp add: start_def newPool_def max_def)
  with run_books [OF assms] show ?thesis by (simp add: books_ok_def)
qed

theorem queue_bounded_witness: "q_len (sy_pool queued_state) \<le> max 1 1"
  using queue_bounded [OF queued_reach] by simp

text \<open>
  C4 (safety): every submitted message is answered at most once, by whichever thread, and none is
  lost: what is not answered yet is in the queue or in the hands of a thread.  When a worker has
  ended after \<open>Close\<close> and no thread holds anything, every message has been answered once.
\<close>

theorem answered_exactly_once:
  assumes "reach (start n (newPool d r m f)) s"
  shows "answered (sy_log s) + msgs (po_q (sy_pool s)) + total holds_task (sy_threads s) = msgs (sy_submitted s) \<and>
    (WorkDone \<in> set (sy_threads s) \<and> (\<forall>th \<in> set (sy_threads s). holds_task th = {#}) \<longrightarrow>
       answered (sy_log s) = msgs (sy_submitted s))"
proof -
  note b = run_books [OF assms, unfolded books_ok_def]
  have "answered (sy_log s) = msgs (sy_submitted s)"
    if "WorkDone \<in> set (sy_threads s)" "\<forall>th \<in> set (sy_threads s). holds_task th = {#}"
  proof -
    have "po_q (sy_pool s) = []" using run_wake [OF assms] that(1) unfolding wake_ok_def by force
    moreover have "total holds_task (sy_threads s) = {#}"
      using that(2) by (rule total_idle)
    ultimately show ?thesis using b by simp
  qed
  with b show ?thesis by blast
qed

theorem answered_exactly_once_witness:
  "answered (sy_log served_state) = msgs (sy_submitted served_state)"
  using answered_exactly_once [OF served_reach] by (simp add: served_threads)

text \<open>
  C20 (liveness): no wake-up is lost, although submissions and workers sleep on one condition
  variable and an arrival wakes only one of them.  While the queue holds a task and the pool
  has a worker left, some worker can run; and no submission sleeps while the queue has room.
\<close>

theorem no_lost_wakeup:
  assumes "reach (start n (newPool d r m f)) s" and "th \<in> set (sy_threads s)"
  shows "(worker th \<and> po_q (sy_pool s) \<noteq> [] \<longrightarrow>
      (\<exists>x \<in> set (sy_threads s). worker x \<and> thread_act now now1 (sy_pool s) x \<noteq> None)) \<and>
    (waiting th \<and> th \<noteq> WorkWaiting \<longrightarrow> q_len (sy_pool s) \<ge> po_depth (sy_pool s))"
proof -
  note w = run_wake [OF assms(1), unfolded wake_ok_def]
  have "\<exists>x \<in> set (sy_threads s). worker x \<and> thread_act now now1 (sy_pool s) x \<noteq> None"
    if "worker th" "po_q (sy_pool s) \<noteq> []"
  proof (cases "th = WorkWaiting")
    case True
    with w assms(2) have "q_len (sy_pool s) \<le> woken_workers (sy_threads s)" by auto
    moreover have "0 < q_len (sy_pool s)" using that(2) by (simp add: q_len_def)
    ultimately have "WorkWoken \<in> set (sy_threads s)" using woken_workers_pos by force
    moreover have "worker WorkWoken" by (simp add: worker_def)
    ultimately show ?thesis using worker_awake by blast
  next
    case False
    with that(1) assms(2) worker_awake show ?thesis by blast
  qed
  with w assms(2) show ?thesis by auto
qed

lemma queued_threads: "sy_threads queued_state = [Sweeping, WorkWoken, SubDone]"
  by code_simp

lemma queued_nonempty: "q_len (sy_pool queued_state) = 1"
  by code_simp

theorem no_lost_wakeup_witness:
  "\<exists>x \<in> set (sy_threads queued_state). worker x \<and> thread_act 0 0 (sy_pool queued_state) x \<noteq> None"
proof -
  have "WorkWoken \<in> set (sy_threads queued_state)" by (simp add: queued_threads)
  from no_lost_wakeup [OF queued_reach this, of 0 0] show ?thesis
    using queued_nonempty by (auto simp: worker_def q_len_def)
qed

text \<open>
  Tasks are served in the order of their arrival.  Every step keeps the order of
  the queue: it only removes tasks, or appends one at the end when there is room and the pool
  is open; and what a worker takes is the first task that has not expired.
\<close>

theorem queue_keeps_order:
  assumes "step s s'"
  shows "in_order (sy_pool s) (sy_pool s') \<and>
    (case filter (\<lambda>t. \<not> is_expired p now t) (po_q p) of
       t # ts \<Rightarrow> fst (snd (pop_turn now p)) = Expiring (filter (is_expired p now) (po_q p)) (CRun t) \<and>
         po_q (fst (pop_turn now p)) = ts
     | [] \<Rightarrow> \<forall>ds t. fst (snd (pop_turn now p)) \<noteq> Expiring ds (CRun t))"
proof
  show "in_order (sy_pool s) (sy_pool s')"
    using assms
  proof (induction rule: step.induct)
    case (run i s now now1 a j)
    from thread_act_order [OF run(2)] show ?case by (cases a) (simp add: act_on_def)
  qed (simp_all add: in_order_def)
qed (simp add: pop_turn_def takeExpiredLocked_def split: list.split)

theorem queue_keeps_order_witness:
  "in_order (sy_pool demo_start) (sy_pool (the (exec (Run 1 0 0 0) demo_start)))"
proof -
  have "exec (Run 1 0 0 0) demo_start = Some (the (exec (Run 1 0 0 0) demo_start))"
    by (simp add: demo_start_def start_def)
  from queue_keeps_order [OF exec_step [OF this]] show ?thesis by blast
qed

end
