(* ===== verification/Queue_Progress.thy ===== *)
theory Queue_Progress
  imports Queue_Laws
begin

text \<open>
  The queue cannot get stuck: from every state that a schedule leads to, its threads can answer
  every message that was submitted, without another arrival and without a timer.  The measure
  counts how far each message is from its answer, and then how many threads are awake.
\<close>

section \<open>The distance to the answers\<close>

fun cont_rank :: "cont \<Rightarrow> nat" where
  "cont_rank (CLock t) = 7"
| "cont_rank (CLoop t b) = 5"
| "cont_rank (CRun t) = 2"
| "cont_rank c = 0"

fun rank :: "thread \<Rightarrow> nat" where
  "rank (Submitting t) = 9"
| "rank (Collecting t) = 8"
| "rank (SubLock t) = 6"
| "rank (SubWaiting t) = 5"
| "rank (SubWoken t b) = 5"
| "rank (Shedding t) = 2"
| "rank (Expiring ds c) = length ds + cont_rank c"
| "rank th = 0"

fun cont_effort :: "cont \<Rightarrow> nat" where
  "cont_effort CPop = 4"
| "cont_effort (CLoop t b) = 2"
| "cont_effort c = 1"

fun effort :: "thread \<Rightarrow> nat" where
  "effort WorkPop = 3"
| "effort WorkWoken = 3"
| "effort (SubWoken t b) = 1"
| "effort (Expiring ds c) = cont_effort c"
| "effort th = 0"

definition far :: "system \<Rightarrow> nat" where
  "far s = 3 * length (po_q (sy_pool s)) + total rank (sy_threads s)"

definition busy :: "system \<Rightarrow> nat" where
  "busy s = total effort (sy_threads s)"

lemma rank_woken [simp]: "rank (woken th) = rank th"
  by (cases th) simp_all

text \<open>What one action does to the measure.\<close>

definition act_closer :: "pool \<Rightarrow> thread \<Rightarrow> act \<Rightarrow> bool" where
  "act_closer p th a = (case a of (p', th', w, ev) \<Rightarrow>
     3 * length (po_q p') + rank th' < 3 * length (po_q p) + rank th \<or>
     (w = Silent \<and> 3 * length (po_q p') + rank th' = 3 * length (po_q p) + rank th \<and> effort th' < effort th))"

lemma expired_split: "length (filter (is_expired p now) q) + length (filter (\<lambda>t. \<not> is_expired p now t) q) = length q"
  by (rule sum_length_filter_compl)

lemma filter_none: "filter P xs = [] \<Longrightarrow> length (filter (\<lambda>x. \<not> P x) xs) = length xs"
  by (metis expired_split list.size(3) add_0 sum_length_filter_compl)

lemma submit_start_closer: "act_closer p (Submitting t) (submit_start now now1 p t)"
  by (simp add: submit_start_def act_closer_def Let_def)

lemma collect_closer: "act_closer p (Collecting t) (collect now p (CLock t))"
  using expired_split [of p now "po_q p"] by (simp add: collect_def takeExpiredLocked_def act_closer_def)

lemma wait_loop_cases:
  "act_closer p (SubWoken t b) (wait_loop now p t b)"
  using expired_split [of p now "po_q p"]
  by (cases "filter (is_expired p now) (po_q p)")
    (auto simp: wait_loop_def takeExpiredLocked_def act_closer_def enqueueLocked_def)

lemma wait_loop_closer: "act_closer p (SubLock u) (wait_loop now p t b)"
  using expired_split [of p now "po_q p"]
  by (cases "filter (is_expired p now) (po_q p)")
    (auto simp: wait_loop_def takeExpiredLocked_def act_closer_def enqueueLocked_def)

lemma submit_lock_closer: "act_closer p (SubLock t) (submit_lock now now1 p t)"
  unfolding submit_lock_def Let_def
  by (simp add: wait_loop_closer) (simp add: act_closer_def enqueueLocked_def)

lemma pop_turn_closer:
  assumes "th = WorkPop \<or> th = WorkWoken"
  shows "act_closer p th (pop_turn now p)"
proof (cases "filter (\<lambda>t. \<not> is_expired p now t) (po_q p)")
  case Nil
  then show ?thesis
    using assms expired_split [of p now "po_q p"]
    by (cases "filter (is_expired p now) (po_q p)") (auto simp: pop_turn_def takeExpiredLocked_def act_closer_def)
next
  case (Cons t ts)
  then show ?thesis
    using assms expired_split [of p now "po_q p"]
    by (auto simp: pop_turn_def takeExpiredLocked_def act_closer_def)
qed

lemma act_closer_thread:
  assumes "thread_act now now1 p th = Some a" and "th \<noteq> Sweeping"
  shows "act_closer p th a"
proof (cases th)
  case (Submitting t)
  with assms(1) show ?thesis by (auto simp: submit_start_closer)
next
  case (Collecting t)
  with assms(1) show ?thesis by (auto simp: collect_closer)
next
  case (SubLock t)
  with assms(1) show ?thesis by (auto simp: submit_lock_closer)
next
  case (SubWoken t b)
  with assms(1) show ?thesis by (auto simp: wait_loop_cases)
next
  case (Shedding t)
  with assms(1) show ?thesis by (auto simp: shedLimit_def act_closer_def)
next
  case WorkPop
  with assms(1) show ?thesis by (auto simp: pop_turn_closer)
next
  case WorkWoken
  with assms(1) show ?thesis by (auto simp: pop_turn_closer)
next
  case (Expiring ts c)
  with assms(1) show ?thesis
    by (cases ts; cases c) (auto simp: expire_one_def run_task_def act_closer_def split: if_splits)
qed (use assms in simp_all)

text \<open>The same for the whole system: the distance shrinks, or it stays and fewer threads are awake.\<close>

definition nearer :: "system \<Rightarrow> system \<Rightarrow> bool" where
  "nearer s' s \<longleftrightarrow> far s' < far s \<or> (far s' = far s \<and> busy s' < busy s)"

lemma nearer_wf: "wf {(s', s). nearer s' s}"
proof -
  have "{(s', s). nearer s' s} = inv_image (less_than <*lex*> less_than) (\<lambda>s. (far s, busy s))"
    by (auto simp: nearer_def inv_image_def lex_prod_def)
  then show ?thesis by (simp add: wf_inv_image wf_lex_prod)
qed

lemma act_on_closer:
  assumes "i < length (sy_threads s)" and "act_closer (sy_pool s) (sy_threads s ! i) a"
  shows "nearer (act_on i j a s) s"
proof -
  obtain p th w ev where a: "a = (p, th, w, ev)" by (cases a)
  let ?ts = "(sy_threads s)[i := th]"
  have r: "total rank ?ts + rank (sy_threads s ! i) = total rank (sy_threads s) + rank th"
    and e: "total effort ?ts + effort (sy_threads s ! i) = total effort (sy_threads s) + effort th"
    using assms(1) by (rule total_update)+
  have f: "far (act_on i j a s) = 3 * length (po_q p) + total rank ?ts"
    by (simp add: far_def act_on_def a total_wake)
  from assms(2) have "3 * length (po_q p) + rank th < 3 * length (po_q (sy_pool s)) + rank (sy_threads s ! i) \<or>
      (w = Silent \<and> effort th < effort (sy_threads s ! i) \<and>
       3 * length (po_q p) + rank th = 3 * length (po_q (sy_pool s)) + rank (sy_threads s ! i))"
    by (auto simp: act_closer_def a)
  then show ?thesis
  proof (elim disjE conjE)
    assume "3 * length (po_q p) + rank th < 3 * length (po_q (sy_pool s)) + rank (sy_threads s ! i)"
    with r f show ?thesis by (simp add: nearer_def far_def)
  next
    assume "w = Silent"
      and "3 * length (po_q p) + rank th = 3 * length (po_q (sy_pool s)) + rank (sy_threads s ! i)"
      and "effort th < effort (sy_threads s ! i)"
    with r e f show ?thesis by (simp add: nearer_def far_def busy_def act_on_def a apply_wake_def)
  qed
qed

section \<open>A worker stays\<close>

definition works :: "thread \<Rightarrow> bool" where
  "works th \<longleftrightarrow> worker th \<or> th = WorkDone"

lemma works_woken: "works th \<Longrightarrow> works (woken th)"
  by (cases th) (auto simp: works_def worker_def)

lemma works_map: "x \<in> set ts \<Longrightarrow> works x \<Longrightarrow> \<exists>y \<in> set ts. works (woken y)"
  using works_woken by blast

lemma works_act:
  assumes "thread_act now now1 p th = Some (p', th', w, ev)" and "works th"
  shows "works th'"
proof (cases th)
  case (Expiring ts c)
  with assms show ?thesis
    by (cases ts; cases c) (auto simp: expire_one_def run_task_def works_def worker_def split: if_splits)
qed (use assms in \<open>auto simp: works_def worker_def pop_turn_def takeExpiredLocked_def split: list.splits if_splits\<close>)

lemma works_timer: "works th \<Longrightarrow> timed_out th = None"
  by (cases th rule: timed_out.cases) (auto simp: works_def worker_def)

definition has_worker :: "system \<Rightarrow> bool" where
  "has_worker s \<longleftrightarrow> (\<exists>th \<in> set (sy_threads s). works th)"

lemma worker_update:
  assumes "i < length ts" and "works (ts ! i) \<longrightarrow> works th" and "\<exists>x \<in> set ts. works x"
  shows "\<exists>x \<in> set (ts[i := th]). works x"
proof -
  from assms(3) obtain k where k: "k < length ts" "works (ts ! k)" by (auto simp: in_set_conv_nth)
  with assms(2) have "works (ts[i := th] ! k)" by (cases "k = i") simp_all
  with k(1) show ?thesis by (metis length_list_update nth_mem)
qed

lemma worker_wake: "\<exists>x \<in> set ts. works x \<Longrightarrow> \<exists>x \<in> set (apply_wake w j ts). works x"
proof (cases rule: signal_one_cases [of j ts])
  case none
  assume "\<exists>x \<in> set ts. works x"
  with none(1) show ?thesis by (cases w) (auto simp: apply_wake_def intro: works_map)
next
  case (one k)
  assume h: "\<exists>x \<in> set ts. works x"
  from worker_update [OF one(1) _ h, of "woken (ts ! k)"] one(3) h show ?thesis
    by (cases w) (auto simp: apply_wake_def works_woken intro: works_map)
qed

lemma step_worker: "step s s' \<Longrightarrow> has_worker s \<Longrightarrow> has_worker s'"
proof (induction rule: step.induct)
  case (run i s now now1 a j)
  obtain p th w ev where a: "a = (p, th, w, ev)" by (cases a)
  from run(2) have "works (sy_threads s ! i) \<longrightarrow> works th" unfolding a using works_act by blast
  from worker_wake [OF worker_update [OF run(1) this run(3) [unfolded has_worker_def]]] show ?case
    by (simp add: has_worker_def act_on_def a)
next
  case (timer i s th)
  then have "\<not> works (sy_threads s ! i)" using works_timer by force
  then have "\<exists>x \<in> set ((sy_threads s)[i := th]). works x"
    using worker_update [OF timer(1)] timer(3) unfolding has_worker_def by blast
  then show ?case by (auto simp: has_worker_def intro: works_map)
next
  case (sweep_stop i s)
  then have "\<not> works (sy_threads s ! i)" by (simp add: works_def worker_def)
  then show ?case using worker_update [OF sweep_stop(1)] sweep_stop(4) by (simp add: has_worker_def)
qed (auto simp: has_worker_def intro: works_map)

lemma run_worker:
  assumes "0 < n" and "reach (start n p) s"
  shows "has_worker s"
  using assms(2)
proof (induction rule: reach.induct)
  case refl
  from assms(1) show ?case by (simp add: has_worker_def start_def works_def worker_def)
next
  case (step s s')
  then show ?case using step_worker by blast
qed

section \<open>When nothing more can run\<close>

definition quiet :: "system \<Rightarrow> bool" where
  "quiet s \<longleftrightarrow> (\<forall>th \<in> set (sy_threads s). th \<noteq> Sweeping \<longrightarrow> thread_act 0 0 (sy_pool s) th = None)"

lemma asleep:
  assumes "thread_act now now1 p th = None"
  shows "(\<exists>t. th = SubWaiting t) \<or> th \<in> {SubDone, WorkWaiting, WorkDone, SweepDone}"
proof (cases th)
  case (Expiring ts c)
  with assms show ?thesis by (cases ts; cases c) simp_all
qed (use assms in simp_all)

lemma quiet_empty:
  assumes "reach (start n (newPool d r m f)) s" and "has_worker s" and "quiet s"
  shows "po_q (sy_pool s) = []"
proof (rule ccontr)
  assume q: "po_q (sy_pool s) \<noteq> []"
  from assms(2) obtain th where th: "th \<in> set (sy_threads s)" "works th" unfolding has_worker_def by blast
  from run_wake [OF assms(1)] th(1) q have "th \<noteq> WorkDone" by (auto simp: wake_ok_def)
  with th(2) have w: "worker th" by (simp add: works_def)
  then have "th \<noteq> Sweeping" by (auto simp: worker_def)
  with assms(3) th(1) have "thread_act 0 0 (sy_pool s) th = None" by (simp add: quiet_def)
  with w worker_awake have "th = WorkWaiting" by blast
  with run_wake [OF assms(1)] th(1) have "q_len (sy_pool s) \<le> woken_workers (sy_threads s)"
    by (auto simp: wake_ok_def)
  moreover have "0 < q_len (sy_pool s)" using q by (simp add: q_len_def)
  ultimately have "WorkWoken \<in> set (sy_threads s)" using woken_workers_pos by force
  with assms(3) have "thread_act 0 0 (sy_pool s) WorkWoken = None" by (auto simp: quiet_def)
  then show False by simp
qed

lemma quiet_answered:
  assumes "reach (start n (newPool d r m f)) s" and "has_worker s" and "quiet s"
  shows "po_q (sy_pool s) = [] \<and> answered (sy_log s) = msgs (sy_submitted s)"
proof -
  have q: "po_q (sy_pool s) = []" using assms by (rule quiet_empty)
  have d: "1 \<le> po_depth (sy_pool s)"
    unfolding reach_depth [OF assms(1)] using newPool_fresh(2) by (simp add: start_def)
  have "holds_task th = {#}" if th: "th \<in> set (sy_threads s)" for th
  proof (cases "th = Sweeping")
    case False
    with assms(3) th have "thread_act 0 0 (sy_pool s) th = None" by (simp add: quiet_def)
    from asleep [OF this] show ?thesis
    proof
      assume "\<exists>t. th = SubWaiting t"
      with run_wake [OF assms(1)] th have "q_len (sy_pool s) \<ge> po_depth (sy_pool s)"
        unfolding wake_ok_def by fastforce
      with q d show ?thesis by (simp add: q_len_def)
    qed auto
  qed simp
  then have "total holds_task (sy_threads s) = {#}" by (intro total_idle ballI)
  with q run_books [OF assms(1)] show ?thesis by (simp add: books_ok_def)
qed

lemma act_on_reach:
  assumes "i < length (sy_threads s)" and "thread_act now now1 (sy_pool s) (sy_threads s ! i) = Some a"
  shows "reach s (act_on i j a s)"
  by (rule reach.step [OF reach.refl step.run [OF assms]])

lemma act_on_submitted: "sy_submitted (act_on i j a s) = sy_submitted s"
  by (cases a) (simp add: act_on_def)

lemma drains:
  assumes "reach (start n (newPool d r m f)) s" and "has_worker s"
  shows "\<exists>s'. reach s s' \<and> sy_submitted s' = sy_submitted s \<and> po_q (sy_pool s') = [] \<and>
    answered (sy_log s') = msgs (sy_submitted s)"
  using assms
proof (induction s rule: wf_induct_rule [OF nearer_wf])
  case (1 s)
  show ?case
  proof (cases "quiet s")
    case True
    with quiet_answered [OF 1(2,3)] show ?thesis by (intro exI [of _ s]) (simp add: reach.refl)
  next
    case False
    then obtain i a where i: "i < length (sy_threads s)" "sy_threads s ! i \<noteq> Sweeping"
      and a: "thread_act 0 0 (sy_pool s) (sy_threads s ! i) = Some a"
      by (auto simp: quiet_def in_set_conv_nth)
    let ?s = "act_on i 0 a s"
    have r: "reach s ?s" using i(1) a by (rule act_on_reach)
    have "nearer ?s s" using i(1) act_closer_thread [OF a i(2)] by (rule act_on_closer)
    moreover have "has_worker ?s" using step_worker [OF step.run [OF i(1) a] 1(3)] .
    ultimately obtain s' where "reach ?s s'" "sy_submitted s' = sy_submitted ?s" "po_q (sy_pool s') = []"
        "answered (sy_log s') = msgs (sy_submitted ?s)"
      using 1(1) [of ?s] reach_trans [OF r 1(2)] by auto
    with reach_trans [OF _ r] show ?thesis
      by (intro exI [of _ s']) (simp add: act_on_submitted)
  qed
qed

section \<open>Property\<close>

text \<open>The threads at work, in any order, with any clock: every step but those of the ticker and from outside.\<close>

inductive at_work :: "system \<Rightarrow> system \<Rightarrow> bool" where
  "i < length (sy_threads s) \<Longrightarrow> sy_threads s ! i \<noteq> Sweeping \<Longrightarrow>
   thread_act now now1 (sy_pool s) (sy_threads s ! i) = Some a \<Longrightarrow> at_work s (act_on i j a s)"

lemma at_work_step: "at_work s s' \<Longrightarrow> step s s' \<and> sy_submitted s' = sy_submitted s \<and> nearer s' s"
proof (induction rule: at_work.induct)
  case (1 i s now now1 a j)
  from act_on_closer [OF 1(1) act_closer_thread [OF 1(3,2)]] step.run [OF 1(1,3)]
  show ?case by (simp add: act_on_submitted)
qed

lemma at_work_wf: "wf {(s', s). at_work s s'}"
  by (rule wf_subset [OF nearer_wf]) (use at_work_step in blast)

lemma at_work_reach: "at_work\<^sup>*\<^sup>* s s' \<Longrightarrow> reach s s' \<and> sy_submitted s' = sy_submitted s"
proof (induction rule: rtranclp_induct)
  case (step s1 s2)
  with at_work_step [OF step(2)] show ?case by (auto intro: reach.step)
qed (simp add: reach.refl)

lemma unserved_quiet:
  assumes "\<nexists>s'. at_work s s'"
  shows "quiet s"
proof -
  have "thread_act 0 0 (sy_pool s) (sy_threads s ! i) = None"
    if "i < length (sy_threads s)" "sy_threads s ! i \<noteq> Sweeping" for i
  proof (cases "thread_act 0 0 (sy_pool s) (sy_threads s ! i)")
    case (Some a)
    from at_work.intros [OF that Some] assms show ?thesis by blast
  qed
  then show ?thesis unfolding quiet_def by (metis in_set_conv_nth)
qed

text \<open>
  C7 (termination): from every state of a pool with a worker, in whatever order its threads take
  their turns and whatever the clock shows, they come to rest if no other message arrives; and
  when they rest the queue is empty and every message has been answered exactly once.  Neither a timer
  nor a tick of the sweeper nor the closing of the pool is needed for that.
\<close>

theorem queue_comes_to_rest:
  assumes "0 < n" and "reach (start n (newPool d r m f)) s"
  shows "wf {(s2, s1). at_work s1 s2} \<and>
    (\<forall>s'. at_work\<^sup>*\<^sup>* s s' \<and> (\<nexists>s''. at_work s' s'') \<longrightarrow>
       po_q (sy_pool s') = [] \<and> answered (sy_log s') = msgs (sy_submitted s))"
proof (intro conjI allI impI at_work_wf)
  fix s' assume h: "at_work\<^sup>*\<^sup>* s s' \<and> (\<nexists>s''. at_work s' s'')"
  with at_work_reach have s': "reach s s'" "sy_submitted s' = sy_submitted s" by blast+
  have r: "reach (start n (newPool d r m f)) s'" using reach_trans [OF s'(1) assms(2)] .
  from quiet_answered [OF r run_worker [OF assms(1) r] unserved_quiet] h s'(2)
  show "po_q (sy_pool s') = []" and "answered (sy_log s') = msgs (sy_submitted s)" by simp_all
qed

theorem queue_comes_to_rest_witness:
  "\<exists>s'. at_work\<^sup>*\<^sup>* queued_state s' \<and> answered (sy_log s') = msgs (sy_submitted queued_state)"
proof -
  note all = queue_comes_to_rest [OF _ queued_reach, simplified]
  from wfE_min' [OF conjunct1 [OF all], of "{s'. at_work\<^sup>*\<^sup>* queued_state s'}"] obtain s' where
    "at_work\<^sup>*\<^sup>* queued_state s'" and "\<forall>s''. at_work s' s'' \<longrightarrow> \<not> at_work\<^sup>*\<^sup>* queued_state s''" by auto
  then have "at_work\<^sup>*\<^sup>* queued_state s' \<and> (\<nexists>s''. at_work s' s'')" by (meson rtranclp.rtrancl_into_rtrancl)
  with all show ?thesis by blast
qed

end
