(* ===== verification/Handler_Buckets.thy ===== *)
theory Handler_Buckets
  imports Handler_Laws
begin

text \<open>
  What an evaluation does to the bucket store, in every phase: it calls \<open>Apply\<close> at most once,
  with charges that are finite numbers, and the levels that its rules were judged on are those of
  this call.  So whatever contract the store keeps is kept by the handler.
\<close>

section \<open>Finite charges\<close>

text \<open>Weights that are numbers, and not beyond 2^900; and the integers of a decoded request.\<close>

definition weight_ok :: "measure_rule \<Rightarrow> bool" where
  "weight_ok r \<longleftrightarrow> (case Weight r of Fin w \<Rightarrow> \<bar>w\<bar> \<le> 2 ^ 900 | _ \<Rightarrow> False)"

definition weights_ok :: "profile \<Rightarrow> bool" where
  "weights_ok p \<longleftrightarrow> list_all weight_ok (sph_measure (pf_response p)) \<and> list_all weight_ok (fph_measure (pf_frame p))"

definition ints_ok :: "request \<Rightarrow> bool" where
  "ints_ok req \<longleftrightarrow>
     (\<forall>v \<in> set (rq_prior req). \<forall>a \<in> set (pv_actions v). in64 (ac_value a)) \<and>
     (\<forall>l. st_body (rq_store req) = Some l \<longrightarrow> in64 (lo_size l))"

definition hits_ok :: "matcher \<Rightarrow> bool" where
  "hits_ok hits \<longleftrightarrow> (\<forall>re b. in64 (int (hits re b)))"

lemma f64_of_int_Fin:
  assumes "in64 n"
  obtains x where "f64_of_int n = Fin x" "\<bar>x\<bar> \<le> 2 ^ 63"
proof -
  have "\<bar>of_int n :: rat\<bar> = of_int \<bar>n\<bar>" by simp
  also have "\<dots> \<le> of_int (2 ^ 63)" using assms unfolding in64_def of_int_le_iff by linarith
  finally show thesis using that f64_of_share [of "of_int n" 63] by (auto simp: f64_of_int_def)
qed

lemma amount_Fin:
  assumes "extract_amount hits r i = Some (a, b)" and "hits_ok hits" and "in64 (in_body_size i)"
  shows "\<exists>x. a = Fin x \<and> \<bar>x\<bar> \<le> 2 ^ 63"
proof -
  obtain x where x: "f64_of_int (in_body_size i) = Fin x" "\<bar>x\<bar> \<le> 2 ^ 63" using f64_of_int_Fin [OF assms(3)] .
  from x(2) have "\<bar>x / 1024\<bar> \<le> 2 ^ 63" by (simp add: abs_le_iff field_simps)
  then obtain y where y: "fdiv (Fin x) (Fin 1024) = Fin y" "\<bar>y\<bar> \<le> 2 ^ 63"
    using f64_of_share [of "x / 1024" 63] by auto
  have h: "\<exists>z. f64_of_int (int (hits re s)) = Fin z \<and> \<bar>z\<bar> \<le> 2 ^ 63" for re s
  proof -
    have "in64 (int (hits re s))" using assms(2) by (simp add: hits_ok_def)
    from f64_of_int_Fin [OF this] show ?thesis by blast
  qed
  from assms(1) show ?thesis
    unfolding extract_amount_def x(1) y(1)
    using x(2) y(2) h by (force split: if_splits option.splits)
qed

lemma run_rule_Fin:
  assumes "run_rule hits c i r = Some vs" and "hits_ok hits" and "in64 (in_body_size i)" and "weight_ok r"
  shows "\<forall>v \<in> set vs. \<exists>x. va_add (fst v) = Fin x"
proof -
  obtain w where w: "Weight r = Fin w" "\<bar>w\<bar> \<le> 2 ^ 900" using assms(4) by (auto simp: weight_ok_def split: f64.splits)
  have "\<exists>z. fmul a (Weight r) = Fin z" if "extract_amount hits r i = Some (a, b)" for a b
  proof -
    from amount_Fin [OF that assms(2,3)] obtain x where x: "a = Fin x" "\<bar>x\<bar> \<le> 2 ^ 63" by blast
    have "\<bar>x * w\<bar> \<le> 2 ^ 63 * 2 ^ 900" unfolding abs_mult by (intro mult_mono x(2) w(2)) simp_all
    then have "\<bar>x * w\<bar> \<le> 2 ^ 963" by (simp only: power_add [symmetric]) simp
    then obtain z where "f64_of (x * w) = Fin z" using f64_of_share [of "x * w" 963] by auto
    then show ?thesis unfolding x(1) w(1) by simp
  qed
  with assms(1) show ?thesis
    by (auto simp: run_rule_def Let_def split: if_splits option.splits prod.splits)
qed

lemma run_rules_Fin:
  assumes "hits_ok hits" and "in64 (in_body_size i)"
  shows "run_rules hits c i rs = Some vs \<Longrightarrow> list_all weight_ok rs \<Longrightarrow> \<forall>v \<in> set vs. \<exists>x. va_add (fst v) = Fin x"
proof (induction rs arbitrary: vs)
  case Nil
  then show ?case by simp
next
  case (Cons r rs)
  then obtain us ws where v: "run_rule hits c i r = Some us" "run_rules hits c i rs = Some ws" "vs = us @ ws"
    by (auto split: option.splits)
  from run_rule_Fin [OF v(1) assms] Cons.IH [OF v(2)] Cons.prems(2) show ?case by (auto simp: v(3))
qed

lemma Run_Fin:
  assumes "Measure.Run hits rs c i = Some (vals, rows)" and "hits_ok hits" and "in64 (in_body_size i)"
    and "list_all weight_ok rs" and "v \<in> set vals"
  shows "\<exists>x. va_add v = Fin x"
  using assms run_rules_Fin [OF assms(2,3), of c rs] by (force simp: Measure.Run_def split: option.splits)

lemma charges_ok_append [simp]: "charges_ok (a @ b) \<longleftrightarrow> charges_ok a \<and> charges_ok b"
  by (simp add: charges_ok_def)

lemma value_charges_ok:
  "(\<And>v. v \<in> set vals \<Longrightarrow> \<exists>x. va_add v = Fin x) \<Longrightarrow> charges_ok (value_charges keys vals)"
  by (fastforce simp: value_charges_def charges_ok_def list_all_iff map_filter_set)

lemma foldl_note_ok:
  assumes "\<And>v a. v \<in> set es \<Longrightarrow> a \<in> set (pv_actions v) \<Longrightarrow> in64 (ac_value a)" and "n \<in> set (as_notes (EvaluatePrior es po c phase))"
  shows "in64 (nc_percent n)"
proof (cases po)
  case None
  with assms(2) show ?thesis by (simp add: EvaluatePrior_def no_asks_def)
next
  case (Some p)
  have "as_notes (EvaluatePrior es po c phase) = concat (map (act_notes c (pf_prior p)) (heard p phase es))"
    using foldl_deliver [of c "pf_prior p" "heard p phase es" no_asks]
    by (simp add: EvaluatePrior_def Some evaluate_heard step_of_def Let_def no_asks_def)
  with assms(2) obtain sender act where fa: "(sender, act) \<in> set (heard p phase es)" "nc_percent n = ac_value act"
    by (auto simp: act_notes_def rule_notes_def split: if_splits)
  from fa(1) obtain v where "v \<in> set es" "act \<in> set (pv_actions v)" by (auto simp: heard_def)
  with assms(1) fa(2) show ?thesis by simp
qed

lemma request_notes_ok:
  "ints_ok req \<Longrightarrow> \<forall>n \<in> set (as_notes (EvaluatePrior (rq_prior req) po c phase)). in64 (nc_percent n)"
  unfolding ints_ok_def by (meson foldl_note_ok)

section \<open>One call of the store\<close>

text \<open>
  Either the store was not called and no row was judged, or it was called once with finite charges and
  the rows were judged on the levels of its answer.
\<close>

definition judged_on :: "(level list \<Rightarrow> bool) \<Rightarrow> details \<Rightarrow> bool" where
  "judged_on P det \<longleftrightarrow>
     (\<forall>rows. judge_rows det = Some (EJudge rows) \<longrightarrow>
        (\<exists>ls rules dr mode keys. P ls \<and> rows = snd (judge rules dr mode (level_lookup_of keys (levels_map ls)))))"

definition one_call :: "'s env \<Rightarrow> tiers \<Rightarrow> int \<Rightarrow> 's \<Rightarrow> 's turn \<Rightarrow> bool" where
  "one_call e ts now s a \<longleftrightarrow>
     (turn_state a = s \<and> judged_on (\<lambda>_. False) (turn_details a)) \<or>
     (\<exists>cs rs r. charges_ok cs \<and> en_apply e s ts cs rs now = (turn_state a, r) \<and> judged_on (\<lambda>ls. r = Inr ls) (turn_details a))"

lemma judged_on_none: "judge_rows det = None \<Longrightarrow> judged_on P det"
  by (simp add: judged_on_def)

lemma judged_on_mono: "judged_on P det \<Longrightarrow> (\<And>ls. P ls \<Longrightarrow> Q ls) \<Longrightarrow> judged_on Q det"
  unfolding judged_on_def by metis

lemma judged_on_rows:
  assumes "\<And>x. judge_rows det = Some x \<Longrightarrow> x = EJudge (snd (judge rules dr mode (level_lookup_of keys (levels_map ls))))"
    and "P ls"
  shows "judged_on P det"
  unfolding judged_on_def using assms by (metis engine_val.inject)

lemma one_call_quiet: "turn_state a = s \<Longrightarrow> judge_rows (turn_details a) = None \<Longrightarrow> one_call e ts now s a"
  by (simp add: one_call_def judged_on_none)

lemma failure_quiet [simp]: "key \<noteq> ''judge'' \<Longrightarrow> one_call e ts now s (Done (failure s req p code key why))"
  by (rule one_call_quiet) simp_all

lemma panic_quiet [simp]: "one_call e ts now s (Panics s adds)"
  by (rule one_call_quiet) simp_all

lemma judge_one_call:
  assumes "tiers_ok ts" and "\<forall>n \<in> set (as_notes q). in64 (nc_percent n)"
  shows "one_call e ts now s (h_judge e req p c ts q fill now ms s)"
proof (cases rule: h_judge_shape [of e req p c ts q fill now ms s])
  case early
  then show ?thesis by (rule one_call_quiet)
next
  case (applied keys rs s1 r)
  have ch: "charges_ok (fst (noteCharges (as_notes q) keys ts))" by (rule noteCharges_ok [OF assms])
  show ?thesis
    unfolding one_call_def applied(2)
  proof (intro disjI2 exI conjI)
    show "charges_ok (fst (noteCharges (as_notes q) keys ts))" by (rule ch)
    show "en_apply e s ts (fst (noteCharges (as_notes q) keys ts)) rs now = (turn_state
        (case r of Inl x \<Rightarrow> Done (failure s1 req p CodeBucketsUnavailable ''buckets'' (err_what x))
         | Inr ls \<Rightarrow> judge_verdict e req p q fill ms keys (snd (noteCharges (as_notes q) keys ts)) ls s1), r)"
      using applied(1) by (cases r) simp_all
    show "judged_on (\<lambda>ls. r = Inr ls) (turn_details
        (case r of Inl x \<Rightarrow> Done (failure s1 req p CodeBucketsUnavailable ''buckets'' (err_what x))
         | Inr ls \<Rightarrow> judge_verdict e req p q fill ms keys (snd (noteCharges (as_notes q) keys ts)) ls s1))"
    proof (cases r)
      case (Inl x)
      then show ?thesis by (simp add: judged_on_none)
    next
      case (Inr ls)
      show ?thesis unfolding Inr sum.case
        by (rule judged_on_rows, drule judge_verdict_rows, unfold Judge_def, assumption, simp)
    qed
  qed
qed

lemma value_note_charges_ok:
  assumes "tiers_ok ts" and "\<forall>n \<in> set (as_notes q). in64 (nc_percent n)"
    and "\<And>v. v \<in> set vals \<Longrightarrow> \<exists>x. va_add v = Fin x"
  shows "charges_ok (value_charges keys vals @ fst (noteCharges (as_notes q) keys ts))"
  using value_charges_ok [of vals keys] assms(3) noteCharges_ok [OF assms(1,2)] by simp

lemma phase_details_rows [simp]:
  "judge_rows (phase_details p req ms kvs) = map_of kvs ''judge''"
  by (simp add: judge_rows_def phase_details_def)

lemma measure_charge_call:
  assumes "tiers_ok ts" and "\<forall>n \<in> set (as_notes q). in64 (nc_percent n)"
    and "\<And>v. v \<in> set vals \<Longrightarrow> \<exists>x. va_add v = Fin x"
  shows "one_call e ts now s (Done (measure_charge e req p c ts q now ms got vals rows s))"
proof (cases "no_geo e (value_refs vals @ note_refs (as_notes q)) \<or> Failed (got ! 1)")
  case True
  then show ?thesis by (auto simp: measure_charge_def Let_def)
next
  case False
  let ?keys = "subjectsOf (resolve_of e) (en_hash e) (value_refs vals @ note_refs (as_notes q)) c (client_ip (rq_conn req))
      (headers e (got ! 1)) (rq_sessions req) []"
  let ?cs = "value_charges ?keys vals @ fst (noteCharges (as_notes q) ?keys ts)"
  obtain s1 r where a: "en_apply e s ts ?cs [] now = (s1, r)" by force
  have n: "noteCharges (as_notes q) ?keys ts = (fst (noteCharges (as_notes q) ?keys ts), snd (noteCharges (as_notes q) ?keys ts))"
    by simp
  have "an_state (measure_charge e req p c ts q now ms got vals rows s) = s1 \<and>
      judge_rows (an_details (measure_charge e req p c ts q now ms got vals rows s)) = None"
    using False a
    by (cases r) (simp_all add: measure_charge_def Let_def split_beta)
  with a value_note_charges_ok [OF assms, where keys = ?keys] show ?thesis
    unfolding one_call_def by (metis judged_on_none turn_details.simps(1) turn_state.simps(1))
qed

lemma response_size: "ints_ok req \<Longrightarrow> in64 (in_body_size (response_input e req wantBody got))"
  by (auto simp: ints_ok_def response_input_def in64_def split: option.split)

lemma frame_size: "ints_ok req \<Longrightarrow> in64 (in_body_size (frame_input req wantBody b))"
  by (auto simp: ints_ok_def frame_input_def in64_def split: option.split)

lemma measure_one_call:
  assumes "tiers_ok ts" and "\<forall>n \<in> set (as_notes q). in64 (nc_percent n)" and "ints_ok req" and "hits_ok (en_hits e)"
    and "weights_ok p"
  shows "one_call e ts now s (h_measure e req p c ts q now ms s)"
proof -
  let ?rules = "sph_measure (pf_response p)"
  let ?want = "needsBody ?rules"
  let ?locs = "[st_headers (rq_store req), st_headers (rq_request_store req)] @ (if ?want then [st_body (rq_store req)] else [])"
  have w: "list_all weight_ok ?rules" using assms(5) by (simp add: weights_ok_def)
  show ?thesis
  proof (cases "LoadMany (en_crypto e) (en_loader e) ?locs")
    case None
    then show ?thesis by (simp add: h_measure_def Let_def)
  next
    case got: (Some got)
    show ?thesis
    proof (cases "find Failed got")
      case (Some b)
      then show ?thesis using got by (simp add: h_measure_def Let_def)
    next
      case ok: None
      show ?thesis
      proof (cases "Measure.Run (en_hits e) ?rules c (response_input e req ?want got)")
        case None
        then show ?thesis using got ok by (simp add: h_measure_def Let_def)
      next
        case (Some vr)
        obtain vals rows where vr: "vr = (vals, rows)" by force
        have fin: "\<exists>x. va_add v = Fin x" if "v \<in> set vals" for v
          by (rule Run_Fin [OF Some [unfolded vr] assms(4) response_size [OF assms(3)] w that])
        show ?thesis
        proof (cases "vals = [] \<and> as_notes q = []")
          case True
          show ?thesis
            by (rule one_call_quiet) (use True got ok Some vr in \<open>simp_all add: h_measure_def Let_def\<close>)
        next
          case False
          then have "h_measure e req p c ts q now ms s = Done (measure_charge e req p c ts q now ms got vals rows s)"
            using got ok Some vr by (auto simp: h_measure_def Let_def)
          with measure_charge_call [OF assms(1,2) fin] show ?thesis by simp
        qed
      qed
    qed
  qed
qed

text \<open>The frame: the rows are judged on the answer of the call, unless a skip came first.\<close>

lemma frame_verdict_state [simp]: "turn_state (frame_verdict e req p q ms keys base applied s) = s"
  unfolding frame_verdict_def Let_def by (simp split: prod.split)

lemma frame_verdict_rows:
  assumes "judge_rows (turn_details (frame_verdict e req p q ms keys base applied s)) = Some x"
  shows "x = EJudge (snd (JudgeFrame p (level_lookup_of keys (levels_map applied))))"
proof -
  obtain d rows where d: "JudgeFrame p (level_lookup_of keys (levels_map applied)) = (d, rows)" by force
  have "judge_rows (put True ''judge'' (EJudge rows) base) = Some (EJudge rows)"
    by (simp add: judge_rows_def put_def AList.update_conv')
  with assms show ?thesis
    unfolding frame_verdict_def Let_def d prod.case snd_conv by (auto dest!: after_bans_rows)
qed

lemma frame_base_rows [simp]: "judge_rows (frame_base p req q measured applied noted) = None"
  by (simp add: frame_base_def)

lemma frame_charge_call:
  assumes "tiers_ok ts" and "\<forall>n \<in> set (as_notes q). in64 (nc_percent n)"
    and "\<And>v. v \<in> set vals \<Longrightarrow> \<exists>x. va_add v = Fin x"
  shows "one_call e ts now s (frame_charge e req p c ts q now ms hs vals measured s)"
proof -
  let ?refs = "frame_refs p c q"
  let ?keys = "subjectsOf (resolve_of e) (en_hash e) ?refs c (client_ip (rq_conn req)) hs (rq_sessions req) (rq_conn_id req)"
  let ?cs = "value_charges ?keys vals @ fst (noteCharges (as_notes q) ?keys ts)"
  let ?rs = "reads_of ?keys (fph_judge (pf_frame p)) (fph_outcomes (pf_frame p))"
  let ?a = "frame_charge e req p c ts q now ms hs vals measured s"
  obtain s1 r where a: "en_apply e s ts ?cs ?rs now = (s1, r)" by force
  have "turn_state ?a = s1 \<and> judged_on (\<lambda>ls. r = Inr ls) (turn_details ?a)"
  proof (cases r)
    case (Inl x)
    with a show ?thesis by (simp add: frame_charge_def Let_def split_beta judged_on_none)
  next
    case (Inr ls)
    show ?thesis
    proof (cases "as_skip q")
      case True
      with a Inr show ?thesis by (simp add: frame_charge_def Let_def split_beta judged_on_none)
    next
      case False
      with a Inr have "?a = frame_verdict e req p q ms ?keys
          (frame_base p req q measured ls (snd (noteCharges (as_notes q) ?keys ts))) ls s1"
        by (simp add: frame_charge_def Let_def split_beta)
      moreover have "judged_on (\<lambda>ls'. r = Inr ls') (turn_details (frame_verdict e req p q ms ?keys base ls s1))" for base
        by (rule judged_on_rows, drule frame_verdict_rows, unfold JudgeFrame_def, assumption) (rule Inr)
      ultimately show ?thesis by simp
    qed
  qed
  with a value_note_charges_ok [OF assms, where keys = ?keys] show ?thesis unfolding one_call_def by metis
qed

lemma frame_one_call:
  assumes "tiers_ok ts" and "\<forall>n \<in> set (as_notes q). in64 (nc_percent n)" and "ints_ok req" and "hits_ok (en_hits e)"
    and "weights_ok p"
  shows "one_call e ts now s (h_frame e req p c ts q now ms s)"
proof -
  let ?rules = "fph_measure (pf_frame p)" and ?refs = "frame_refs p c q"
  let ?wb = "needsBody ?rules" and ?wh = "hasConfigurable ?refs c"
  let ?locs = "frame_locs req ?wh ?wb"
  let ?load = "if ?locs = [] then Some [] else LoadMany (en_crypto e) (en_loader e) ?locs"
  have w: "list_all weight_ok ?rules" using assms(5) by (simp add: weights_ok_def)
  show ?thesis
  proof (cases "no_geo e ?refs")
    case True
    then show ?thesis by (simp add: h_frame_def Let_def)
  next
    case geo: False
    show ?thesis
    proof (cases ?load)
      case None
      then show ?thesis using geo unfolding h_frame_def Let_def by simp
    next
      case got: (Some got)
      show ?thesis
      proof (cases "find Failed got")
        case (Some b)
        have "h_frame e req p c ts q now ms s = Done (failure s req p CodeStoreUnavailable ''store'' (bd_unavailable b))"
          unfolding h_frame_def Let_def got if_not_P [OF geo] option.case Some ..
        then show ?thesis by simp
      next
        case ok: None
        let ?b = "if ?wb then got ! (if ?wh then 1 else 0) else empty_body"
        let ?hs = "if ?wh then headers e (got ! 0) else []"
        have f: "h_frame e req p c ts q now ms s =
            (case Measure.Run (en_hits e) ?rules c (frame_input req ?wb ?b) of
               None \<Rightarrow> Panics s []
             | Some (vals, measured) \<Rightarrow> frame_charge e req p c ts q now ms ?hs vals measured s)"
          unfolding h_frame_def Let_def got if_not_P [OF geo] option.case ok ..
        show ?thesis
        proof (cases "Measure.Run (en_hits e) ?rules c (frame_input req ?wb ?b)")
          case None
          then show ?thesis unfolding f by simp
        next
          case (Some vr)
          obtain vals measured where vr: "vr = (vals, measured)" by force
          have "\<exists>x. va_add v = Fin x" if "v \<in> set vals" for v
            by (rule Run_Fin [OF Some [unfolded vr] assms(4) frame_size [OF assms(3)] w that])
          then show ?thesis unfolding f Some vr option.case prod.case by (intro frame_charge_call assms(1,2))
        qed
      qed
    qed
  qed
qed

section \<open>An inspection and an evaluation\<close>

text \<open>What a snapshot must be: parsed counters and weights that are numbers.\<close>

definition finite_snapshot :: "snapshot \<Rightarrow> bool" where
  "finite_snapshot sn \<longleftrightarrow>
     sn_tiers sn = Tiers (sn_counters sn) \<and> finite_numbers (sn_counters sn) \<and>
     validate_counters (sn_counters sn) = None \<and> (\<forall>p \<in> ran (sn_by_name sn). weights_ok p)"

lemma finite_tiers: "finite_snapshot sn \<Longrightarrow> tiers_ok (sn_tiers sn)"
  using accepted_tiers by (auto simp: finite_snapshot_def)

lemma set_cache_call [simp]: "one_call e ts now s (set_cache a) = one_call e ts now s a"
  by (cases a) (simp_all add: one_call_def)

lemma inspect_one_call:
  assumes "finite_snapshot sn" and "ints_ok req" and "hits_ok (en_hits e)"
  shows "one_call e (sn_tiers sn) now s (inspect e (Some sn) req fill now ms s)"
proof (cases rule: inspect_cases [of "Some sn" req e fill now ms s])
  case (phase sn' p q)
  have w: "weights_ok p" using assms(1) phase(2)
    by (auto simp: finite_snapshot_def snap_profile_def intro: ranI split: if_splits)
  note ts = finite_tiers [OF assms(1)] and n = request_notes_ok [OF assms(2)]
  have sn: "sn' = sn" using phase(1) by simp
  show ?thesis
    unfolding phase(6) sn phase(5)
    by (auto intro: judge_one_call [OF ts n] measure_one_call [OF ts n assms(2,3) w] frame_one_call [OF ts n assms(2,3) w])
qed (auto intro: one_call_quiet)

text \<open>The details that go with the reply of an evaluation.\<close>

definition audited :: "effect list \<Rightarrow> details list" where
  "audited effs = List.map_filter (\<lambda>f. case f of Audited ro r det \<Rightarrow> Some det | _ \<Rightarrow> None) effs"

lemma audited_simps [simp]:
  "audited [] = []" "audited (Respond u b # effs) = audited effs" "audited (Audited ro r det # effs) = det # audited effs"
  by (simp_all add: audited_def List.map_filter_simps)

lemma audited_append [simp]: "audited (a @ b) = audited a @ audited b"
  by (induction a) (auto simp: audited_def List.map_filter_simps split: effect.splits)

lemma send_audits: "det' \<in> set (audited (send e u r ro det)) \<Longrightarrow> det' = det"
  by (auto simp: send_def split: if_splits sum.splits)

lemma overload_rows:
  "overloadOnShed e so t shed r det = (Some (r', det'), adds) \<Longrightarrow> judge_rows det' = judge_rows det"
  by (auto simp: overloadOnShed_def Let_def split: prod.splits option.splits)

lemma recover_quiet: "det \<in> set (audited (recoverInto e u rid)) \<Longrightarrow> judged_on P det"
  by (auto simp: recoverInto_def judged_on_none dest!: send_audits split: if_splits)

lemma evaluate_one_call:
  assumes "evaluate e (Some sn) t budget shed now ms s = (s', effs, adds)"
    and "finite_snapshot sn" and "ints_ok (tk_req t)" and "hits_ok (en_hits e)"
  shows "(s' = s \<and> (\<forall>det \<in> set (audited effs). judged_on (\<lambda>_. False) det)) \<or>
    (\<exists>cs rs r. charges_ok cs \<and> en_apply e s (sn_tiers sn) cs rs now = (s', r) \<and>
       (\<forall>det \<in> set (audited effs). judged_on (\<lambda>ls. r = Inr ls) det))"
proof (cases "shed = []")
  case False
  obtain end' ls where o: "overloadOnShed e (Some sn) t shed (ShedReply (tk_req t) shed)
      (engine [(''shed'', EStr shed), (''budget_ms'', ENum (budget_ms budget))]) = (end', ls)" by force
  have "s' = s \<and> (\<forall>det \<in> set (audited effs). judged_on (\<lambda>_. False) det)"
  proof (cases end')
    case None
    with assms(1) False o show ?thesis by (auto simp: evaluate_def intro: recover_quiet)
  next
    case (Some rd)
    obtain r det where rd: "rd = (r, det)" by force
    have "judge_rows det = None" using overload_rows [OF o [unfolded Some rd]] by simp
    moreover have "s' = s" "effs = send e (tk_reply t) r (Some (tk_req t)) det"
      using assms(1) False o Some rd by (auto simp: evaluate_def)
    ultimately show ?thesis by (auto dest!: send_audits intro: judged_on_none)
  qed
  then show ?thesis by blast
next
  case True
  let ?a = "inspect e (Some sn) (tk_req t) (tk_fill t) now ms s"
  have s': "s' = turn_state ?a" and d: "det \<in> set (audited effs) \<Longrightarrow> det = turn_details ?a \<or> judge_rows det = None" for det
    using assms(1) True
    by (auto simp: evaluate_def recoverInto_def dest!: send_audits split: turn.splits if_splits)
  have "judged_on P det" if "det \<in> set (audited effs)" "judged_on P (turn_details ?a)" for P det
    using d [OF that(1)] that(2) judged_on_none by blast
  with inspect_one_call [OF assms(2-4), of now s "tk_fill t" ms] show ?thesis
    unfolding one_call_def s' by blast
qed

text \<open>Under the contract of the store: the state stays sane, and the rules see percentages.\<close>

definition rows_in_percent :: "details \<Rightarrow> bool" where
  "rows_in_percent det \<longleftrightarrow>
     (\<forall>rows. judge_rows det = Some (EJudge rows) \<longrightarrow> (\<forall>row \<in> set rows. percent_ok (ra_percent row)))"

context bucket_store
begin

lemma evaluate_sane:
  assumes "en_apply e = store_apply" and "sane s" and "evaluate e (Some sn) t budget shed now ms s = (s', effs, adds)"
    and "finite_snapshot sn" and "ints_ok (tk_req t)" and "hits_ok (en_hits e)"
  shows "sane s' \<and> (\<forall>det \<in> set (audited effs). rows_in_percent det)"
  using evaluate_one_call [OF assms(3-6)]
proof (elim disjE exE conjE)
  assume h: "s' = s" "\<forall>det \<in> set (audited effs). judged_on (\<lambda>_. False) det"
  then have "\<forall>det \<in> set (audited effs). rows_in_percent det" by (auto simp: rows_in_percent_def judged_on_def)
  with assms(2) h(1) show ?thesis by simp
next
  fix cs rs r
  assume c: "charges_ok cs" and a: "en_apply e s (sn_tiers sn) cs rs now = (s', r)"
    and j: "\<forall>det \<in> set (audited effs). judged_on (\<lambda>ls. r = Inr ls) det"
  note call = a [unfolded assms(1)]
  note ts = finite_tiers [OF assms(4)]
  have p: "list_all (\<lambda>l. percent_ok (lv_percent l)) ls" if "r = Inr ls" for ls
    using percents [OF assms(2) ts c, of rs now ls] call that by simp
  have "rows_in_percent det" if "det \<in> set (audited effs)" for det
    unfolding rows_in_percent_def
  proof (intro allI impI)
    fix rows assume "judge_rows det = Some (EJudge rows)"
    with j that obtain ls rules dr mode keys where
      "r = Inr ls" "rows = snd (judge rules dr mode (level_lookup_of keys (levels_map ls)))"
      unfolding judged_on_def by blast
    with rows_percent [OF p] show "\<forall>row \<in> set rows. percent_ok (ra_percent row)" by blast
  qed
  moreover have "sane s'" using keeps_sane [OF assms(2) ts c, of rs now] call by simp
  ultimately show ?thesis by blast
qed

end

end
