(* ===== verification/Service.thy ===== *)
theory Service
  imports Queue_Progress Handler_Buckets
begin

text \<open>
  The inspector as a whole: messages come in through \<open>receive\<close>, wait in the queue and are evaluated
  by whichever thread the queue gives them to.  An evaluation calls the bucket store at most once,
  so it is one step, at the moment of that call; the snapshot that it works on is any one that was
  served at some time, and its clocks are arbitrary.
\<close>

section \<open>The system\<close>

record 's service =
  sv_queue :: system
  sv_buckets :: 's
  sv_effects :: "effect list"
  sv_lists :: "list_add list"
  sv_received :: "(string \<times> string) list"

definition service_start :: "nat \<Rightarrow> pool \<Rightarrow> 's \<Rightarrow> 's service" where
  "service_start workers p s =
     \<lparr>sv_queue = Queue.start workers p, sv_buckets = s, sv_effects = [], sv_lists = [], sv_received = []\<rparr>"

definition arrive_task :: "task \<Rightarrow> system \<Rightarrow> system" where
  "arrive_task t q = q\<lparr>sy_threads := sy_threads q @ [Submitting t], sy_submitted := sy_submitted q @ [t]\<rparr>"

text \<open>The callback of the subscription: an answer at once, nothing, or a task for the queue.\<close>

definition take_in :: "'s env \<Rightarrow> string \<Rightarrow> string \<Rightarrow> 's service \<Rightarrow> 's service" where
  "take_in e payload subject v =
     (let v1 = v\<lparr>sv_received := sv_received v @ [(payload, subject)]\<rparr> in
      case receive e payload subject of
        Sent effs \<Rightarrow> v1\<lparr>sv_effects := sv_effects v1 @ effs\<rparr>
      | Dropped \<Rightarrow> v1
      | Submitted t \<Rightarrow> v1\<lparr>sv_queue := arrive_task t (sv_queue v1)\<rparr>)"

text \<open>The handler of the pool, called with a task and why it is shed.\<close>

definition handle :: "'s env \<Rightarrow> snapshot option \<Rightarrow> int \<Rightarrow> int \<Rightarrow> f64 \<Rightarrow> event \<Rightarrow> 's service \<Rightarrow> 's service" where
  "handle e so budget now ms ev v =
     (case ev of (t, shed) \<Rightarrow>
        (case evaluate e so t budget shed now ms (sv_buckets v) of
           (s, effs, adds) \<Rightarrow> v\<lparr>sv_buckets := s, sv_effects := sv_effects v @ effs, sv_lists := sv_lists v @ adds\<rparr>))"

inductive service_step :: "'s env \<Rightarrow> (snapshot option \<Rightarrow> bool) \<Rightarrow> 's service \<Rightarrow> 's service \<Rightarrow> bool" for e served where
  message: "service_step e served v (take_in e payload subject v)"
| working: "Queue.step (sv_queue v) q \<Longrightarrow> sy_submitted q = sy_submitted (sv_queue v) \<Longrightarrow>
      sy_log q = sy_log (sv_queue v) @ ev \<Longrightarrow> served so \<Longrightarrow>
      service_step e served v (fold (handle e so budget now ms) ev (v\<lparr>sv_queue := q\<rparr>))"

inductive service_reach :: "'s env \<Rightarrow> (snapshot option \<Rightarrow> bool) \<Rightarrow> 's service \<Rightarrow> 's service \<Rightarrow> bool" for e served v0 where
  start: "service_reach e served v0 v0"
| step: "service_reach e served v0 v \<Longrightarrow> service_step e served v v' \<Longrightarrow> service_reach e served v0 v'"

section \<open>Messages and their replies\<close>

definition wants_reply :: "'s env \<Rightarrow> string \<times> string \<Rightarrow> bool" where
  "wants_reply e m \<longleftrightarrow> snd m \<noteq> [] \<and> receive e (fst m) (snd m) \<noteq> Dropped"

definition submitted_of :: "'s env \<Rightarrow> string \<times> string \<Rightarrow> task option" where
  "submitted_of e m = (case receive e (fst m) (snd m) of Submitted t \<Rightarrow> Some t | _ \<Rightarrow> None)"

definition answered_at_once :: "'s env \<Rightarrow> string \<times> string \<Rightarrow> bool" where
  "answered_at_once e m \<longleftrightarrow> snd m \<noteq> [] \<and> (\<exists>effs. receive e (fst m) (snd m) = Sent effs)"

text \<open>The request that a reply to a payload must name.\<close>

definition rid_of :: "'s env \<Rightarrow> string \<Rightarrow> string" where
  "rid_of e payload = (case Parse (en_unmarshal e) payload of Inl pe \<Rightarrow> pe_rid pe | Inr req \<Rightarrow> rq_rid req)"

definition addresses :: "'s env \<Rightarrow> (string \<times> string) list \<Rightarrow> string \<times> string \<Rightarrow> bool" where
  "addresses e received u_b \<longleftrightarrow>
     (\<exists>payload r. (payload, fst u_b) \<in> set received \<and> snd u_b = en_encode e r \<and> rp_rid r = rid_of e payload)"

definition reply_subjects :: "msg multiset \<Rightarrow> string multiset" where
  "reply_subjects M = filter_mset (\<lambda>u. u \<noteq> []) (image_mset snd M)"

text \<open>The subjects of the messages that are still in the queue or in the hands of a thread.\<close>

definition open_subjects :: "system \<Rightarrow> string multiset" where
  "open_subjects q = reply_subjects (msgs (po_q (sy_pool q)) + total holds_task (sy_threads q))"

lemma reply_subjects_simps [simp]:
  "reply_subjects {#} = {#}" "reply_subjects (M + N) = reply_subjects M + reply_subjects N"
  "reply_subjects (add_mset m M) = (if snd m \<noteq> [] then add_mset (snd m) (reply_subjects M) else reply_subjects M)"
  by (simp_all add: reply_subjects_def)

lemma responses_append [simp]: "responses (a @ b) = responses a @ responses b"
  by (induction a) (auto simp: responses_def List.map_filter_simps split: effect.splits)

lemma responses_Nil [simp]: "responses [] = []"
  by (simp add: responses_def List.map_filter_simps)

lemma send_empty [simp]: "send e [] r ro det = []"
  by (simp add: send_def)

lemma evaluate_silent:
  "tk_reply t = [] \<Longrightarrow> evaluate e so t budget shed now ms s = (s', effs, adds) \<Longrightarrow> effs = []"
  by (auto simp: evaluate_def recoverInto_def split: if_splits prod.splits option.splits turn.splits)

text \<open>
  The record of what left the handler: for every reply its subject, the reply itself, the request that
  it is for, as far as one was understood, and the details.
\<close>

type_synonym entry = "string \<times> reply \<times> request option \<times> details"

definition effects_of :: "'s env \<Rightarrow> entry list \<Rightarrow> effect list" where
  "effects_of e book = concat (map (\<lambda>(u, r, ro, det). [Respond u (en_encode e r), Audited ro r det]) book)"

text \<open>
  A reply goes to a message that came in: to a request that was decoded, or to one that was not, or
  that made the handler panic; these two are errors that say so.
\<close>

definition entry_ok :: "'s env \<Rightarrow> (string \<times> string) list \<Rightarrow> entry \<Rightarrow> bool" where
  "entry_ok e received x \<longleftrightarrow>
     (case x of (u, r, ro, det) \<Rightarrow> \<exists>payload. (payload, u) \<in> set received \<and>
        (case ro of
           Some req \<Rightarrow> Parse (en_unmarshal e) payload = Inr req \<and> rp_rid r = rq_rid req
         | None \<Rightarrow>
             (\<exists>pe. Parse (en_unmarshal e) payload = Inl pe \<and> r = FallbackReply (pe_rid pe) (en_name e) CodeMalformedRequest) \<or>
             (\<exists>req. Parse (en_unmarshal e) payload = Inr req \<and> r = FallbackReply (rq_rid req) (en_name e) CodeInternalError)))"

definition logged :: "'s env \<Rightarrow> (string \<times> string) list \<Rightarrow> effect list \<Rightarrow> bool" where
  "logged e received effs \<longleftrightarrow> (\<exists>book. effs = effects_of e book \<and> (\<forall>x \<in> set book. entry_ok e received x))"

lemma logged_Nil [simp]: "logged e received []"
  unfolding logged_def by (intro exI [of _ "[]"]) (simp add: effects_of_def)

lemma logged_append: "logged e received a \<Longrightarrow> logged e received b \<Longrightarrow> logged e received (a @ b)"
proof -
  assume "logged e received a" "logged e received b"
  then obtain l l' where "a = effects_of e l" "b = effects_of e l'" "\<forall>x \<in> set (l @ l'). entry_ok e received x"
    unfolding logged_def by auto
  then show ?thesis unfolding logged_def by (intro exI [of _ "l @ l'"]) (simp add: effects_of_def)
qed

lemma logged_mono: "logged e received effs \<Longrightarrow> logged e (received @ more') effs"
proof -
  assume "logged e received effs"
  then obtain book where l: "effs = effects_of e book" "\<forall>x \<in> set book. entry_ok e received x" unfolding logged_def by blast
  have "entry_ok e (received @ more') x" if "entry_ok e received x" for x
    using that unfolding entry_ok_def set_append by (cases x) blast
  with l show ?thesis unfolding logged_def by blast
qed

lemma logged_one: "entry_ok e received (u, r, ro, det) \<Longrightarrow> logged e received [Respond u (en_encode e r), Audited ro r det]"
  unfolding logged_def by (intro exI [of _ "[(u, r, ro, det)]"]) (simp add: effects_of_def)

lemma send_logged:
  assumes "\<forall>n. rp_score r = Some n \<longrightarrow> 0 \<le> n \<and> n \<le> 100" and "entry_ok e received (u, r, ro, det)"
  shows "logged e received (send e u r ro det)"
  using send_ok [OF _ assms(1), of u e ro det] logged_one [OF assms(2)] by (cases "u = []") (simp_all add: send_def)

lemma receive_logged:
  assumes "receive e payload u = Sent effs"
  shows "logged e (received @ [(payload, u)]) effs"
proof (cases "Parse (en_unmarshal e) payload")
  case (Inl pe)
  let ?r = "FallbackReply (pe_rid pe) (en_name e) CodeMalformedRequest"
  have "entry_ok e (received @ [(payload, u)]) (u, ?r, None, no_details)"
    unfolding entry_ok_def by (simp, intro exI [of _ payload]) (simp add: Inl)
  then have "logged e (received @ [(payload, u)]) (send e u ?r None no_details)"
    by (rule send_logged [rotated]) (simp add: reply_defs)
  with assms Inl show ?thesis by (simp add: receive_def)
next
  case (Inr req)
  have "entry_ok e (received @ [(payload, u)]) (u, r, Some req, det)" if "rp_rid r = rq_rid req" for r det
    using Inr that by (auto simp: entry_ok_def)
  with assms Inr show ?thesis
    by (auto simp: receive_def reply_defs intro!: send_logged split: if_splits)
qed

lemma evaluate_logged:
  assumes "evaluate e so t budget shed now ms s = (s', effs, adds)"
    and "(payload, tk_reply t) \<in> set received" and "Parse (en_unmarshal e) payload = Inr (tk_req t)"
  shows "logged e received effs"
proof (cases "tk_reply t = []")
  case True
  with evaluate_silent [OF True assms(1)] show ?thesis by simp
next
  case False
  from evaluate_entry [OF False assms(1)] obtain r ro det where
    x: "effs = [Respond (tk_reply t) (en_encode e r), Audited ro r det]"
      "ro = Some (tk_req t) \<and> rp_rid r = rq_rid (tk_req t) \<or>
       ro = None \<and> r = FallbackReply (rq_rid (tk_req t)) (en_name e) CodeInternalError" by blast
  have "entry_ok e received (tk_reply t, r, ro, det)" using x(2) assms(2,3) by (auto simp: entry_ok_def)
  from logged_one [OF this] x(1) show ?thesis by simp
qed

text \<open>What \<open>receive\<close> sends or submits.\<close>

lemma receive_sent:
  assumes "receive e payload u = Sent effs" and "u \<noteq> []"
  shows "\<exists>r. responses effs = [(u, en_encode e r)] \<and> rp_rid r = rid_of e payload"
proof -
  have "\<exists>r ro. effs = send e u r ro no_details \<and> rp_rid r = rid_of e payload \<and> rp_score r = None"
    using assms(1)
    by (auto simp: receive_def rid_of_def reply_defs split: sum.splits if_splits)
  then obtain r ro where r: "effs = send e u r ro no_details" "rp_rid r = rid_of e payload" "rp_score r = None" by blast
  then have "responses effs = [(u, en_encode e r)]" by (simp add: send_ok [OF assms(2)])
  with r(2) show ?thesis by blast
qed

lemma receive_sent_silent: "receive e payload [] = Sent effs \<Longrightarrow> effs = []"
  by (auto simp: receive_def split: sum.splits if_splits)

lemma receive_submitted:
  assumes "receive e payload u = Submitted t"
  shows "tk_reply t = u \<and> rq_rid (tk_req t) = rid_of e payload \<and> Parse (en_unmarshal e) payload = Inr (tk_req t)"
  using assms by (auto simp: receive_def rid_of_def split: sum.splits if_splits)

text \<open>What the handler answers to the events of a step.\<close>

lemma handle_fields [simp]:
  "sv_queue (handle e so budget now ms ev v) = sv_queue v" "sv_received (handle e so budget now ms ev v) = sv_received v"
  by (simp_all add: handle_def split: prod.split)

lemma handles_fields [simp]:
  "sv_queue (fold (handle e so budget now ms) evs v) = sv_queue v"
  "sv_received (fold (handle e so budget now ms) evs v) = sv_received v"
  by (induction evs arbitrary: v) simp_all

lemma handle_responds:
  "\<exists>rs. responses (sv_effects (handle e so budget now ms ev v)) = responses (sv_effects v) @ rs \<and>
     map fst rs = (if tk_reply (fst ev) \<noteq> [] then [tk_reply (fst ev)] else []) \<and>
     (\<forall>x \<in> set rs. \<exists>r. snd x = en_encode e r \<and> rp_rid r = rq_rid (tk_req (fst ev)))"
proof -
  obtain t shed where ev: "ev = (t, shed)" by force
  obtain s effs adds where v: "evaluate e so t budget shed now ms (sv_buckets v) = (s, effs, adds)" by (metis prod_cases3)
  show ?thesis
  proof (cases "tk_reply t = []")
    case True
    with evaluate_silent [OF True v] show ?thesis by (simp add: handle_def ev v)
  next
    case False
    from evaluate_once [OF False v] obtain r where
      "responses effs = [(tk_reply t, en_encode e r)]" "rp_rid r = rq_rid (tk_req t)" by blast
    with False show ?thesis by (intro exI [of _ "[(tk_reply t, en_encode e r)]"]) (auto simp: handle_def ev v)
  qed
qed

lemma handles_respond:
  "\<exists>rs. responses (sv_effects (fold (handle e so budget now ms) evs v)) = responses (sv_effects v) @ rs \<and>
     mset (map fst rs) = reply_subjects (answered evs) \<and>
     (\<forall>x \<in> set rs. \<exists>m r. m \<in># answered evs \<and> snd m = fst x \<and> snd x = en_encode e r \<and> rp_rid r = rq_rid (fst m))"
proof (induction evs arbitrary: v)
  case Nil
  then show ?case by simp
next
  case (Cons ev evs)
  obtain rs where rs: "responses (sv_effects (handle e so budget now ms ev v)) = responses (sv_effects v) @ rs"
      "map fst rs = (if tk_reply (fst ev) \<noteq> [] then [tk_reply (fst ev)] else [])"
      "\<forall>x \<in> set rs. \<exists>r. snd x = en_encode e r \<and> rp_rid r = rq_rid (tk_req (fst ev))"
    using handle_responds by metis
  from Cons.IH [of "handle e so budget now ms ev v"] obtain rs' where
    rs': "responses (sv_effects (fold (handle e so budget now ms) evs (handle e so budget now ms ev v))) =
        responses (sv_effects (handle e so budget now ms ev v)) @ rs'"
      "mset (map fst rs') = reply_subjects (answered evs)"
      "\<forall>x \<in> set rs'. \<exists>m r. m \<in># answered evs \<and> snd m = fst x \<and> snd x = en_encode e r \<and> rp_rid r = rq_rid (fst m)" by blast
  have first: "\<exists>m r. m \<in># answered (ev # evs) \<and> snd m = fst x \<and> snd x = en_encode e r \<and> rp_rid r = rq_rid (fst m)"
    if "x \<in> set rs" for x
  proof -
    have "fst x = tk_reply (fst ev)" using that rs(2) by (cases rs) (auto split: if_splits)
    with rs(3) that show ?thesis by (auto intro!: exI [of _ "msg_of (fst ev)"] simp: msg_of_def)
  qed
  have rest: "\<exists>m r. m \<in># answered (ev # evs) \<and> snd m = fst x \<and> snd x = en_encode e r \<and> rp_rid r = rq_rid (fst m)"
    if x: "x \<in> set rs'" for x
  proof -
    obtain m r where "m \<in># answered evs" "snd m = fst x" "snd x = en_encode e r" "rp_rid r = rq_rid (fst m)"
      using rs'(3) x by blast
    then show ?thesis by (intro exI [of _ m] exI [of _ r]) simp
  qed
  have m: "mset (map fst (rs @ rs')) = reply_subjects (answered (ev # evs))"
    using rs(2) rs'(2) by (simp add: msg_of_def)
  show ?case
  proof (intro exI [of _ "rs @ rs'"] conjI ballI)
    show "responses (sv_effects (fold (handle e so budget now ms) (ev # evs) v)) = responses (sv_effects v) @ rs @ rs'"
      using rs(1) rs'(1) by simp
  next
    fix x assume "x \<in> set (rs @ rs')"
    then consider "x \<in> set rs" | "x \<in> set rs'" by auto
    then show "\<exists>m r. m \<in># answered (ev # evs) \<and> snd m = fst x \<and> snd x = en_encode e r \<and> rp_rid r = rq_rid (fst m)"
      by cases (rule first, assumption, rule rest)
  qed (rule m)
qed

section \<open>The books of the service\<close>

definition service_ok :: "'s env \<Rightarrow> 's service \<Rightarrow> bool" where
  "service_ok e v \<longleftrightarrow>
     sy_submitted (sv_queue v) = List.map_filter (submitted_of e) (sv_received v) \<and>
     mset (map fst (responses (sv_effects v))) =
       mset (map snd (filter (answered_at_once e) (sv_received v))) + reply_subjects (answered (sy_log (sv_queue v))) \<and>
     (\<forall>x \<in> set (responses (sv_effects v)). addresses e (sv_received v) x)"

lemma map_filter_snoc: "List.map_filter f (xs @ [x]) = List.map_filter f xs @ (case f x of None \<Rightarrow> [] | Some y \<Rightarrow> [y])"
  by (induction xs) (auto simp: List.map_filter_simps split: option.split)

lemma addresses_mono: "addresses e rc x \<Longrightarrow> addresses e (rc @ [m]) x"
  by (auto simp: addresses_def)

lemma take_in_fields [simp]:
  "sv_received (take_in e payload u v) = sv_received v @ [(payload, u)]"
  "sv_effects (take_in e payload u v) =
     sv_effects v @ (case receive e payload u of Sent effs \<Rightarrow> effs | _ \<Rightarrow> [])"
  "sv_queue (take_in e payload u v) =
     (case receive e payload u of Submitted t \<Rightarrow> arrive_task t (sv_queue v) | _ \<Rightarrow> sv_queue v)"
  by (simp_all add: take_in_def Let_def split: received.split)

lemma service_ok_message:
  assumes "service_ok e v"
  shows "service_ok e (take_in e payload u v)"
proof (cases "receive e payload u")
  case (Sent effs)
  show ?thesis
  proof (cases "u = []")
    case True
    with receive_sent_silent [OF Sent [unfolded True]] Sent assms show ?thesis
      by (auto simp: service_ok_def map_filter_snoc submitted_of_def answered_at_once_def intro: addresses_mono)
  next
    case False
    from receive_sent [OF Sent False] obtain r where
      r: "responses effs = [(u, en_encode e r)]" "rp_rid r = rid_of e payload" by blast
    then have "addresses e (sv_received v @ [(payload, u)]) (u, en_encode e r)" by (auto simp: addresses_def)
    with Sent False r(1) assms show ?thesis
      by (auto simp: service_ok_def map_filter_snoc submitted_of_def answered_at_once_def intro: addresses_mono)
  qed
next
  case Dropped
  with assms show ?thesis
    by (auto simp: service_ok_def map_filter_snoc submitted_of_def answered_at_once_def intro: addresses_mono)
next
  case (Submitted t)
  with assms show ?thesis
    by (auto simp: service_ok_def map_filter_snoc submitted_of_def answered_at_once_def arrive_task_def intro: addresses_mono)
qed

text \<open>Every task that is answered came with a message.\<close>

lemma submitted_came:
  assumes "service_ok e v" and "m \<in># msgs (sy_submitted (sv_queue v))"
  shows "\<exists>payload. (payload, snd m) \<in> set (sv_received v) \<and> rq_rid (fst m) = rid_of e payload \<and>
    Parse (en_unmarshal e) payload = Inr (fst m)"
proof -
  from assms(2) obtain t where t: "t \<in> set (sy_submitted (sv_queue v))" "m = msg_of t" by (auto simp: msgs_def)
  with assms(1) obtain payload u where p: "(payload, u) \<in> set (sv_received v)" "submitted_of e (payload, u) = Some t"
    by (auto simp: service_ok_def map_filter_set)
  then have "receive e payload u = Submitted t" by (auto simp: submitted_of_def split: received.splits)
  with receive_submitted [OF this] p(1) t(2) show ?thesis by (auto simp: msg_of_def)
qed

lemma service_ok_working:
  assumes "service_ok e v" and "books_ok q" and "sy_submitted q = sy_submitted (sv_queue v)"
    and "sy_log q = sy_log (sv_queue v) @ ev"
  shows "service_ok e (fold (handle e so budget now ms) ev (v\<lparr>sv_queue := q\<rparr>))"
proof -
  let ?v = "v\<lparr>sv_queue := q\<rparr>"
  obtain rs where rs: "responses (sv_effects (fold (handle e so budget now ms) ev ?v)) = responses (sv_effects ?v) @ rs"
      "mset (map fst rs) = reply_subjects (answered ev)"
      "\<forall>x \<in> set rs. \<exists>m r. m \<in># answered ev \<and> snd m = fst x \<and> snd x = en_encode e r \<and> rp_rid r = rq_rid (fst m)"
    using handles_respond by blast
  have sub: "answered ev \<subseteq># msgs (sy_submitted (sv_queue v))"
    using assms(2) unfolding books_ok_def assms(3,4) answered_simps
    by (metis mset_subset_eq_add_left mset_subset_eq_add_right subset_mset.order_trans)
  have "addresses e (sv_received v) x" if "x \<in> set rs" for x
  proof -
    from rs(3) that obtain m r where m: "m \<in># answered ev" "snd m = fst x" "snd x = en_encode e r" "rp_rid r = rq_rid (fst m)"
      by blast
    from submitted_came [OF assms(1) mset_subset_eqD [OF sub m(1)]] obtain payload where
      "(payload, snd m) \<in> set (sv_received v)" "rq_rid (fst m) = rid_of e payload" by blast
    with m(2-4) show ?thesis unfolding addresses_def by (intro exI [of _ payload] exI [of _ r]) simp
  qed
  with rs(1,2) assms(1,3,4) show ?thesis by (auto simp: service_ok_def)
qed

lemma service_queue_reach:
  "service_reach e served (service_start n p s) v \<Longrightarrow> reach (Queue.start n p) (sv_queue v)"
proof (induction rule: service_reach.induct)
  case start
  then show ?case by (simp add: service_start_def reach.refl)
next
  case (step v v')
  from step.hyps(2) show ?case
  proof (cases rule: service_step.cases)
    case (message payload u)
    show ?thesis
    proof (cases "receive e payload u")
      case (Submitted t)
      have "Queue.step (sv_queue v) (arrive_task t (sv_queue v))" unfolding arrive_task_def by (rule Queue.step.arrive)
      with Submitted message step.IH show ?thesis by (auto intro: reach.step)
    qed (use message step.IH in simp_all)
  next
    case (working q)
    with step.IH show ?thesis by (auto intro: reach.step)
  qed
qed

lemma service_reach_ok:
  "service_reach e served (service_start n (newPool d r m f) s) v \<Longrightarrow> service_ok e v"
proof (induction rule: service_reach.induct)
  case start
  then show ?case by (simp add: service_ok_def service_start_def Queue.start_def List.map_filter_simps)
next
  case (step v v')
  from step.hyps(2) show ?case
  proof (cases rule: service_step.cases)
    case (message payload u)
    with step.IH show ?thesis by (simp add: service_ok_message)
  next
    case (working q ev)
    have "books_ok q"
      using step_books [OF working(2) run_books [OF service_queue_reach [OF step.hyps(1)]]] .
    from service_ok_working [OF step.IH this working(3,4)] working(1) show ?thesis by simp
  qed
qed

lemma wanted_split:
  "mset (map snd (filter (wants_reply e) rc)) =
   mset (map snd (filter (answered_at_once e) rc)) + reply_subjects (msgs (List.map_filter (submitted_of e) rc))"
proof (induction rc)
  case Nil
  then show ?case by (simp add: List.map_filter_simps)
next
  case (Cons m rc)
  obtain payload u where m: "m = (payload, u)" by force
  show ?case
  proof (cases "receive e payload u")
    case (Submitted t)
    with receive_submitted [OF Submitted] Cons show ?thesis
      by (simp add: m wants_reply_def answered_at_once_def submitted_of_def List.map_filter_simps msg_of_def)
  qed (use Cons in \<open>simp_all add: m wants_reply_def answered_at_once_def submitted_of_def List.map_filter_simps\<close>)
qed

text \<open>The replies so far, and the messages that still wait for theirs.\<close>

lemma replies_balance:
  assumes "service_reach e served (service_start n (newPool d r m f) s) v"
  shows "mset (map fst (responses (sv_effects v))) + open_subjects (sv_queue v) =
    mset (map snd (filter (wants_reply e) (sv_received v)))"
proof -
  have "answered (sy_log (sv_queue v)) + msgs (po_q (sy_pool (sv_queue v))) +
      total holds_task (sy_threads (sv_queue v)) = msgs (sy_submitted (sv_queue v))"
    using run_books [OF service_queue_reach [OF assms]] by (simp add: books_ok_def)
  with service_reach_ok [OF assms, unfolded service_ok_def] show ?thesis
    unfolding wanted_split open_subjects_def by (simp add: ac_simps flip: reply_subjects_simps(2))
qed

lemma replies_settled:
  assumes "service_reach e served (service_start n (newPool d r m f) s) v"
    and "answered (sy_log (sv_queue v)) = msgs (sy_submitted (sv_queue v))"
  shows "mset (map fst (responses (sv_effects v))) = mset (map snd (filter (wants_reply e) (sv_received v)))"
  unfolding wanted_split using service_reach_ok [OF assms(1), unfolded service_ok_def] assms(2) by simp

text \<open>What the queue can do without another arrival, the service can do with its handler.\<close>

lemma step_grows: "Queue.step q q' \<Longrightarrow> (\<exists>ts. sy_submitted q' = sy_submitted q @ ts) \<and> (\<exists>ev. sy_log q' = sy_log q @ ev)"
  by (induction rule: Queue.step.induct) (auto simp: act_on_def)

lemma reach_grows: "Queue.reach q q' \<Longrightarrow> \<exists>ts. sy_submitted q' = sy_submitted q @ ts"
proof (induction rule: Queue.reach.induct)
  case (step q1 q2)
  then show ?case using step_grows [of q1 q2] by auto
qed simp

lemma service_trans: "service_reach e served v1 v2 \<Longrightarrow> service_reach e served v0 v1 \<Longrightarrow> service_reach e served v0 v2"
  by (induction rule: service_reach.induct) (auto intro: service_reach.step)

lemma service_works:
  assumes "Queue.reach (sv_queue v) q" and "sy_submitted q = sy_submitted (sv_queue v)" and "served so"
  shows "\<exists>v'. service_reach e served v v' \<and> sv_queue v' = q \<and> sv_received v' = sv_received v"
  using assms(1,2)
proof (induction rule: Queue.reach.induct)
  case refl
  show ?case by (intro exI [of _ v]) (simp add: service_reach.start)
next
  case (step q1 q2)
  obtain ts ts' ev where g: "sy_submitted q1 = sy_submitted (sv_queue v) @ ts" "sy_submitted q2 = sy_submitted q1 @ ts'"
      "sy_log q2 = sy_log q1 @ ev"
    using reach_grows [OF step(1)] step_grows [OF step(2)] by blast
  with step(4) have same: "sy_submitted q1 = sy_submitted (sv_queue v)" "sy_submitted q2 = sy_submitted q1" by simp_all
  from step(3) [OF same(1)] obtain v1 where
    v1: "service_reach e served v v1" "sv_queue v1 = q1" "sv_received v1 = sv_received v" by blast
  let ?v = "fold (handle e so 0 0 (Fin 0)) ev (v1\<lparr>sv_queue := q2\<rparr>)"
  have "service_step e served v1 ?v"
    using step(2) same(2) g(3) assms(3) by (intro service_step.working) (simp_all add: v1(2))
  from service_reach.step [OF v1(1) this] show ?case by (intro exI [of _ ?v]) (simp add: v1(3))
qed

text \<open>Every reply of the service is recorded.\<close>

lemma handle_logged:
  assumes "logged e (sv_received v) (sv_effects v)"
    and "(payload, tk_reply (fst ev)) \<in> set (sv_received v)" and "Parse (en_unmarshal e) payload = Inr (tk_req (fst ev))"
  shows "logged e (sv_received v) (sv_effects (handle e so budget now ms ev v))"
  using assms by (auto simp: handle_def split: prod.split intro!: logged_append evaluate_logged)

lemma handles_logged:
  assumes "\<And>ev. ev \<in> set evs \<Longrightarrow> \<exists>payload. (payload, tk_reply (fst ev)) \<in> set received \<and>
      Parse (en_unmarshal e) payload = Inr (tk_req (fst ev))"
  shows "sv_received v = received \<Longrightarrow> logged e received (sv_effects v) \<Longrightarrow>
    logged e received (sv_effects (fold (handle e so budget now ms) evs v))"
  using assms
proof (induction evs arbitrary: v)
  case Nil
  then show ?case by simp
next
  case (Cons ev evs)
  obtain payload where "(payload, tk_reply (fst ev)) \<in> set received" "Parse (en_unmarshal e) payload = Inr (tk_req (fst ev))"
    using Cons.prems(3) [of ev] by auto
  with handle_logged [of e v payload ev so budget now ms] Cons.prems(1,2)
  have "logged e received (sv_effects (handle e so budget now ms ev v))" by simp
  from Cons.IH [OF _ this] Cons.prems(1,3) show ?case by simp
qed

lemma log_received:
  assumes "service_ok e v" and "books_ok q" and "sy_submitted q = sy_submitted (sv_queue v)"
    and "sy_log q = sy_log (sv_queue v) @ ev" and "x \<in> set ev"
  shows "\<exists>payload. (payload, tk_reply (fst x)) \<in> set (sv_received v) \<and> Parse (en_unmarshal e) payload = Inr (tk_req (fst x))"
proof -
  have sub: "answered ev \<subseteq># msgs (sy_submitted (sv_queue v))"
    using assms(2) unfolding books_ok_def assms(3,4) answered_simps
    by (metis mset_subset_eq_add_left mset_subset_eq_add_right subset_mset.order_trans)
  have "msg_of (fst x) \<in># answered ev" using assms(5) by (auto simp: answered_def msgs_def)
  from submitted_came [OF assms(1) mset_subset_eqD [OF sub this]] show ?thesis by (auto simp: msg_of_def)
qed

lemma service_logged:
  "service_reach e served (service_start n (newPool d r m f) s) v \<Longrightarrow> logged e (sv_received v) (sv_effects v)"
proof (induction rule: service_reach.induct)
  case start
  then show ?case by (simp add: service_start_def)
next
  case (step v v')
  from step.hyps(2) show ?case
  proof (cases rule: service_step.cases)
    case (message payload u)
    with step.IH receive_logged [of e payload u _ "sv_received v"] show ?thesis
      by (auto intro!: logged_append intro: logged_mono split: received.split)
  next
    case (working q ev so)
    have "books_ok q"
      using step_books [OF working(2) run_books [OF service_queue_reach [OF step.hyps(1)]]] .
    note came = log_received [OF service_reach_ok [OF step.hyps(1)] this working(3,4)]
    show ?thesis
      unfolding working(1) handles_fields(2) using came step.IH by (intro handles_logged) simp_all
  qed
qed

text \<open>The items that the calls of \<open>Add\<close> bring to the sink.\<close>

fun feed :: "(audit_event \<Rightarrow> string option) \<Rightarrow> bool \<Rightarrow> (nat \<Rightarrow> string) \<Rightarrow> nat \<Rightarrow> effect list \<Rightarrow> sink \<Rightarrow> sink" where
  "feed enc online clock k [] s = s"
| "feed enc online clock k (Respond u b # effs) s = feed enc online clock k effs s"
| "feed enc online clock k (Audited ro r det # effs) s =
     feed enc online clock (Suc k) effs (fst (Add enc online (clock k) ro (Some r) det s))"

text \<open>The specification: the event of a reply to a request that names an audit subject.\<close>

definition event_item :: "(audit_event \<Rightarrow> string option) \<Rightarrow> (nat \<Rightarrow> string) \<Rightarrow> nat \<times> entry \<Rightarrow> item option" where
  "event_item enc clock x =
     (case x of (k, u, r, ro, det) \<Rightarrow>
        (case Option.bind ro rq_audit_subject of
           None \<Rightarrow> None
         | Some subject \<Rightarrow>
             if subject = [] then None
             else map_option (Pair subject) (enc (Build (clock k) ro (Some r) det))))"

lemma Add_item:
  "fst (Add enc True (clock k) ro (Some r) det s) =
   (case event_item enc clock (k, u, r, ro, det) of None \<Rightarrow> s | Some it \<Rightarrow> fst (push it s))"
  by (auto simp: Add_def event_item_def split: option.split prod.split)

lemma feed_items:
  "feed enc True clock k (effects_of e book) s =
   fold (\<lambda>it s. fst (push it s)) (List.map_filter (event_item enc clock) (enumerate k book)) s"
proof (induction book arbitrary: k s)
  case Nil
  then show ?case by (simp add: effects_of_def List.map_filter_simps)
next
  case (Cons x book)
  obtain u r ro det where x: "x = (u, r, ro, det)" by (cases x)
  have "effects_of e (x # book) = Respond u (en_encode e r) # Audited ro r det # effects_of e book"
    by (simp add: effects_of_def x)
  then show ?case
    by (simp add: Cons.IH Add_item [where u = u] x List.map_filter_simps split: option.split)
qed

section \<open>The buckets of the service\<close>

lemma Parse_decoded: "Parse f payload = Inr req \<Longrightarrow> f payload = Some req"
  by (auto simp: Parse_def split: option.splits if_splits)

lemma submitted_decoded:
  assumes "service_ok e v" and "m \<in># msgs (sy_submitted (sv_queue v))"
  shows "\<exists>payload. en_unmarshal e payload = Some (fst m)"
proof -
  from submitted_came [OF assms] Parse_decoded show ?thesis by blast
qed

lemma receive_rows: "receive e payload u = Sent effs \<Longrightarrow> det \<in> set (audited effs) \<Longrightarrow> rows_in_percent det"
  by (auto simp: receive_def rows_in_percent_def dest!: send_audits split: sum.splits if_splits)

text \<open>What the evaluations need to be told of: the snapshots served and the decoded requests.\<close>

definition sound_world :: "'s env \<Rightarrow> (snapshot option \<Rightarrow> bool) \<Rightarrow> bool" where
  "sound_world e served \<longleftrightarrow>
     (\<forall>so. served so \<longrightarrow> (\<exists>sn. so = Some sn \<and> finite_snapshot sn)) \<and>
     (\<forall>payload req. en_unmarshal e payload = Some req \<longrightarrow> ints_ok req) \<and> hits_ok (en_hits e)"

context bucket_store
begin

definition service_sane :: "'s service \<Rightarrow> bool" where
  "service_sane v \<longleftrightarrow> sane (sv_buckets v) \<and> (\<forall>det \<in> set (audited (sv_effects v)). rows_in_percent det)"

lemma handle_sane:
  assumes "en_apply e = store_apply" and "sound_world e served" and "served so" and "service_sane v"
    and "ints_ok (tk_req (fst ev))"
  shows "service_sane (handle e so budget now ms ev v)"
proof -
  obtain t shed where ev: "ev = (t, shed)" by force
  obtain sn where sn: "so = Some sn" "finite_snapshot sn" using assms(2,3) by (auto simp: sound_world_def)
  obtain s effs adds where v: "evaluate e (Some sn) t budget shed now ms (sv_buckets v) = (s, effs, adds)" by (metis prod_cases3)
  have "hits_ok (en_hits e)" "sane (sv_buckets v)" using assms(2,4) by (simp_all add: sound_world_def service_sane_def)
  from evaluate_sane [OF assms(1) this(2) v sn(2) _ this(1)] assms(4,5) show ?thesis
    by (auto simp: service_sane_def handle_def ev sn(1) v)
qed

lemma handles_sane:
  assumes "en_apply e = store_apply" and "sound_world e served" and "served so"
  shows "service_sane v \<Longrightarrow> (\<And>ev. ev \<in> set evs \<Longrightarrow> ints_ok (tk_req (fst ev))) \<Longrightarrow>
    service_sane (fold (handle e so budget now ms) evs v)"
proof (induction evs arbitrary: v)
  case Nil
  then show ?case by simp
next
  case (Cons ev evs)
  have "service_sane (handle e so budget now ms ev v)"
    by (rule handle_sane [OF assms Cons.prems(1)]) (simp add: Cons.prems(2))
  from Cons.IH [OF this] Cons.prems(2) show ?case by simp
qed

lemma service_reach_sane:
  assumes "en_apply e = store_apply" and "sound_world e served" and "sane s0"
    and "service_reach e served (service_start n (newPool d r m f) s0) v"
  shows "service_sane v"
  using assms(4)
proof (induction rule: service_reach.induct)
  case start
  then show ?case using assms(3) by (simp add: service_sane_def service_start_def)
next
  case (step v v')
  from step.hyps(2) show ?case
  proof (cases rule: service_step.cases)
    case (message payload u)
    have "rows_in_percent det"
      if "det \<in> set (audited (case receive e payload u of Sent effs \<Rightarrow> effs | _ \<Rightarrow> []))" for det
      using that receive_rows by (auto split: received.splits)
    moreover have "sv_buckets v' = sv_buckets v"
      by (simp add: message take_in_def Let_def split: received.split)
    ultimately show ?thesis using step.IH by (auto simp: service_sane_def message)
  next
    case (working q ev so)
    have ok: "service_ok e v" by (rule service_reach_ok [OF step.hyps(1)])
    have "books_ok q"
      using step_books [OF working(2) run_books [OF service_queue_reach [OF step.hyps(1)]]] .
    then have sub: "answered ev \<subseteq># msgs (sy_submitted (sv_queue v))"
      unfolding books_ok_def working(3,4) answered_simps
      by (metis mset_subset_eq_add_left mset_subset_eq_add_right subset_mset.order_trans)
    have "ints_ok (tk_req (fst x))" if "x \<in> set ev" for x
    proof -
      have "msg_of (fst x) \<in># answered ev" using that by (auto simp: answered_def msgs_def)
      from submitted_decoded [OF ok mset_subset_eqD [OF sub this]] assms(2) show ?thesis
        by (auto simp: sound_world_def msg_of_def)
    qed
    moreover have "service_sane (v\<lparr>sv_queue := q\<rparr>)" using step.IH by (simp add: service_sane_def)
    ultimately show ?thesis unfolding working(1) by (intro handles_sane [OF assms(1,2) working(5)])
  qed
qed

end

lemma nothing_open:
  assumes "service_reach e served (service_start n (newPool d r m f) s) v"
    and "WorkDone \<in> set (sy_threads (sv_queue v))" and "\<forall>th \<in> set (sy_threads (sv_queue v)). holds_task th = {#}"
  shows "open_subjects (sv_queue v) = {#}"
proof -
  have "po_q (sy_pool (sv_queue v)) = []"
    using run_wake [OF service_queue_reach [OF assms(1)]] assms(2) unfolding wake_ok_def by force
  with total_idle [of "sy_threads (sv_queue v)" holds_task] assms(3) show ?thesis by (simp add: open_subjects_def)
qed

section \<open>Properties\<close>

text \<open>
  C1 (safety): from the message to the reply, under every schedule of the callbacks, the submitting
  threads, the workers and the sweeper: every message that wants a reply gets at most one, on its own
  subject, and the ones without are exactly those that still are in the queue or in the
  hands of a thread; every reply names the request of a message that came in on its subject; and
  when the pool has closed and the threads are done, every message has had its one reply.
\<close>

theorem service_answers_once:
  assumes "service_reach e served (service_start n (newPool d r m f) s) v"
  shows "mset (map fst (responses (sv_effects v))) + open_subjects (sv_queue v) =
      mset (map snd (filter (wants_reply e) (sv_received v))) \<and>
    (\<forall>x \<in> set (responses (sv_effects v)). addresses e (sv_received v) x) \<and>
    (WorkDone \<in> set (sy_threads (sv_queue v)) \<and> (\<forall>th \<in> set (sy_threads (sv_queue v)). holds_task th = {#}) \<longrightarrow>
       mset (map fst (responses (sv_effects v))) = mset (map snd (filter (wants_reply e) (sv_received v))))"
proof -
  let ?q = "sv_queue v"
  note all = replies_balance [OF assms]
  have "open_subjects ?q = {#}"
    if "WorkDone \<in> set (sy_threads ?q)" "\<forall>th \<in> set (sy_threads ?q). holds_task th = {#}"
    by (rule nothing_open [OF assms that])
  with all service_reach_ok [OF assms] show ?thesis by (auto simp: service_ok_def)
qed

text \<open>A schedule of the queue, with a message for every arrival, as a run of the service.\<close>

fun arrivals :: "move list \<Rightarrow> task list" where
  "arrivals [] = []"
| "arrivals (Arrive t # ms) = t # arrivals ms"
| "arrivals (_ # ms) = arrivals ms"

lemma exec_grows:
  assumes "exec m s = Some s'" and "\<And>t. m \<noteq> Arrive t"
  shows "sy_submitted s' = sy_submitted s \<and> (\<exists>ev. sy_log s' = sy_log s @ ev)"
  using assms
  by (cases m) (auto simp: act_on_def split: if_splits thread.splits prod.splits)

lemma service_follows:
  assumes "exec_all ms (sv_queue v) = Some q" and "\<And>t. t \<in> set (arrivals ms) \<Longrightarrow> receive e payload u = Submitted t"
    and "served so" and "service_reach e served v0 v"
  shows "\<exists>v'. service_reach e served v0 v' \<and> sv_queue v' = q \<and>
    sv_received v' = sv_received v @ replicate (length (arrivals ms)) (payload, u)"
  using assms
proof (induction ms arbitrary: v)
  case Nil
  then show ?case by auto
next
  case (Cons m ms)
  obtain q1 where q1: "exec m (sv_queue v) = Some q1" "exec_all ms q1 = Some q"
    using Cons.prems(1) by (auto split: option.splits)
  show ?case
  proof (cases "\<exists>t. m = Arrive t")
    case True
    then obtain t where t: "m = Arrive t" by blast
    then have r: "receive e payload u = Submitted t" using Cons.prems(2) by simp
    let ?v = "take_in e payload u v"
    have "service_reach e served v0 ?v" using Cons.prems(4) service_step.message by (rule service_reach.step)
    moreover have "sv_queue ?v = q1" using q1(1) by (simp add: t r arrive_task_def)
    ultimately show ?thesis using Cons.IH [of ?v] q1(2) Cons.prems(2,3) by (force simp: t)
  next
    case False
    then obtain ev where ev: "sy_submitted q1 = sy_submitted (sv_queue v)" "sy_log q1 = sy_log (sv_queue v) @ ev"
      using exec_grows [OF q1(1)] by blast
    let ?v = "fold (handle e so 0 0 (Fin 0)) ev (v\<lparr>sv_queue := q1\<rparr>)"
    have "service_step e served v ?v"
      by (intro service_step.working exec_step [OF q1(1)] ev Cons.prems(3))
    with Cons.prems(4) have "service_reach e served v0 ?v" by (rule service_reach.step)
    moreover have "arrivals (m # ms) = arrivals ms" using False by (cases m) simp_all
    ultimately show ?thesis using Cons.IH [of ?v] q1(2) Cons.prems(2,3) by force
  qed
qed

definition service_env :: "ledger env" where
  "service_env = demo_env\<lparr>en_unmarshal := \<lambda>_. Some probe_request\<rparr>"

lemma service_env_receives: "receive service_env ''{}'' ''_INBOX.1'' = Submitted demo_task"
proof -
  have "en_unmarshal service_env = (\<lambda>_. Some probe_request)" by (simp add: service_env_def)
  then have "Parse (en_unmarshal service_env) ''{}'' = Inr probe_request"
    by (simp add: Parse_def probe_request_def demo_task_def validate_store_def validate_locator_def and_then_def)
  then show ?thesis
    by (simp add: receive_def service_env_def demo_env_def Supports_def probe_request_def demo_task_def)
qed

lemma served_run:
  "\<exists>v. service_reach service_env (\<lambda>so. so = Some probe_snapshot) (service_start 1 (newPool 1 2 2 []) (newLedger 100)) v \<and>
     sv_queue v = served_state \<and> sv_received v = [(''{}'', ''_INBOX.1''), (''{}'', ''_INBOX.1'')]"
proof -
  let ?v0 = "service_start 1 (newPool 1 2 2 []) (newLedger 100)"
  have "exec_all demo_served (sv_queue ?v0) = Some served_state"
    using demo_served_runs by (simp add: served_state_def service_start_def demo_start_def)
  moreover have "arrivals demo_served = [demo_task, demo_task]" by (simp add: demo_served_def demo_queued_def)
  ultimately show ?thesis
    using service_follows [of demo_served ?v0 served_state service_env "''{}''" "''_INBOX.1''"
        "\<lambda>so. so = Some probe_snapshot" "Some probe_snapshot" ?v0]
    by (simp add: service_env_receives service_reach.start) (simp add: service_start_def)
qed

theorem service_answers_once_witness:
  "\<exists>v. service_reach service_env (\<lambda>so. so = Some probe_snapshot) (service_start 1 (newPool 1 2 2 []) (newLedger 100)) v \<and>
     mset (map fst (responses (sv_effects v))) = {#''_INBOX.1'', ''_INBOX.1''#}"
proof -
  obtain v where v: "service_reach service_env (\<lambda>so. so = Some probe_snapshot)
      (service_start 1 (newPool 1 2 2 []) (newLedger 100)) v"
    "sv_queue v = served_state" "sv_received v = [(''{}'', ''_INBOX.1''), (''{}'', ''_INBOX.1'')]"
    using served_run by blast
  from service_answers_once [OF v(1)] have
    "mset (map fst (responses (sv_effects v))) = mset (map snd (filter (wants_reply service_env) (sv_received v)))"
    by (simp add: v(2) served_threads)
  with v(1,3) show ?thesis
    by (intro exI [of _ v]) (simp add: wants_reply_def service_env_receives)
qed

text \<open>
  C5 (liveness): no message is ever stuck, from the callback to the reply: from every state of the
  service, whatever came in and however the threads got there, the queue and its workers can
  go on, with any snapshot that is served, to a state where every message that wants a reply has
  had exactly one on its own subject.
\<close>

theorem service_can_answer:
  assumes "0 < n" and "served so" and "service_reach e served (service_start n (newPool d r m f) s) v"
  shows "\<exists>v'. service_reach e served v v' \<and> sv_received v' = sv_received v \<and>
    mset (map fst (responses (sv_effects v'))) = mset (map snd (filter (wants_reply e) (sv_received v)))"
proof -
  have q: "Queue.reach (Queue.start n (newPool d r m f)) (sv_queue v)" using assms(3) by (rule service_queue_reach)
  from drains [OF q run_worker [OF assms(1) q]] obtain q' where
    q': "Queue.reach (sv_queue v) q'" "sy_submitted q' = sy_submitted (sv_queue v)"
      "answered (sy_log q') = msgs (sy_submitted (sv_queue v))" by blast
  from service_works [where served = served, OF q'(1,2) assms(2)] obtain v' where
    v': "service_reach e served v v'" "sv_queue v' = q'" "sv_received v' = sv_received v" by blast
  from replies_settled [OF service_trans [OF v'(1) assms(3)]] v' q'(2,3)
  show ?thesis by (intro exI [of _ v']) simp
qed

theorem service_can_answer_witness:
  "\<exists>v v'. sv_queue v = queued_state \<and> service_reach service_env (\<lambda>so. so = Some probe_snapshot) v v' \<and>
     mset (map fst (responses (sv_effects v'))) = {#''_INBOX.1''#}"
proof -
  let ?served = "\<lambda>so. so = Some probe_snapshot"
  let ?v0 = "service_start 1 (newPool 1 2 2 []) (newLedger 100)"
  have "exec_all demo_queued (sv_queue ?v0) = Some queued_state"
    using demo_queued_runs by (simp add: queued_state_def service_start_def demo_start_def)
  moreover have "arrivals demo_queued = [demo_task]" by (simp add: demo_queued_def)
  ultimately obtain v where v: "service_reach service_env ?served ?v0 v" "sv_queue v = queued_state"
      "sv_received v = [(''{}'', ''_INBOX.1'')]"
    using service_follows [of demo_queued ?v0 queued_state service_env "''{}''" "''_INBOX.1''" ?served "Some probe_snapshot" ?v0]
    by (auto simp: service_env_receives service_reach.start) (simp add: service_start_def)
  from service_can_answer [OF _ _ v(1), of "Some probe_snapshot"] obtain v' where
    "service_reach service_env ?served v v'"
    "mset (map fst (responses (sv_effects v'))) = mset (map snd (filter (wants_reply service_env) (sv_received v)))" by auto
  with v(2,3) show ?thesis
    by (intro exI [of _ v] exI [of _ v']) (simp add: wants_reply_def service_env_receives)
qed

text \<open>
  C6 (safety): nothing is answered in secret.  Under any schedule the service does nothing but send
  replies to messages that came in, and after each it calls \<open>Add\<close> of the sink with the very reply
  that left; the call has the request, except for a message that could not be parsed and for one on
  which the handler panicked, whose replies are the errors that say so.  Of these calls \<open>Add\<close> makes
  events exactly for the replies to a request that names an audit subject and whose event encodes,
  each in its place, on that subject, and built from that reply.
\<close>

theorem service_records_replies:
  assumes "service_reach e served (service_start n (newPool d r m f) s) v"
  shows "\<exists>book. sv_effects v = effects_of e book \<and> (\<forall>x \<in> set book. entry_ok e (sv_received v) x) \<and>
    (\<forall>enc clock sink. feed enc True clock 0 (sv_effects v) sink =
       fold (\<lambda>it s. fst (push it s)) (List.map_filter (event_item enc clock) (enumerate 0 book)) sink)"
proof -
  obtain book where "sv_effects v = effects_of e book" "\<forall>x \<in> set book. entry_ok e (sv_received v) x"
    using service_logged [OF assms] unfolding logged_def by blast
  then show ?thesis by (intro exI [of _ book]) (simp add: feed_items)
qed

theorem service_records_replies_witness:
  "\<exists>(v :: ledger service) book. sv_queue v = served_state \<and> sv_effects v = effects_of service_env book \<and> length book = 2"
proof -
  obtain v where v: "service_reach service_env (\<lambda>so. so = Some probe_snapshot)
      (service_start 1 (newPool 1 2 2 []) (newLedger 100)) v" "sv_queue v = served_state"
    "sv_received v = [(''{}'', ''_INBOX.1''), (''{}'', ''_INBOX.1'')]"
    using served_run by blast
  from service_records_replies [OF v(1)] obtain book where book: "sv_effects v = effects_of service_env book" by blast
  have "open_subjects (sv_queue v) = {#}" by (rule nothing_open [OF v(1)]) (simp_all add: v(2) served_threads)
  with replies_balance [OF v(1)] have "mset (map fst (responses (sv_effects v))) = {#''_INBOX.1'', ''_INBOX.1''#}"
    by (simp add: v(3) wants_reply_def service_env_receives)
  then have "size (mset (map fst (responses (sv_effects v)))) = 2" by simp
  then have "length (responses (sv_effects v)) = 2" by simp
  moreover have "length (responses (effects_of service_env l)) = length l" for l
    by (induction l) (auto simp: effects_of_def responses_def List.map_filter_simps split: prod.split)
  ultimately have "length book = 2" by (simp add: book)
  with v(2) book show ?thesis by blast
qed

text \<open>
  C3 (invariant): over the ledger of the process, with parsed counters and weights that are
  numbers, the service keeps its ledger sane for ever, whatever messages come in whatever order
  and whatever the threads do, and every rule of every phase was judged on a percentage: 0 to
  100, no infinity and no NaN.
\<close>

theorem service_keeps_ledger_sane:
  assumes "en_apply e = local_apply iter" and "sound_world e served" and "ledger_ok (l_m l0)"
    and "service_reach e served (service_start n (newPool d r m f) l0) v"
  shows "ledger_ok (l_m (sv_buckets v)) \<and>
    (\<forall>det \<in> set (audited (sv_effects v)). \<forall>rows. map_of (det_engine det) ''judge'' = Some (EJudge rows) \<longrightarrow>
       (\<forall>row \<in> set rows. fle (Fin 0) (ra_percent row) \<and> fle (ra_percent row) (Fin 100)))"
  using lb.service_reach_sane [OF assms]
  by (simp add: lb.service_sane_def rows_in_percent_def percent_ok_def judge_rows_def)

lemma probe_snapshot_finite: "finite_snapshot probe_snapshot"
proof -
  have "weights_ok default_profile" "weights_ok probe_profile"
    by (simp_all add: weights_ok_def default_profile_def probe_profile_def weight_ok_def Weight_def defaults_def json_rule_def)
  then show ?thesis
    by (auto simp: finite_snapshot_def probe_snapshot_def demo_snapshot_def shipped_counters_finite
        shipped_counters_accepted ran_def)
qed

lemma service_env_sound: "sound_world service_env (\<lambda>so. so = Some probe_snapshot)"
  using probe_snapshot_finite
  by (simp add: sound_world_def service_env_def ints_ok_def probe_request_def demo_task_def hits_ok_def demo_env_def in64_def)

theorem service_keeps_ledger_sane_witness:
  "\<exists>v. service_reach service_env (\<lambda>so. so = Some probe_snapshot) (service_start 1 (newPool 1 2 2 []) (newLedger 100)) v \<and>
     sv_queue v = served_state \<and> ledger_ok (l_m (sv_buckets v))"
proof -
  obtain v where v: "service_reach service_env (\<lambda>so. so = Some probe_snapshot)
      (service_start 1 (newPool 1 2 2 []) (newLedger 100)) v" "sv_queue v = served_state"
    using served_run by blast
  have "en_apply service_env = local_apply id" "ledger_ok (l_m (newLedger 100))"
    by (simp_all add: service_env_def demo_env_def newLedger_def ledger_ok_def)
  from service_keeps_ledger_sane [OF this(1) service_env_sound this(2) v(1)] v show ?thesis by blast
qed

end
