(* ===== verification/Store_Race.thy ===== *)
theory Store_Race
  imports Profile_Store
begin

text \<open>
  \<open>internal/config/profiles.go\<close> as it runs: the goroutine of \<open>Watch\<close>, which calls \<open>Reload\<close> on every
  tick, and the one of the desired state, which calls \<open>ReloadFrom\<close>, share one store.  Only the
  directory is under the mutex; the snapshot and the generation are atomics of their own.  Each
  access to one of the three is a step, and so is each reading of the files, so a schedule is any
  interleaving of these accesses.  A reading sees files that change under it: its file system is any
  function, and another one answers the next step.
\<close>

section \<open>The two goroutines\<close>

text \<open>Where the watcher is: between ticks, in \<open>Reload\<close>, or gone after \<open>ctx.Done\<close>.\<close>

datatype watcher =
    WSelect
  | WDir
  | WFinger string
  | WCompare string
  | WReadDir
  | WReading string
  | WServe snapshot
  | WGone

text \<open>Where \<open>ReloadFrom\<close> is; it remembers the directory that it replaced.\<close>

datatype applier =
    AIdle
  | AReadDir string
  | AReading string string
  | ARestore string
  | AServe snapshot

text \<open>\<open>read\<close> from a directory that was asked for before: it takes its generation when it succeeds.\<close>

definition read_at :: "parsers \<Rightarrow> fs \<Rightarrow> fs \<Rightarrow> string \<Rightarrow> store \<Rightarrow> store \<times> snapshot option" where
  "read_at ps f f' dir s =
     (case read_store ps f f' (s\<lparr>st_dir := dir\<rparr>) of
        Inl _ \<Rightarrow> (s, None)
      | Inr sn \<Rightarrow> (s\<lparr>st_gen := sn_gen sn\<rparr>, Some sn))"

definition watch_act :: "parsers \<Rightarrow> fs \<Rightarrow> fs \<Rightarrow> store \<Rightarrow> watcher \<Rightarrow> store \<times> watcher" where
  "watch_act ps f f' s w =
     (case w of
        WSelect \<Rightarrow> (s, WDir)
      | WDir \<Rightarrow> (s, WFinger (st_dir s))
      | WFinger dir \<Rightarrow> (s, case fingerprint ps f dir of Inl _ \<Rightarrow> WSelect | Inr fp \<Rightarrow> WCompare fp)
      | WCompare fp \<Rightarrow> (s, if map_option sn_fingerprint (st_cur s) = Some fp then WSelect else WReadDir)
      | WReadDir \<Rightarrow> (s, WReading (st_dir s))
      | WReading dir \<Rightarrow>
          (case read_at ps f f' dir s of (s1, None) \<Rightarrow> (s1, WSelect) | (s1, Some sn) \<Rightarrow> (s1, WServe sn))
      | WServe sn \<Rightarrow> (s\<lparr>st_cur := Some sn\<rparr>, WSelect)
      | WGone \<Rightarrow> (s, WGone))"

definition apply_call :: "string \<Rightarrow> store \<Rightarrow> store \<times> applier" where
  "apply_call dir s = (s\<lparr>st_dir := dir\<rparr>, AReadDir (st_dir s))"

definition apply_act :: "parsers \<Rightarrow> fs \<Rightarrow> fs \<Rightarrow> store \<Rightarrow> applier \<Rightarrow> store \<times> applier" where
  "apply_act ps f f' s a =
     (case a of
        AIdle \<Rightarrow> (s, AIdle)
      | AReadDir before \<Rightarrow> (s, AReading before (st_dir s))
      | AReading before dir \<Rightarrow>
          (case read_at ps f f' dir s of (s1, None) \<Rightarrow> (s1, ARestore before) | (s1, Some sn) \<Rightarrow> (s1, AServe sn))
      | ARestore before \<Rightarrow> (s\<lparr>st_dir := before\<rparr>, AIdle)
      | AServe sn \<Rightarrow> (s\<lparr>st_cur := Some sn\<rparr>, AIdle))"

record race =
  rc_store :: store
  rc_watch :: watcher
  rc_apply :: applier

definition race_start :: "store \<Rightarrow> race" where
  "race_start s = \<lparr>rc_store = s, rc_watch = WSelect, rc_apply = AIdle\<rparr>"

inductive race_step :: "parsers \<Rightarrow> race \<Rightarrow> race \<Rightarrow> bool" for ps where
  watch: "watch_act ps f f' (rc_store r) (rc_watch r) = (s, w) \<Longrightarrow>
          race_step ps r (r\<lparr>rc_store := s, rc_watch := w\<rparr>)"
| cancel: "rc_watch r = WSelect \<Longrightarrow> race_step ps r (r\<lparr>rc_watch := WGone\<rparr>)"
| reload_from: "rc_apply r = AIdle \<Longrightarrow> apply_call dir (rc_store r) = (s, a) \<Longrightarrow>
          race_step ps r (r\<lparr>rc_store := s, rc_apply := a\<rparr>)"
| applying: "apply_act ps f f' (rc_store r) (rc_apply r) = (s, a) \<Longrightarrow>
          race_step ps r (r\<lparr>rc_store := s, rc_apply := a\<rparr>)"

inductive_cases race_stepE: "race_step ps r r'"

inductive race_reach :: "parsers \<Rightarrow> race \<Rightarrow> bool" for ps where
  load: "LoadProfiles ps f f' dir = Inr s \<Longrightarrow> race_reach ps (race_start s)"
| step: "race_reach ps r \<Longrightarrow> race_step ps r r' \<Longrightarrow> race_reach ps r'"

section \<open>What no schedule breaks\<close>

definition pending_snaps :: "race \<Rightarrow> snapshot set" where
  "pending_snaps r =
     (case rc_watch r of WServe sn \<Rightarrow> {sn} | _ \<Rightarrow> {}) \<union> (case rc_apply r of AServe sn \<Rightarrow> {sn} | _ \<Rightarrow> {})"

definition race_ok :: "parsers \<Rightarrow> race \<Rightarrow> bool" where
  "race_ok ps r \<longleftrightarrow>
     (\<exists>sn. st_cur (rc_store r) = Some sn \<and> snap_ok ps sn) \<and> (\<forall>sn \<in> pending_snaps r. snap_ok ps sn)"

lemma read_at_cases:
  assumes "read_at ps f f' dir s = (s', so)"
  shows "st_cur s' = st_cur s \<and> st_dir s' = st_dir s \<and> st_base s' = st_base s \<and> (\<forall>sn. so = Some sn \<longrightarrow> snap_ok ps sn)"
  using assms by (auto simp: read_at_def dest: read_store_ok split: sum.splits)

lemma watch_act_ok:
  assumes "watch_act ps f f' s w = (s', w')" and "\<And>sn. w = WServe sn \<Longrightarrow> snap_ok ps sn"
  shows "(st_cur s' = st_cur s \<or> (\<exists>sn. st_cur s' = Some sn \<and> snap_ok ps sn)) \<and> (\<forall>sn. w' = WServe sn \<longrightarrow> snap_ok ps sn)"
  using assms by (cases w) (auto simp: watch_act_def dest!: read_at_cases split: sum.splits prod.splits option.splits if_splits)

lemma apply_act_ok:
  assumes "apply_act ps f f' s a = (s', a')" and "\<And>sn. a = AServe sn \<Longrightarrow> snap_ok ps sn"
  shows "(st_cur s' = st_cur s \<or> (\<exists>sn. st_cur s' = Some sn \<and> snap_ok ps sn)) \<and> (\<forall>sn. a' = AServe sn \<longrightarrow> snap_ok ps sn)"
  using assms by (cases a) (auto simp: apply_act_def dest!: read_at_cases split: prod.splits option.splits)

lemma pending_snaps_iff: "sn \<in> pending_snaps r \<longleftrightarrow> rc_watch r = WServe sn \<or> rc_apply r = AServe sn"
  by (auto simp: pending_snaps_def split: watcher.splits applier.splits)

lemma race_step_ok:
  assumes "race_step ps r r'" and "race_ok ps r"
  shows "race_ok ps r'"
  using assms(1)
proof (cases rule: race_step.cases)
  case (watch f f' s w)
  from watch_act_ok [OF watch(2)] assms(2) watch(1) show ?thesis
    by (auto simp: race_ok_def pending_snaps_iff)
next
  case (applying f f' s a)
  from apply_act_ok [OF applying(2)] assms(2) applying(1) show ?thesis
    by (auto simp: race_ok_def pending_snaps_iff)
qed (use assms(2) in \<open>auto simp: race_ok_def pending_snaps_iff apply_call_def\<close>)

lemma LoadProfiles_ok: "LoadProfiles ps f f' dir = Inr s \<Longrightarrow> \<exists>sn. st_cur s = Some sn \<and> snap_ok ps sn"
  by (auto simp: LoadProfiles_def Let_def dest: read_store_ok split: sum.splits)

lemma race_reach_ok: "race_reach ps r \<Longrightarrow> race_ok ps r"
proof (induction rule: race_reach.induct)
  case (load f f' dir s)
  then show ?case using LoadProfiles_ok by (auto simp: race_ok_def race_start_def pending_snaps_iff)
qed (rule race_step_ok)

section \<open>One goroutine alone\<close>

text \<open>
  Without interference the steps of a goroutine are the operation as a whole, \<open>Reload\<close> and
  \<open>ReloadFrom\<close> of the theory of the store.
\<close>

definition watch_alone :: "parsers \<Rightarrow> fs \<Rightarrow> fs \<Rightarrow> fs \<Rightarrow> store \<Rightarrow> store \<times> watcher" where
  "watch_alone ps f0 f f' s =
     (case watch_act ps f0 f0 s WDir of (s, w) \<Rightarrow>
      case watch_act ps f0 f0 s w of (s, w) \<Rightarrow>
      if w = WSelect then (s, w) else
      case watch_act ps f f' s w of (s, w) \<Rightarrow>
      if w = WSelect then (s, w) else
      case watch_act ps f f' s w of (s, w) \<Rightarrow>
      case watch_act ps f f' s w of (s, w) \<Rightarrow>
      if w = WSelect then (s, w) else watch_act ps f f' s w)"

definition apply_alone :: "parsers \<Rightarrow> fs \<Rightarrow> fs \<Rightarrow> string \<Rightarrow> store \<Rightarrow> store \<times> applier" where
  "apply_alone ps f f' dir s =
     (case apply_call dir s of (s, a) \<Rightarrow>
      case apply_act ps f f' s a of (s, a) \<Rightarrow>
      case apply_act ps f f' s a of (s, a) \<Rightarrow> apply_act ps f f' s a)"

lemma read_at_here: "read_at ps f f' (st_dir s) s =
   (case read_store ps f f' s of Inl _ \<Rightarrow> (s, None) | Inr sn \<Rightarrow> (s\<lparr>st_gen := sn_gen sn\<rparr>, Some sn))"
proof -
  have "s\<lparr>st_dir := st_dir s\<rparr> = s" by simp
  then show ?thesis by (simp only: read_at_def)
qed

lemma watch_alone_Reload: "watch_alone ps f0 f f' s = (fst (Reload ps f0 f f' s), WSelect)"
  by (cases "fingerprint ps f0 (st_dir s)"; cases "read_store ps f f' s")
    (auto simp: watch_alone_def watch_act_def Reload_def read_at_here serve_def)

lemma apply_alone_ReloadFrom: "apply_alone ps f f' dir s = (fst (ReloadFrom ps f f' dir s), AIdle)"
proof -
  have r: "read_at ps f f' dir (s\<lparr>st_dir := dir\<rparr>) =
      (case read_store ps f f' (s\<lparr>st_dir := dir\<rparr>) of
         Inl _ \<Rightarrow> (s\<lparr>st_dir := dir\<rparr>, None) | Inr sn \<Rightarrow> (s\<lparr>st_dir := dir, st_gen := sn_gen sn\<rparr>, Some sn))"
    using read_at_here [of ps f f' "s\<lparr>st_dir := dir\<rparr>"] by simp
  show ?thesis
    by (cases "read_store ps f f' (s\<lparr>st_dir := dir\<rparr>)")
      (simp_all add: apply_alone_def apply_call_def apply_act_def ReloadFrom_def r serve_def Let_def)
qed

section \<open>Properties\<close>

text \<open>
  C9 (invariant): whatever the interleaving of the watcher with the reloads of the desired state, and
  whatever happens to the files under them, a store that has started always serves a snapshot
  in which the default profile exists, every profile passed its own validation and the one against
  the counters of the same snapshot, and the tiers are those of these counters.
\<close>

theorem race_serves_valid:
  assumes "race_reach ps r"
  shows "\<exists>sn raw. st_cur (rc_store r) = Some sn \<and> snap_profile (st_cur (rc_store r)) [] \<noteq> None \<and>
    ParseCounters (ps_counters ps raw) = Inr (sn_counters sn) \<and> sn_tiers sn = Tiers (sn_counters sn) \<and>
    (\<forall>name p. snap_profile (st_cur (rc_store r)) name = Some p \<longrightarrow>
       pf_name p = (if name = [] then DefaultName else name) \<and>
       Validate (ps_compiles ps) p = Inr p \<and> ValidateAgainst p (sn_counters sn) = None) \<and>
    sorted (snap_names (st_cur (rc_store r))) \<and> set (snap_names (st_cur (rc_store r))) = dom (sn_by_name sn)"
  using race_reach_ok [OF assms]
  by (auto simp: race_ok_def snap_ok_def served_ok_def snap_profile_def snap_names_def)

text \<open>
  A directory that changed after it was loaded, and a new one next to it: the watcher has read
  the first when the desired state moves the store to the second, and serves it afterwards.
\<close>

definition moved_fs :: fs where
  "moved_fs = (\<lambda>dir. (demo_fs dir)\<lparr>tr_files :=
     Some [(''default/profile.yaml'', 700, if dir = ''next'' then 9 else 7)]\<rparr>)"

definition moved_snapshot :: "int \<Rightarrow> int \<Rightarrow> snapshot" where
  "moved_snapshot gen mtime = demo_snapshot\<lparr>sn_gen := gen, sn_fingerprint := stamp (''default/profile.yaml'', 700, mtime)\<rparr>"

lemma moved_read:
  assumes "st_base s = ''profiles''" and "st_gen s = g" and "dir = ''profiles'' \<or> dir = ''next''" and "0 \<le> g" and "g < 100"
  shows "read_at demo_parsers moved_fs moved_fs dir s =
    (s\<lparr>st_gen := g + 1\<rparr>, Some (moved_snapshot (g + 1) (if dir = ''next'' then 9 else 7)))"
proof -
  have parts: "tr_entries (moved_fs d) = tr_entries (demo_fs d)" "tr_counters (moved_fs d) = tr_counters (demo_fs d)"
    "tr_profile (moved_fs d) = tr_profile (demo_fs d)" for d by (simp_all add: moved_fs_def)
  have "readProfile demo_parsers moved_fs d n c = readProfile demo_parsers demo_fs d n c" for d n c
    by (simp add: readProfile_def parts)
  then have r: "readProfile demo_parsers moved_fs d ''default'' shipped_counters = Inr (Some default_profile)" for d
    by (simp add: demo_read)
  have p: "readProfile demo_parsers moved_fs d ProbeName c = Inr None" for d c
    by (simp add: readProfile_def parts demo_fs_def)
  have "read_counters demo_parsers moved_fs d = Inr shipped_counters" for d
    by (simp add: read_counters_def parts demo_fs_def demo_parsers_def shipped_parsed)
  moreover have "tr_entries (moved_fs d) = Some [(''_shared'', True), (''default'', True), (''README'', False)]" for d
    by (simp add: parts demo_fs_def)
  ultimately have "read_named demo_parsers moved_fs ''profiles'' dir =
      Inr (shipped_counters, [''default'' \<mapsto> default_profile], [''default''])"
    by (simp add: read_named_def r p add_named_def add_probe_def)
  moreover have "fingerprint demo_parsers moved_fs dir =
      Inr (stamp (''default/profile.yaml'', 700, if dir = ''next'' then 9 else 7))"
    by (simp add: fingerprint_def demo_parsers_def moved_fs_def)
  moreover have "wrap64 (g + 1) = g + 1" using assms(4,5) by (simp add: wrap64_id in64_def)
  ultimately show ?thesis
    using assms(1,2) by (simp add: read_at_def read_store_def moved_snapshot_def demo_snapshot_def)
qed

definition overtaken :: race where
  "overtaken = \<lparr>rc_store = \<lparr>st_dir = ''next'', st_base = ''profiles'', st_cur = Some (moved_snapshot 2 7), st_gen = 3\<rparr>,
     rc_watch = WSelect, rc_apply = AIdle\<rparr>"

lemmas watch_one = race_step.watch [of demo_parsers moved_fs moved_fs]
lemmas apply_one = race_step.applying [of demo_parsers moved_fs moved_fs]

lemma overtaken_reach: "race_reach demo_parsers overtaken"
proof -
  let ?st = "\<lambda>d c g. \<lparr>st_dir = d, st_base = ''profiles'', st_cur = Some c, st_gen = g\<rparr>"
  let ?r = "\<lambda>d c g w a. \<lparr>rc_store = ?st d c g, rc_watch = w, rc_apply = a\<rparr>"
  let ?old = "moved_snapshot 2 7" and ?new = "moved_snapshot 3 9" and ?fp = "stamp (''default/profile.yaml'', 700, 7)"
  note go = race_reach.step
  have fp: "fingerprint demo_parsers moved_fs ''profiles'' = Inr ?fp"
    by (simp add: fingerprint_def demo_parsers_def moved_fs_def)
  have ne: "sn_fingerprint demo_snapshot \<noteq> ?fp" by (simp add: demo_snapshot_def stamp_def format_int_def format_nat.simps)
  have "race_reach demo_parsers (?r ''profiles'' demo_snapshot 1 WSelect AIdle)"
    using race_reach.load [OF demo_load] by (simp add: race_start_def demo_store_def)
  from go [OF this watch_one] have "race_reach demo_parsers (?r ''profiles'' demo_snapshot 1 WDir AIdle)"
    by (simp add: watch_act_def)
  from go [OF this watch_one] have "race_reach demo_parsers (?r ''profiles'' demo_snapshot 1 (WFinger ''profiles'') AIdle)"
    by (simp add: watch_act_def)
  from go [OF this watch_one] have "race_reach demo_parsers (?r ''profiles'' demo_snapshot 1 (WCompare ?fp) AIdle)"
    by (simp add: watch_act_def fp)
  from go [OF this watch_one] have "race_reach demo_parsers (?r ''profiles'' demo_snapshot 1 WReadDir AIdle)"
    by (simp add: watch_act_def ne)
  from go [OF this watch_one] have "race_reach demo_parsers (?r ''profiles'' demo_snapshot 1 (WReading ''profiles'') AIdle)"
    by (simp add: watch_act_def)
  from go [OF this watch_one] have "race_reach demo_parsers (?r ''profiles'' demo_snapshot 2 (WServe ?old) AIdle)"
    by (simp add: watch_act_def moved_read)
  from go [OF this race_step.reload_from [where dir = "''next''"]]
  have "race_reach demo_parsers (?r ''next'' demo_snapshot 2 (WServe ?old) (AReadDir ''profiles''))"
    by (simp add: apply_call_def)
  from go [OF this apply_one]
  have "race_reach demo_parsers (?r ''next'' demo_snapshot 2 (WServe ?old) (AReading ''profiles'' ''next''))"
    by (simp add: apply_act_def)
  from go [OF this apply_one]
  have "race_reach demo_parsers (?r ''next'' demo_snapshot 3 (WServe ?old) (AServe ?new))"
    by (simp add: apply_act_def moved_read)
  from go [OF this apply_one] have "race_reach demo_parsers (?r ''next'' ?new 3 (WServe ?old) AIdle)"
    by (simp add: apply_act_def)
  from go [OF this watch_one] show ?thesis by (simp add: watch_act_def overtaken_def)
qed

theorem race_serves_valid_witness: "snap_profile (st_cur (rc_store overtaken)) [] \<noteq> None"
  using race_serves_valid [OF overtaken_reach] by blast

text \<open>
  The schedule ends with both goroutines idle, \<open>ReloadFrom\<close> has returned without an error, and
  requests are judged with the generation before the applied one; the generation number of the
  served snapshot went back.  The next tick that nothing disturbs repairs it.
\<close>

lemma reload_undoes_apply:
  "race_reach demo_parsers overtaken \<and> rc_watch overtaken = WSelect \<and> rc_apply overtaken = AIdle \<and>
   st_dir (rc_store overtaken) = ''next'' \<and> sn_gen (the (st_cur (rc_store overtaken))) < st_gen (rc_store overtaken) \<and>
   Inr (sn_fingerprint (the (st_cur (rc_store overtaken)))) \<noteq> fingerprint demo_parsers moved_fs ''next''"
  using overtaken_reach
  by (simp add: overtaken_def moved_snapshot_def fingerprint_def demo_parsers_def moved_fs_def stamp_def format_int_def
      format_nat.simps)

lemma tick_repairs:
  assumes "fingerprint ps f (st_dir s) = Inr fp" and "read_store ps f f s = Inr sn"
  shows "map_option sn_fingerprint (st_cur (fst (watch_alone ps f f f s))) = Some fp"
proof -
  have "sn_fingerprint sn = fp" using assms by (auto simp: read_store_def split: sum.splits)
  then show ?thesis using assms by (auto simp: watch_alone_Reload Reload_def)
qed

end
