(* ===== verification/Audit_Threads.thy ===== *)
theory Audit_Threads
  imports Auditing
begin

text \<open>
  \<open>internal/audit/sink.go\<close> as it runs: the goroutine of \<open>loop\<close>, any number of callers of \<open>Add\<close> and
  of \<open>Close\<close>.  A step is a critical section of the mutex, an operation on one of the channels, or
  the sending of one message.  \<open>wake\<close> is a channel with room for one token, \<open>stop\<close> and \<open>done\<close> are
  channels that only get closed, and \<open>select\<close> takes any of its ready cases.  The connection of the
  bus is a parameter that may refuse each message.
\<close>

section \<open>Messages on the bus\<close>

record envelope =
  ep_v :: int
  ep_kind :: string
  ep_items :: "string list"

definition pack :: "(envelope \<Rightarrow> string option) \<Rightarrow> item list \<Rightarrow> string option" where
  "pack marshal its = marshal \<lparr>ep_v = AuditVersion, ep_kind = KindBatch, ep_items = map snd its\<rparr>"

text \<open>\<open>send\<close>: the bytes that the bus took; a failure is only logged.\<close>

definition send_batch :: "(envelope \<Rightarrow> string option) \<Rightarrow> (string \<Rightarrow> string \<Rightarrow> bool) \<Rightarrow> string \<Rightarrow> item list \<Rightarrow> string option" where
  "send_batch marshal publish_ok subject its =
     (case pack marshal its of
        None \<Rightarrow> None
      | Some body \<Rightarrow> if publish_ok subject body then Some body else None)"

section \<open>Goroutines\<close>

text \<open>The loop: in its \<open>select\<close>, or in a flush, which is the last one after \<open>stop\<close>.\<close>

datatype looper = LSelect | LFlush bool | LSending "message list" bool | LEnded

datatype adder = AdLock item | AdKick | AdReturned

text \<open>A caller of \<open>Close\<close>: before \<open>once\<close>, inside it waiting for \<open>done\<close>, or back.\<close>

datatype closer = ClOnce | ClWaiting | ClReturned

record audit_system =
  au_sink :: sink
  au_wake :: bool
  au_stop :: bool
  au_once :: bool
  au_loop :: looper
  au_adders :: "adder list"
  au_closers :: "closer list"
  au_added :: "item list"
  au_out :: "(message \<times> bool) list"
  au_before :: nat

definition audit_start :: audit_system where
  "audit_start = \<lparr>au_sink = newSink, au_wake = False, au_stop = False, au_once = False, au_loop = LSelect,
     au_adders = [], au_closers = [], au_added = [], au_out = [], au_before = 0\<rparr>"

text \<open>\<open>kick\<close>: a token when there is room for one.\<close>

definition kick :: "audit_system \<Rightarrow> audit_system" where
  "kick y = (if au_wake y then y else y\<lparr>au_wake := True\<rparr>)"

datatype select_case = OnStop | OnWake | OnTick

definition loop_select :: "select_case \<Rightarrow> audit_system \<Rightarrow> audit_system option" where
  "loop_select c y =
     (case c of
        OnStop \<Rightarrow> if au_stop y then Some (y\<lparr>au_loop := LFlush True\<rparr>) else None
      | OnWake \<Rightarrow> if au_wake y then Some (y\<lparr>au_wake := False, au_loop := LFlush False\<rparr>) else None
      | OnTick \<Rightarrow> Some (y\<lparr>au_loop := LFlush False\<rparr>))"

text \<open>One turn of \<open>flush\<close>, which ends the loop when it was the last flush.\<close>

definition loop_flush :: "bool \<Rightarrow> audit_system \<Rightarrow> audit_system" where
  "loop_flush final y =
     (case take_batch (au_sink y) of
        None \<Rightarrow> y\<lparr>au_loop := (if final then LEnded else LSelect)\<rparr>
      | Some (s, its) \<Rightarrow> y\<lparr>au_sink := s, au_loop := LSending (publish its) final\<rparr>)"

definition loop_send :: "bool \<Rightarrow> message list \<Rightarrow> bool \<Rightarrow> audit_system \<Rightarrow> audit_system" where
  "loop_send taken ms final y =
     (case ms of
        [] \<Rightarrow> y\<lparr>au_loop := LFlush final\<rparr>
      | m # ms \<Rightarrow> y\<lparr>au_loop := LSending ms final, au_out := au_out y @ [(m, taken)]\<rparr>)"

definition add_lock :: "nat \<Rightarrow> item \<Rightarrow> audit_system \<Rightarrow> audit_system" where
  "add_lock i it y =
     (case push it (au_sink y) of (s, full) \<Rightarrow>
        y\<lparr>au_sink := s, au_added := au_added y @ [it],
          au_adders := (au_adders y)[i := if full then AdKick else AdReturned]\<rparr>)"

definition add_kick :: "nat \<Rightarrow> audit_system \<Rightarrow> audit_system" where
  "add_kick i y = (kick y)\<lparr>au_adders := (au_adders y)[i := AdReturned]\<rparr>"

text \<open>\<open>once.Do\<close>: the first caller closes \<open>stop\<close>, the others wait until it is back.\<close>

definition close_once :: "nat \<Rightarrow> audit_system \<Rightarrow> audit_system option" where
  "close_once i y =
     (if \<not> au_stop y then
        Some (y\<lparr>au_stop := True, au_before := length (au_added y), au_closers := (au_closers y)[i := ClWaiting]\<rparr>)
      else if au_once y then Some (y\<lparr>au_closers := (au_closers y)[i := ClReturned]\<rparr>)
      else None)"

definition close_done :: "nat \<Rightarrow> audit_system \<Rightarrow> audit_system option" where
  "close_done i y =
     (if au_loop y = LEnded then Some (y\<lparr>au_once := True, au_closers := (au_closers y)[i := ClReturned]\<rparr>) else None)"

inductive audit_step :: "audit_system \<Rightarrow> audit_system \<Rightarrow> bool" where
  add_call: "audit_step y (y\<lparr>au_adders := au_adders y @ [AdLock it]\<rparr>)"
| add_lock: "i < length (au_adders y) \<Longrightarrow> au_adders y ! i = AdLock it \<Longrightarrow> audit_step y (add_lock i it y)"
| add_kick: "i < length (au_adders y) \<Longrightarrow> au_adders y ! i = AdKick \<Longrightarrow> audit_step y (add_kick i y)"
| select: "au_loop y = LSelect \<Longrightarrow> loop_select c y = Some y' \<Longrightarrow> audit_step y y'"
| flush: "au_loop y = LFlush final \<Longrightarrow> audit_step y (loop_flush final y)"
| send: "au_loop y = LSending ms final \<Longrightarrow> audit_step y (loop_send taken ms final y)"
| close_call: "audit_step y (y\<lparr>au_closers := au_closers y @ [ClOnce]\<rparr>)"
| close_once: "i < length (au_closers y) \<Longrightarrow> au_closers y ! i = ClOnce \<Longrightarrow> close_once i y = Some y' \<Longrightarrow> audit_step y y'"
| close_done: "i < length (au_closers y) \<Longrightarrow> au_closers y ! i = ClWaiting \<Longrightarrow> close_done i y = Some y' \<Longrightarrow> audit_step y y'"

inductive audit_reach :: "audit_system \<Rightarrow> bool" where
  start: "audit_reach audit_start"
| step: "audit_reach y \<Longrightarrow> audit_step y y' \<Longrightarrow> audit_reach y'"

section \<open>Refinement of the sink of additions and turns\<close>

text \<open>What is in the hands of the loop counts as sent, as in the sink of the theory before.\<close>

definition in_flight :: "looper \<Rightarrow> message list" where
  "in_flight l = (case l of LSending ms _ \<Rightarrow> ms | _ \<Rightarrow> [])"

definition abs_sink :: "audit_system \<Rightarrow> sink_system" where
  "abs_sink y = \<lparr>ss_sink = au_sink y, ss_added = au_added y, ss_sent = map fst (au_out y) @ in_flight (au_loop y)\<rparr>"

lemma in_flight_simps [simp]:
  "in_flight LSelect = []" "in_flight (LFlush b) = []" "in_flight (LSending ms b) = ms" "in_flight LEnded = []"
  by (simp_all add: in_flight_def)

lemmas audit_ops = kick_def loop_select_def loop_flush_def loop_send_def add_lock_def add_kick_def close_once_def close_done_def

lemma abs_step:
  assumes "audit_step y y'"
  shows "abs_sink y' = abs_sink y \<or> sink_step (abs_sink y) (abs_sink y')"
  using assms
proof (cases rule: audit_step.cases)
  case (add_lock i it)
  have "abs_sink y' = (abs_sink y)\<lparr>ss_sink := fst (push it (ss_sink (abs_sink y))), ss_added := ss_added (abs_sink y) @ [it]\<rparr>"
    by (simp add: abs_sink_def add_lock(1) add_lock_def split: prod.split)
  then show ?thesis using sink_step.add by metis
next
  case (flush final)
  show ?thesis
  proof (cases "take_batch (au_sink y)")
    case None
    then show ?thesis using flush by (simp add: abs_sink_def loop_flush_def)
  next
    case (Some r)
    obtain s its where r: "r = (s, its)" by force
    have t: "take_batch (ss_sink (abs_sink y)) = Some (s, its)" using Some r by (simp add: abs_sink_def)
    have "abs_sink y' = (abs_sink y)\<lparr>ss_sink := s, ss_sent := ss_sent (abs_sink y) @ publish its\<rparr>"
      using flush Some r by (simp add: abs_sink_def loop_flush_def)
    then show ?thesis using sink_step.turn [OF t] by simp
  qed
next
  case (send ms final taken)
  then show ?thesis by (cases ms) (simp_all add: abs_sink_def loop_send_def)
qed (auto simp: abs_sink_def audit_ops split: if_splits select_case.splits)

lemma abs_reach: "audit_reach y \<Longrightarrow> sink_reach (abs_sink y)"
proof (induction rule: audit_reach.induct)
  case start
  have "abs_sink audit_start = sink_start" by (simp add: abs_sink_def audit_start_def sink_start_def)
  then show ?case using sink_reach.start by simp
next
  case (step y y')
  with abs_step [OF step.hyps(2)] show ?case by (auto intro: sink_reach.step)
qed

lemma reach_sink_ok: "audit_reach y \<Longrightarrow> sink_ok (au_sink y)"
  using stream_reach [OF abs_reach] by (auto simp: stream_ok_def abs_sink_def)

section \<open>Closing\<close>

definition last_flush :: "looper \<Rightarrow> bool" where
  "last_flush l \<longleftrightarrow> (case l of LSelect \<Rightarrow> False | LFlush b \<Rightarrow> b | LSending _ b \<Rightarrow> b | LEnded \<Rightarrow> True)"

text \<open>
  What is pending are the newest additions; once the loop has ended, only additions after \<open>stop\<close>.
\<close>

definition close_ok :: "audit_system \<Rightarrow> bool" where
  "close_ok y \<longleftrightarrow>
     (\<exists>k \<le> length (au_added y). si_pending (au_sink y) = drop k (au_added y) \<and> (au_loop y = LEnded \<longrightarrow> au_before y \<le> k)) \<and>
     (au_stop y \<longrightarrow> au_before y \<le> length (au_added y)) \<and> (last_flush (au_loop y) \<longrightarrow> au_stop y) \<and>
     (au_once y \<or> ClReturned \<in> set (au_closers y) \<longrightarrow> au_loop y = LEnded)"

lemma last_flush_simps [simp]:
  "\<not> last_flush LSelect" "last_flush (LFlush b) = b" "last_flush (LSending ms b) = b" "last_flush LEnded"
  by (simp_all add: last_flush_def)

lemma mem_update: "x \<in> set (xs[i := z]) \<Longrightarrow> x = z \<or> x \<in> set xs"
  using set_update_subset_insert by fastforce

lemma close_ok_add:
  assumes "close_ok y" and "sink_ok (au_sink y)"
  shows "close_ok (add_lock i it y)"
proof -
  obtain s full where p: "push it (au_sink y) = (s, full)" by force
  from push_pending [OF assms(2) p] obtain j where
    j: "si_pending s = drop j (si_pending (au_sink y) @ [it])" "j \<le> Suc (length (si_pending (au_sink y)))" by metis
  from assms(1) obtain k where k: "k \<le> length (au_added y)" "si_pending (au_sink y) = drop k (au_added y)"
    "au_loop y = LEnded \<longrightarrow> au_before y \<le> k" by (auto simp: close_ok_def)
  have "k + j \<le> length (au_added y @ [it])" using j(2) k(1) by (simp add: k(2))
  moreover have "si_pending s = drop (k + j) (au_added y @ [it])" using k(1,2) j(1) by (simp add: add.commute)
  moreover have "au_loop y = LEnded \<longrightarrow> au_before y \<le> k + j" using k(3) by auto
  ultimately have "\<exists>k' \<le> length (au_added y @ [it]). si_pending s = drop k' (au_added y @ [it]) \<and>
      (au_loop y = LEnded \<longrightarrow> au_before y \<le> k')" by blast
  moreover have "au_stop y \<longrightarrow> au_before y \<le> length (au_added y @ [it])" using assms(1) by (simp add: close_ok_def le_SucI)
  ultimately show ?thesis using assms(1) unfolding close_ok_def
    by (simp add: add_lock_def p del: drop_append length_append)
qed

lemma close_ok_flush:
  assumes "close_ok y" and "au_loop y = LFlush final"
  shows "close_ok (loop_flush final y)"
proof (cases "take_batch (au_sink y)")
  case None
  then have "si_pending (au_sink y) = drop (length (au_added y)) (au_added y)"
    by (auto simp: take_batch_def Let_def split: if_splits)
  with assms None show ?thesis by (auto simp: close_ok_def loop_flush_def intro!: exI [of _ "length (au_added y)"])
next
  case (Some r)
  obtain s its where r: "r = (s, its)" by force
  from assms(1) obtain k where k: "k \<le> length (au_added y)" "si_pending (au_sink y) = drop k (au_added y)"
    by (auto simp: close_ok_def)
  from take_batch_parts(1) [OF Some [unfolded r]] k(2) have d: "drop k (au_added y) = its @ si_pending s" by simp
  then have "si_pending s = drop (k + length its) (au_added y)"
    by (metis add.commute append_eq_conv_conj drop_drop)
  moreover have "k + length its \<le> length (au_added y)" using arg_cong [OF d, of length] k(1) by simp
  ultimately have "\<exists>k \<le> length (au_added y). si_pending s = drop k (au_added y)" by blast
  with assms Some r show ?thesis by (auto simp: close_ok_def loop_flush_def)
qed

lemma close_ok_step: "audit_step y y' \<Longrightarrow> sink_ok (au_sink y) \<Longrightarrow> close_ok y \<Longrightarrow> close_ok y'"
proof (induction rule: audit_step.induct)
  case (add_lock i y it)
  then show ?case by (simp add: close_ok_add)
next
  case (add_kick i y)
  then show ?case by (simp add: close_ok_def add_kick_def kick_def)
next
  case (select y c y')
  then show ?case by (auto simp: close_ok_def loop_select_def split: select_case.splits if_splits)
next
  case (flush y final)
  then show ?case by (simp add: close_ok_flush)
next
  case (send y ms final taken)
  then show ?case by (auto simp: close_ok_def loop_send_def split: list.splits)
next
  case (close_once i y y')
  then show ?case by (auto simp: close_ok_def close_once_def split: if_splits dest!: mem_update)
next
  case (close_done i y y')
  then show ?case by (auto simp: close_ok_def close_done_def split: if_splits)
qed (auto simp: close_ok_def)

lemma reach_close_ok: "audit_reach y \<Longrightarrow> close_ok y"
proof (induction rule: audit_reach.induct)
  case start
  then show ?case by (simp add: close_ok_def audit_start_def newSink_def)
next
  case (step y y')
  then show ?case using close_ok_step reach_sink_ok by blast
qed

section \<open>Waking\<close>

definition notice_ok :: "audit_system \<Rightarrow> bool" where
  "notice_ok y \<longleftrightarrow> (au_loop y = LSelect \<and> sink_full (au_sink y) \<longrightarrow> au_wake y \<or> AdKick \<in> set (au_adders y))"

lemma empty_not_full: "sink_ok s \<Longrightarrow> take_batch s = None \<Longrightarrow> \<not> sink_full s"
  by (auto simp: take_batch_def Let_def sink_full_def sink_ok_def sizeOf_def split: if_splits)

lemma push_full: "push it s = (s', full) \<Longrightarrow> full = sink_full s'"
  by (auto simp: push_def Let_def)

lemma notice_step: "audit_step y y' \<Longrightarrow> sink_ok (au_sink y) \<Longrightarrow> notice_ok y \<Longrightarrow> notice_ok y'"
proof (induction rule: audit_step.induct)
  case (add_lock i y it)
  obtain s full where p: "push it (au_sink y) = (s, full)" by force
  have "AdKick \<in> set ((au_adders y)[i := AdKick])" using add_lock.hyps(1) by (rule set_update_memI)
  with push_full [OF p] show ?case by (simp add: notice_ok_def add_lock_def p)
next
  case (add_kick i y)
  then show ?case by (simp add: notice_ok_def add_kick_def kick_def)
next
  case (select y c y')
  then show ?case by (auto simp: notice_ok_def loop_select_def split: select_case.splits if_splits)
next
  case (flush y final)
  then show ?case using empty_not_full by (auto simp: notice_ok_def loop_flush_def split: option.splits)
next
  case (send y ms final taken)
  then show ?case by (auto simp: notice_ok_def loop_send_def split: list.splits)
next
  case (close_once i y y')
  then show ?case by (auto simp: notice_ok_def close_once_def split: if_splits)
next
  case (close_done i y y')
  then show ?case by (auto simp: notice_ok_def close_done_def split: if_splits)
qed (auto simp: notice_ok_def)

lemma reach_notice_ok: "audit_reach y \<Longrightarrow> notice_ok y"
proof (induction rule: audit_reach.induct)
  case start
  then show ?case by (simp add: notice_ok_def audit_start_def newSink_def sink_full_def)
next
  case (step y y')
  then show ?case using notice_step reach_sink_ok by blast
qed

section \<open>The loop on its own\<close>

abbreviation audit_run :: "audit_system \<Rightarrow> audit_system \<Rightarrow> bool" where
  "audit_run \<equiv> audit_step\<^sup>*\<^sup>*"

definition calm :: "audit_system \<Rightarrow> audit_system \<Rightarrow> bool" where
  "calm y y' \<longleftrightarrow> au_stop y' = au_stop y \<and> au_added y' = au_added y \<and> au_closers y' = au_closers y"

lemma calm_refl [simp]: "calm y y"
  by (simp add: calm_def)

lemma calm_trans: "calm x y \<Longrightarrow> calm y z \<Longrightarrow> calm x z"
  by (simp add: calm_def)

lemma run_sending:
  "au_loop y = LSending ms final \<Longrightarrow>
   \<exists>y'. audit_run y y' \<and> calm y y' \<and> au_loop y' = LFlush final \<and> au_sink y' = au_sink y"
proof (induction ms arbitrary: y)
  case Nil
  let ?z = "loop_send True [] final y"
  have "audit_run y ?z" using audit_step.send [OF Nil] by (rule r_into_rtranclp)
  then show ?case by (intro exI [of _ ?z]) (simp add: loop_send_def calm_def)
next
  case (Cons m ms)
  let ?z = "loop_send True (m # ms) final y"
  have z: "au_loop ?z = LSending ms final" "calm y ?z" "au_sink ?z = au_sink y" by (simp_all add: loop_send_def calm_def)
  from Cons.IH [OF z(1)] z(2,3) audit_step.send [OF Cons.prems, of True] show ?case
    by (auto intro: converse_rtranclp_into_rtranclp calm_trans)
qed

lemma run_flush:
  "au_loop y = LFlush final \<Longrightarrow>
   \<exists>y'. audit_run y y' \<and> calm y y' \<and> au_loop y' = (if final then LEnded else LSelect)"
proof (induction "length (si_pending (au_sink y))" arbitrary: y rule: less_induct)
  case less
  let ?z = "loop_flush final y"
  have step: "audit_step y ?z" using less.prems by (rule audit_step.flush)
  show ?case
  proof (cases "take_batch (au_sink y)")
    case None
    with step show ?thesis by (intro exI [of _ ?z]) (auto simp: loop_flush_def calm_def)
  next
    case (Some r)
    obtain s its where r: "r = (s, its)" by force
    have z: "au_loop ?z = LSending (publish its) final" "calm y ?z" "au_sink ?z = s"
      using Some r by (simp_all add: loop_flush_def calm_def)
    obtain w where w: "audit_run ?z w" "calm ?z w" "au_loop w = LFlush final" "au_sink w = s"
      using run_sending [OF z(1)] z(3) by auto
    have "length (si_pending (au_sink w)) < length (si_pending (au_sink y))"
      using take_batch_shorter [OF Some [unfolded r]] w(4) by simp
    from less.hyps [OF this w(3)] obtain v where
      "audit_run w v" "calm w v" "au_loop v = (if final then LEnded else LSelect)" by blast
    with step w(1,2) z(2) show ?thesis
      by (meson calm_trans converse_rtranclp_into_rtranclp rtranclp_trans)
  qed
qed

lemma run_to_end:
  assumes "au_stop y"
  shows "\<exists>y'. audit_run y y' \<and> calm y y' \<and> au_loop y' = LEnded"
proof -
  have sel: "\<exists>y'. audit_run y y' \<and> calm y y' \<and> au_loop y' = LEnded" if "au_stop y" "au_loop y = LSelect" for y
  proof -
    let ?z = "y\<lparr>au_loop := LFlush True\<rparr>"
    have "loop_select OnStop y = Some ?z" using that(1) by (simp add: loop_select_def)
    with that(2) have "audit_step y ?z" by (rule audit_step.select)
    moreover have "calm y ?z" "au_loop ?z = LFlush True" by (simp_all add: calm_def)
    ultimately show ?thesis using run_flush [of ?z True]
      by (auto intro: converse_rtranclp_into_rtranclp calm_trans)
  qed
  have fl: "\<exists>y'. audit_run y y' \<and> calm y y' \<and> au_loop y' = LEnded" if "au_stop y" "au_loop y = LFlush b" for y b
  proof -
    from run_flush [OF that(2)] obtain z where
      z: "audit_run y z" "calm y z" "au_loop z = (if b then LEnded else LSelect)" by blast
    show ?thesis
    proof (cases b)
      case True
      with z show ?thesis by auto
    next
      case False
      have "au_stop z" using that(1) z(2) by (simp add: calm_def)
      from sel [OF this] z False show ?thesis by (auto intro: rtranclp_trans calm_trans)
    qed
  qed
  show ?thesis
  proof (cases "au_loop y")
    case (LSending ms b)
    from run_sending [OF this] obtain z where z: "audit_run y z" "calm y z" "au_loop z = LFlush b" by blast
    have "au_stop z" using assms z(2) by (simp add: calm_def)
    from fl [OF this z(3)] z show ?thesis by (auto intro: rtranclp_trans calm_trans)
  qed (use assms sel fl in auto)
qed

section \<open>Schedules\<close>

text \<open>A schedule as a list of moves, to run the sink on.\<close>

datatype audit_move =
    MCall item
  | MLock nat
  | MKick nat
  | MSelect select_case
  | MFlush
  | MSend bool
  | MClose
  | MOnce nat
  | MDone nat

definition nth_opt :: "'a list \<Rightarrow> nat \<Rightarrow> 'a option" where
  "nth_opt xs i = (if i < length xs then Some (xs ! i) else None)"

fun audit_exec :: "audit_move \<Rightarrow> audit_system \<Rightarrow> audit_system option" where
  "audit_exec (MCall it) y = Some (y\<lparr>au_adders := au_adders y @ [AdLock it]\<rparr>)"
| "audit_exec (MLock i) y = (case nth_opt (au_adders y) i of Some (AdLock it) \<Rightarrow> Some (add_lock i it y) | _ \<Rightarrow> None)"
| "audit_exec (MKick i) y = (case nth_opt (au_adders y) i of Some AdKick \<Rightarrow> Some (add_kick i y) | _ \<Rightarrow> None)"
| "audit_exec (MSelect c) y = (case au_loop y of LSelect \<Rightarrow> loop_select c y | _ \<Rightarrow> None)"
| "audit_exec MFlush y = (case au_loop y of LFlush final \<Rightarrow> Some (loop_flush final y) | _ \<Rightarrow> None)"
| "audit_exec (MSend taken) y = (case au_loop y of LSending ms final \<Rightarrow> Some (loop_send taken ms final y) | _ \<Rightarrow> None)"
| "audit_exec MClose y = Some (y\<lparr>au_closers := au_closers y @ [ClOnce]\<rparr>)"
| "audit_exec (MOnce i) y = (case nth_opt (au_closers y) i of Some ClOnce \<Rightarrow> close_once i y | _ \<Rightarrow> None)"
| "audit_exec (MDone i) y = (case nth_opt (au_closers y) i of Some ClWaiting \<Rightarrow> close_done i y | _ \<Rightarrow> None)"

fun audit_exec_all :: "audit_move list \<Rightarrow> audit_system \<Rightarrow> audit_system option" where
  "audit_exec_all [] y = Some y"
| "audit_exec_all (m # ms) y = (case audit_exec m y of None \<Rightarrow> None | Some y' \<Rightarrow> audit_exec_all ms y')"

lemma audit_exec_step: "audit_exec m y = Some y' \<Longrightarrow> audit_step y y'"
  by (cases m)
    (auto simp: nth_opt_def split: if_splits adder.splits closer.splits looper.splits
      intro: audit_step.intros)

lemma audit_exec_reach: "audit_exec_all ms y = Some y' \<Longrightarrow> audit_reach y \<Longrightarrow> audit_reach y'"
  by (induction ms arbitrary: y) (auto split: option.splits dest: audit_exec_step intro: audit_reach.step)

text \<open>An event that is added, a \<open>Close\<close>, and an event that is added when the loop has taken the first.\<close>

definition late_moves :: "audit_move list" where
  "late_moves = [MCall (''a'', ''1''), MLock 0, MClose, MOnce 0, MSelect OnStop, MFlush, MSend True, MSend True, MFlush,
     MCall (''a'', ''2''), MLock 1]"

definition waiting_state :: audit_system where
  "waiting_state = \<lparr>au_sink = \<lparr>si_pending = [(''a'', ''2'')], si_size = 3, si_dropped = 0\<rparr>, au_wake = False,
     au_stop = True, au_once = False, au_loop = LEnded, au_adders = [AdReturned, AdReturned], au_closers = [ClWaiting],
     au_added = [(''a'', ''1''), (''a'', ''2'')], au_out = [((''a'', [''1'']), True)], au_before = 1\<rparr>"

definition closed_state :: audit_system where
  "closed_state = waiting_state\<lparr>au_once := True, au_closers := [ClReturned]\<rparr>"

lemma push_small:
  "length p < maxItems \<Longrightarrow> k + (int (length b) + 2) < maxSize \<Longrightarrow>
   push (u, b) \<lparr>si_pending = p, si_size = k, si_dropped = n\<rparr> =
   (\<lparr>si_pending = p @ [(u, b)], si_size = k + (int (length b) + 2), si_dropped = n\<rparr>, length p + 1 = maxItems)"
  by (simp add: push_def push_item_def trim_pending_def sink_full_def Let_def) linarith

lemma late_run: "audit_exec_all late_moves audit_start = Some waiting_state"
  by (simp add: late_moves_def audit_start_def newSink_def nth_opt_def audit_ops push_small take_batch_def publish_def
      sizeOf_def waiting_state_def)

lemma waiting_reach: "audit_reach waiting_state"
  by (rule audit_exec_reach [OF late_run audit_reach.start])

lemma closed_reach: "audit_reach closed_state"
proof (rule audit_exec_reach [OF _ waiting_reach])
  show "audit_exec_all [MDone 0] waiting_state = Some closed_state"
    by (simp add: waiting_state_def closed_state_def nth_opt_def close_done_def)
qed

section \<open>Properties\<close>

text \<open>
  C10 (invariant): whatever the interleaving of the callers of \<open>Add\<close> and \<open>Close\<close> with the loop, its
  ticker and its wake-ups, the messages of a subject carry its events once each and in the order of
  their addition; what is not sent is still pending or was let go, oldest first, and counted by
  \<open>dropped\<close>; and neither the sink nor a message outgrows its bound.
\<close>

theorem audit_threads_exact:
  assumes "audit_reach y"
  shows "\<exists>gone n. subseq (gone @ si_pending (au_sink y)) (au_added y) \<and>
    length (au_added y) = length gone + length (si_pending (au_sink y)) + n \<and>
    si_dropped (au_sink y) = of_nat n \<and>
    (\<forall>u. sent_to u (map fst (au_out y) @ in_flight (au_loop y)) = of_subject u gone) \<and>
    length (si_pending (au_sink y)) \<le> maxPending \<and> si_size (au_sink y) = sizeOf (si_pending (au_sink y)) \<and>
    (\<forall>m \<in> set (map fst (au_out y)). snd m \<noteq> [] \<and> length (snd m) \<le> maxItems)"
proof -
  from stream_reach [OF abs_reach [OF assms]] obtain gone n where "stream_ok (abs_sink y) gone n" by blast
  note g = this [unfolded stream_ok_def abs_sink_def sink_system.select_convs sink_ok_def]
  then have "\<forall>m \<in> set (map fst (au_out y)). snd m \<noteq> [] \<and> length (snd m) \<le> maxItems"
    by (metis UnCI set_append)
  with g show ?thesis by blast
qed

theorem audit_threads_exact_witness:
  "\<exists>gone n. subseq (gone @ [(''a'', ''2'')]) [(''a'', ''1''), (''a'', ''2'')] \<and> length gone + 1 + n = 2"
  using audit_threads_exact [OF waiting_reach] by (auto simp: waiting_state_def intro!: exI [of _ "[(''a'', ''1'')]"])

text \<open>
  C15 (safety): when \<open>Close\<close> has returned, every event that was added before it was called has left
  the sink: it was handed to the bus, in order, or let go at the bound and counted.  What is still
  pending was added later.
\<close>

theorem close_flushes:
  assumes "audit_reach y" and "ClReturned \<in> set (au_closers y)"
  shows "\<exists>gone n k. au_before y \<le> k \<and> k = length gone + n \<and>
    si_pending (au_sink y) = drop k (au_added y) \<and> subseq gone (take k (au_added y)) \<and>
    si_dropped (au_sink y) = of_nat n \<and> (\<forall>u. sent_to u (map fst (au_out y)) = of_subject u gone)"
proof -
  have c: "close_ok y" by (rule reach_close_ok [OF assms(1)])
  with assms(2) have e: "au_loop y = LEnded" by (simp add: close_ok_def)
  with c obtain k where k: "k \<le> length (au_added y)" "si_pending (au_sink y) = drop k (au_added y)" "au_before y \<le> k"
    by (auto simp: close_ok_def)
  from stream_reach [OF abs_reach [OF assms(1)]] obtain gone n where g: "stream_ok (abs_sink y) gone n" by blast
  then have s: "subseq (gone @ drop k (au_added y)) (take k (au_added y) @ drop k (au_added y))"
    and l: "length (au_added y) = length gone + length (drop k (au_added y)) + n"
    and d: "si_dropped (au_sink y) = of_nat n" "\<forall>u. sent_to u (map fst (au_out y)) = of_subject u gone"
    by (simp_all add: stream_ok_def abs_sink_def k(2) e)
  from s have "subseq gone (take k (au_added y))" by (simp only: subseq_append)
  moreover have "k = length gone + n" using l k(1) by simp
  ultimately show ?thesis using k(2,3) d by blast
qed

theorem close_flushes_witness: "si_pending (au_sink closed_state) = drop 1 (au_added closed_state)"
proof -
  have "ClReturned \<in> set (au_closers closed_state)" by (simp add: closed_state_def)
  from close_flushes [OF closed_reach this] obtain k where
    k: "au_before closed_state \<le> k" "si_pending (au_sink closed_state) = drop k (au_added closed_state)" by blast
  then have "length (drop k (au_added closed_state)) = 1" by (simp add: closed_state_def waiting_state_def)
  then have "k = 1" by (simp add: closed_state_def waiting_state_def)
  with k(2) show ?thesis by simp
qed

text \<open>
  C31 (liveness): \<open>Close\<close> cannot hang: from every state after the call, whatever the loop is doing and
  whatever is pending, the steps of the loop alone lead to its end, on which the caller returns.
\<close>

theorem close_can_return:
  assumes "audit_reach y" and "au_stop y" and "i < length (au_closers y)" and "au_closers y ! i = ClWaiting"
  shows "\<exists>y'. audit_run y y' \<and> au_loop y' = LEnded \<and> au_closers y' = (au_closers y)[i := ClReturned] \<and>
    au_added y' = au_added y \<and> audit_reach y'"
proof -
  obtain z where z: "audit_run y z" "calm y z" "au_loop z = LEnded" using run_to_end [OF assms(2)] by blast
  let ?w = "z\<lparr>au_once := True, au_closers := (au_closers z)[i := ClReturned]\<rparr>"
  have c: "au_closers z = au_closers y" "au_added z = au_added y" using z(2) by (simp_all add: calm_def)
  have "close_done i z = Some ?w" using z(3) by (simp add: close_done_def)
  with assms(3,4) have "audit_step z ?w" by (intro audit_step.close_done) (simp_all add: c)
  with z(1) have r: "audit_run y ?w" by (rule rtranclp.rtrancl_into_rtrancl)
  from this assms(1) have "audit_reach ?w" by (induction rule: rtranclp_induct) (auto intro: audit_reach.step)
  with r z(3) c show ?thesis by (intro exI [of _ ?w]) simp
qed

theorem close_can_return_witness:
  "\<exists>y'. audit_run waiting_state y' \<and> au_closers y' = [ClReturned] \<and> audit_reach y'"
  using close_can_return [OF waiting_reach, of 0] by (auto simp: waiting_state_def)

text \<open>
  A sink that has filled up never waits for the ticker unnoticed: while the loop
  sleeps in its \<open>select\<close>, the token is there for it, or an \<open>Add\<close> is about to put it there.
\<close>

theorem full_is_noticed:
  assumes "audit_reach y" and "sink_full (au_sink y)" and "au_loop y = LSelect"
  shows "loop_select OnWake y = Some (y\<lparr>au_wake := False, au_loop := LFlush False\<rparr>) \<or>
    (\<exists>i < length (au_adders y). au_adders y ! i = AdKick \<and> au_wake (add_kick i y))"
proof -
  from reach_notice_ok [OF assms(1)] assms(2,3) have "au_wake y \<or> AdKick \<in> set (au_adders y)"
    by (simp add: notice_ok_def)
  then show ?thesis by (auto simp: loop_select_def in_set_conv_nth add_kick_def kick_def)
qed

text \<open>The sink after an event of half a megabyte.\<close>

definition big_body :: string where
  "big_body = replicate 524288 CHR ''x''"

definition noticed_state :: audit_system where
  "noticed_state = audit_start\<lparr>
     au_sink := \<lparr>si_pending = [(''a'', big_body)], si_size = int (length big_body) + 2, si_dropped = 0\<rparr>,
     au_adders := [AdKick], au_added := [(''a'', big_body)]\<rparr>"

lemma big_body_length: "length big_body = 524288"
  unfolding big_body_def by (rule length_replicate)

lemma noticed_full: "sink_full (au_sink noticed_state)"
  unfolding noticed_state_def sink_full_def by (simp add: big_body_length)

lemma noticed_reach: "audit_reach noticed_state"
proof (rule audit_exec_reach [OF _ audit_reach.start])
  have "push (''a'', big_body) newSink =
      (\<lparr>si_pending = [(''a'', big_body)], si_size = int (length big_body) + 2, si_dropped = 0\<rparr>, True)"
    using noticed_full
    by (simp add: push_def push_item_def trim_pending_def newSink_def Let_def noticed_state_def)
  then show "audit_exec_all [MCall (''a'', big_body), MLock 0] audit_start = Some noticed_state"
    by (simp add: audit_start_def nth_opt_def add_lock_def noticed_state_def)
qed

theorem full_is_noticed_witness:
  "\<exists>i < length (au_adders noticed_state). au_adders noticed_state ! i = AdKick"
proof -
  have "au_loop noticed_state = LSelect" "loop_select OnWake noticed_state = None"
    by (simp_all add: noticed_state_def audit_start_def loop_select_def)
  with full_is_noticed [OF noticed_reach noticed_full] show ?thesis by auto
qed

text \<open>Nothing leaves the sink after the loop has ended: an event that is added then is never sent.\<close>

lemma nothing_after_end:
  "audit_step y y' \<Longrightarrow> au_loop y = LEnded \<Longrightarrow> au_loop y' = LEnded \<and> au_out y' = au_out y"
  by (induction rule: audit_step.induct)
    (auto simp: add_lock_def add_kick_def kick_def close_once_def close_done_def split: prod.splits if_splits)

end
