(* ===== verification/Desired.thy ===== *)
theory Desired
  imports Settings Profile_Store "HOL-Library.AList"
begin

text \<open>
  \<open>internal/desired/desired.go\<close> and \<open>settings.go\<close>: the profiles that the control plane wants, as a
  manifest in a bucket of the bus, and how they come to be served.  The data directory of the
  process is a record of three trees and of how the system calls ahead will end, so every failure
  of the disk is an input.  The JSON decoder, SHA-256, the bus and the names of the log levels are
  parameters.
\<close>

section \<open>Manifests\<close>

abbreviation Bucket :: string where "Bucket \<equiv> ''WAF_DESIRED''"
abbreviation DesiredKey :: string where "DesiredKey \<equiv> ''policy/counter''"
abbreviation DefaultProfile :: string where "DefaultProfile \<equiv> ''default''"
abbreviation ApplyOK :: string where "ApplyOK \<equiv> ''ok''"
abbreviation ApplyFailed :: string where "ApplyFailed \<equiv> ''apply_failed''"
abbreviation treeDir :: string where "treeDir \<equiv> ''profiles''"

record dfile =
  df_name :: string
  df_text :: string

text \<open>A Go map is the list of its entries in the order of an iteration, each key once.\<close>

type_synonym dprofiles = "(string \<times> dfile list) list"

record settings =
  sg_log_level :: string
  sg_level :: int

record manifest =
  mf_v :: int
  mf_rev :: int
  mf_hash :: string
  mf_profiles :: dprofiles
  mf_settings :: "settings option"

record library =
  lb_decode :: "string \<Rightarrow> manifest option"
  lb_digest :: "string \<Rightarrow> string"
  lb_level :: "string \<Rightarrow> err + int"

definition validate_settings :: "library \<Rightarrow> settings option \<Rightarrow> err + settings option" where
  "validate_settings lb so =
     (case so of
        None \<Rightarrow> Inr None
      | Some s \<Rightarrow>
          (case lb_level lb (sg_log_level s) of
             Inl e \<Rightarrow> Inl (Err ''settings.log_level'' (err_what e))
           | Inr l \<Rightarrow> Inr (Some (s\<lparr>sg_level := l\<rparr>))))"

definition terminated :: "string \<Rightarrow> string" where
  "terminated s = s @ [NUL]"

definition writeSettings :: "settings option \<Rightarrow> string" where
  "writeSettings so =
     (case so of
        None \<Rightarrow> []
      | Some s \<Rightarrow> terminated ''settings'' @ terminated ''log_level'' @ terminated (sg_log_level s))"

definition file_bytes :: "dfile \<Rightarrow> string" where
  "file_bytes f = terminated (df_name f) @ terminated (df_text f)"

definition profile_bytes :: "dprofiles \<Rightarrow> string \<Rightarrow> string" where
  "profile_bytes ps name =
     terminated name @ concat (map file_bytes (case map_of ps name of None \<Rightarrow> [] | Some fs \<Rightarrow> fs))"

definition HashWith :: "library \<Rightarrow> dprofiles \<Rightarrow> settings option \<Rightarrow> string" where
  "HashWith lb ps so =
     ''sha256:'' @ lb_digest lb (concat (map (profile_bytes ps) (sort (map fst ps))) @ writeSettings so)"

definition has_slash :: "string \<Rightarrow> bool" where
  "has_slash s \<longleftrightarrow> contains_any s [CHR ''/'', CHR 0x5C]"

definition bad_file :: "dfile \<Rightarrow> bool" where
  "bad_file f \<longleftrightarrow> df_name f = [] \<or> has_slash (df_name f) \<or> df_name f = ''.'' \<or> df_name f = ''..''"

definition check_profile :: "string \<times> dfile list \<Rightarrow> err option" where
  "check_profile p = guards
     [(fst p = [] \<or> snd p = [], Err ''manifest'' ''profile is empty''),
      (list_ex bad_file (snd p), Err ''manifest'' ''profile has a bad file name''),
      (fst p = ''.'' \<or> fst p = ''..'' \<or> has_slash (fst p), Err ''manifest'' ''bad profile name'')]"

definition parse_manifest :: "library \<Rightarrow> string \<Rightarrow> err + manifest" where
  "parse_manifest lb raw =
     (case lb_decode lb raw of
        None \<Rightarrow> Inl (Err ''manifest'' ''json'')
      | Some m \<Rightarrow>
          if mf_v m \<noteq> 1 then Inl (Err ''manifest'' ''unsupported v'')
          else if mf_rev m < 1 then Inl (Err ''manifest'' ''rev must be positive'')
          else if map_of (mf_profiles m) DefaultProfile = None then Inl (Err ''manifest'' ''profile default is missing'')
          else case first_err (\<lambda>i. check_profile) 0 (mf_profiles m) of
                 Some e \<Rightarrow> Inl e
               | None \<Rightarrow>
                   (case validate_settings lb (mf_settings m) of
                      Inl e \<Rightarrow> Inl e
                    | Inr so \<Rightarrow>
                        let got = HashWith lb (mf_profiles m) so in
                        if mf_hash m \<noteq> [] \<and> mf_hash m \<noteq> got then Inl (Err ''manifest'' ''config_hash mismatch'')
                        else Inr (m\<lparr>mf_settings := so, mf_hash := got\<rparr>)))"

definition manifest_Names :: "manifest \<Rightarrow> string list" where
  "manifest_Names m = sort (map fst (mf_profiles m))"

section \<open>The data directory\<close>

text \<open>A tree is the files of each of its directories; an outcome is how a system call ends.\<close>

type_synonym dir_tree = "(string \<times> (string \<times> string) list) list"

datatype outcome = Fine | Fails | Partly dir_tree

record disk =
  dk_trees :: "string \<rightharpoonup> dir_tree"
  dk_ahead :: "outcome list"

definition next_call :: "disk \<Rightarrow> outcome \<times> disk" where
  "next_call d = (case dk_ahead d of [] \<Rightarrow> (Fine, d) | x # xs \<Rightarrow> (x, d\<lparr>dk_ahead := xs\<rparr>))"

definition put_tree :: "string \<Rightarrow> dir_tree option \<Rightarrow> disk \<Rightarrow> disk" where
  "put_tree n t d = d\<lparr>dk_trees := (dk_trees d)(n := t)\<rparr>"

definition io_error :: err where
  "io_error = Err ''os'' ''i/o error''"

text \<open>\<open>os.MkdirAll\<close> of the data directory itself.\<close>

definition make_data_dir :: "disk \<Rightarrow> disk \<times> err option" where
  "make_data_dir d = (case next_call d of (Fine, d1) \<Rightarrow> (d1, None) | (_, d1) \<Rightarrow> (d1, Some (Err ''data dir'' ''mkdir'')))"

definition make_tree :: "string \<Rightarrow> disk \<Rightarrow> disk \<times> err option" where
  "make_tree n d =
     (case next_call d of
        (Fine, d1) \<Rightarrow> (if dk_trees d1 n = None then put_tree n (Some []) d1 else d1, None)
      | (_, d1) \<Rightarrow> (d1, Some io_error))"

definition in_tree :: "(dir_tree \<Rightarrow> dir_tree) \<Rightarrow> string \<Rightarrow> disk \<Rightarrow> disk" where
  "in_tree f n d = put_tree n (map_option f (dk_trees d n)) d"

definition add_sub :: "string \<Rightarrow> dir_tree \<Rightarrow> dir_tree" where
  "add_sub sub t = (if map_of t sub = None then t @ [(sub, [])] else t)"

definition add_file :: "string \<Rightarrow> dfile \<Rightarrow> dir_tree \<Rightarrow> dir_tree" where
  "add_file sub f t =
     AList.update sub (AList.update (df_name f) (df_text f) (case map_of t sub of None \<Rightarrow> [] | Some fs \<Rightarrow> fs)) t"

definition make_sub :: "string \<Rightarrow> string \<Rightarrow> disk \<Rightarrow> disk \<times> err option" where
  "make_sub n sub d =
     (case next_call d of
        (Fine, d1) \<Rightarrow> (in_tree (add_sub sub) n d1, None)
      | (_, d1) \<Rightarrow> (d1, Some io_error))"

definition write_file :: "string \<Rightarrow> string \<Rightarrow> dfile \<Rightarrow> disk \<Rightarrow> disk \<times> err option" where
  "write_file n sub f d =
     (case next_call d of
        (Fine, d1) \<Rightarrow> (in_tree (add_file sub f) n d1, None)
      | (Fails, d1) \<Rightarrow> (d1, Some io_error)
      | (Partly t, d1) \<Rightarrow> (in_tree (\<lambda>_. t) n d1, Some io_error))"

text \<open>\<open>os.RemoveAll\<close>: its error is never looked at.\<close>

definition remove_tree :: "string \<Rightarrow> disk \<Rightarrow> disk" where
  "remove_tree n d =
     (case next_call d of
        (Fine, d1) \<Rightarrow> put_tree n None d1
      | (Fails, d1) \<Rightarrow> d1
      | (Partly t, d1) \<Rightarrow> in_tree (\<lambda>_. t) n d1)"

text \<open>\<open>os.Rename\<close> of a directory: it must exist, and nothing may have the new name.\<close>

datatype renamed = Renamed | NotExist | NotRenamed

definition rename_tree :: "string \<Rightarrow> string \<Rightarrow> disk \<Rightarrow> disk \<times> renamed" where
  "rename_tree a b d =
     (case next_call d of
        (Fine, d1) \<Rightarrow>
          (case dk_trees d1 a of
             None \<Rightarrow> (d1, NotExist)
           | Some t \<Rightarrow> if dk_trees d1 b \<noteq> None then (d1, NotRenamed)
                       else (put_tree b (Some t) (put_tree a None d1), Renamed))
      | (_, d1) \<Rightarrow> (d1, NotRenamed))"

section \<open>Writing a generation\<close>

fun write_files :: "string \<Rightarrow> string \<Rightarrow> dfile list \<Rightarrow> disk \<Rightarrow> disk \<times> err option" where
  "write_files n sub [] d = (d, None)"
| "write_files n sub (f # fs) d =
     (case write_file n sub f d of
        (d1, Some e) \<Rightarrow> (d1, Some e)
      | (d1, None) \<Rightarrow> write_files n sub fs d1)"

fun write_profiles :: "string \<Rightarrow> dprofiles \<Rightarrow> disk \<Rightarrow> disk \<times> err option" where
  "write_profiles n [] d = (d, None)"
| "write_profiles n ((sub, fs) # ps) d =
     (case make_sub n sub d of
        (d1, Some e) \<Rightarrow> (d1, Some e)
      | (d1, None) \<Rightarrow>
          (case write_files n sub fs d1 of
             (d2, Some e) \<Rightarrow> (d2, Some e)
           | (d2, None) \<Rightarrow> write_profiles n ps d2))"

definition write_manifest :: "string \<Rightarrow> manifest \<Rightarrow> disk \<Rightarrow> disk \<times> err option" where
  "write_manifest n m d =
     (case make_tree n d of
        (d1, Some e) \<Rightarrow> (d1, Some e)
      | (d1, None) \<Rightarrow> write_profiles n (mf_profiles m) d1)"

section \<open>\<open>Apply\<close>\<close>

abbreviation staging :: string where "staging \<equiv> ''.next''"
abbreviation prev :: string where "prev \<equiv> ''.prev''"

text \<open>\<open>filepath.Join\<close>.\<close>

definition join_path :: "string \<Rightarrow> string \<Rightarrow> string" where
  "join_path a b = (if a = [] then clean_path b else clean_path (a @ ''/'' @ b))"

text \<open>
  How the trees look to the store: the live one at its path, every other directory, such as the
  profiles of the image, as the machine has it.  Reading is one more call that may fail.
\<close>

record reader =
  rd_parsers :: parsers
  rd_base :: fs
  rd_mtime :: "dir_tree \<Rightarrow> string \<Rightarrow> int"

definition file_at :: "dir_tree \<Rightarrow> string \<Rightarrow> string \<Rightarrow> file_state" where
  "file_at t sub name =
     (case map_of t sub of
        None \<Rightarrow> Absent
      | Some fs \<Rightarrow> (case map_of fs name of None \<Rightarrow> Absent | Some x \<Rightarrow> Contents x))"

definition walk_sub :: "(string \<Rightarrow> int) \<Rightarrow> dir_tree \<Rightarrow> string \<Rightarrow> (string \<times> int \<times> int) list" where
  "walk_sub mt t sub =
     (let fs = (case map_of t sub of None \<Rightarrow> [] | Some fs \<Rightarrow> fs) in
      map (\<lambda>name. (sub @ ''/'' @ name, int (length (the (map_of fs name))), mt (sub @ ''/'' @ name))) (sort (map fst fs)))"

definition no_tree :: tree where
  "no_tree = \<lparr>tr_entries = None, tr_counters = Absent, tr_profile = (\<lambda>_. Absent), tr_files = None\<rparr>"

definition tree_view :: "(dir_tree \<Rightarrow> string \<Rightarrow> int) \<Rightarrow> dir_tree option \<Rightarrow> tree" where
  "tree_view mt live =
     (case live of
        None \<Rightarrow> no_tree
      | Some t \<Rightarrow>
          \<lparr>tr_entries = Some (map (\<lambda>n. (n, True)) (sort (map fst t))),
           tr_counters = file_at t SharedDir ''counters.yaml'', tr_profile = (\<lambda>n. file_at t n ''profile.yaml''),
           tr_files = Some (concat (map (walk_sub (mt t) t) (sort (map fst t))))\<rparr>)"

definition look :: "reader \<Rightarrow> string \<Rightarrow> dir_tree option \<Rightarrow> fs" where
  "look rd dataDir live = (rd_base rd)(join_path dataDir treeDir := tree_view (rd_mtime rd) live)"

definition reload_live :: "reader \<Rightarrow> string \<Rightarrow> store \<Rightarrow> disk \<Rightarrow> store \<times> disk \<times> err option" where
  "reload_live rd dataDir s d =
     (case next_call d of
        (out, d1) \<Rightarrow>
          (let live = (if out = Fine then dk_trees d1 treeDir else None); f = look rd dataDir live in
           case ReloadFrom (rd_parsers rd) f f (join_path dataDir treeDir) s of (s1, r) \<Rightarrow> (s1, d1, r)))"

text \<open>The end of \<open>Apply\<close>, once the new generation is in place; \<open>lived\<close> tells if there was one before.\<close>

definition apply_reload :: "reader \<Rightarrow> string \<Rightarrow> bool \<Rightarrow> store \<Rightarrow> disk \<Rightarrow> store \<times> disk \<times> err option" where
  "apply_reload rd dataDir lived s d =
     (case reload_live rd dataDir s d of
        (s1, d1, Some e) \<Rightarrow>
          (let d2 = remove_tree treeDir d1 in
           if lived then
             (case rename_tree prev treeDir d2 of
                (d3, Renamed) \<Rightarrow> (case reload_live rd dataDir s1 d3 of (s2, d4, _) \<Rightarrow> (s2, d4, Some e))
              | (d3, _) \<Rightarrow> (s1, d3, Some e))
           else (s1, d2, Some e))
      | (s1, d1, None) \<Rightarrow> (s1, remove_tree prev d1, None))"

text \<open>The middle: the new generation takes the place of the live one.\<close>

definition apply_promote :: "reader \<Rightarrow> string \<Rightarrow> bool \<Rightarrow> store \<Rightarrow> disk \<Rightarrow> store \<times> disk \<times> err option" where
  "apply_promote rd dataDir lived s d =
     (case rename_tree staging treeDir d of
        (d1, Renamed) \<Rightarrow> apply_reload rd dataDir lived s d1
      | (d1, _) \<Rightarrow>
          (let d2 = (if lived then fst (rename_tree prev treeDir d1) else d1)
           in (s, remove_tree staging d2, Some (Err ''promote staging'' ''rename''))))"

definition desired_Apply :: "reader \<Rightarrow> string \<Rightarrow> manifest \<Rightarrow> store \<Rightarrow> disk \<Rightarrow> store \<times> disk \<times> err option" where
  "desired_Apply rd dataDir m s d =
     (case make_data_dir d of
        (d0, Some e) \<Rightarrow> (s, d0, Some e)
      | (d0, None) \<Rightarrow>
          (case write_manifest staging m (remove_tree staging d0) of
             (d1, Some e) \<Rightarrow> (s, remove_tree staging d1, Some e)
           | (d1, None) \<Rightarrow>
               (case rename_tree treeDir prev (remove_tree prev d1) of
                  (d2, Renamed) \<Rightarrow> apply_promote rd dataDir True s d2
                | (d2, NotExist) \<Rightarrow> apply_promote rd dataDir False s d2
                | (d2, NotRenamed) \<Rightarrow> (s, remove_tree staging d2, Some (Err ''park live'' ''rename'')))))"

section \<open>\<open>Bootstrap\<close>\<close>

definition Bootstrap :: "reader \<Rightarrow> string \<Rightarrow> store \<Rightarrow> disk \<Rightarrow> store \<times> disk \<times> bool" where
  "Bootstrap rd dataDir s d =
     (if dataDir = [] then (s, d, False)
      else case next_call d of
             (out, d1) \<Rightarrow>
               if out \<noteq> Fine \<or> tr_profile (tree_view (rd_mtime rd) (dk_trees d1 treeDir)) DefaultProfile = Absent
               then (s, d1, False)
               else case reload_live rd dataDir s d1 of (s1, d2, r) \<Rightarrow> (s1, d2, r = None))"

section \<open>The watcher\<close>

record applied =
  ap_hash :: string
  ap_rev :: int
  ap_apply :: string
  ap_names :: "string list"

definition no_applied :: applied where
  "no_applied = \<lparr>ap_hash = [], ap_rev = 0, ap_apply = [], ap_names = []\<rparr>"

text \<open>\<open>Applied.set\<close>: every field, the names copied.\<close>

definition applied_set :: "string \<Rightarrow> int \<Rightarrow> string \<Rightarrow> string list \<Rightarrow> applied" where
  "applied_set hash r st names = \<lparr>ap_hash = hash, ap_rev = r, ap_apply = st, ap_names = names\<rparr>"

lemma applied_set_fields [simp]:
  "ap_hash (applied_set h r st ns) = h" "ap_rev (applied_set h r st ns) = r"
  "ap_apply (applied_set h r st ns) = st" "ap_names (applied_set h r st ns) = ns"
  by (simp_all add: applied_set_def)

lemma applied_set_keeps [simp]: "applied_set (ap_hash a) (ap_rev a) st (ap_names a) = a\<lparr>ap_apply := st\<rparr>"
  by (simp add: applied_set_def)

record desired_state =
  ds_store :: store
  ds_disk :: disk
  ds_applied :: applied
  ds_level :: int

datatype kv_entry = Initial | Removed | Put string

text \<open>\<open>Settings.apply\<close>: the level of the log.\<close>

definition apply_settings :: "settings option \<Rightarrow> int \<Rightarrow> int" where
  "apply_settings so lvl = (case so of None \<Rightarrow> lvl | Some s \<Rightarrow> if lvl = sg_level s then lvl else sg_level s)"

definition watch_manifest :: "reader \<Rightarrow> string \<Rightarrow> manifest \<Rightarrow> desired_state \<Rightarrow> desired_state" where
  "watch_manifest rd dataDir m w =
     (let a = ds_applied w in
      if ap_apply a = ApplyOK \<and> ap_hash a = mf_hash m \<and> ap_rev a = mf_rev m then w
      else case desired_Apply rd dataDir m (ds_store w) (ds_disk w) of
             (s, d, Some e) \<Rightarrow> w\<lparr>ds_store := s, ds_disk := d, 
                ds_applied := applied_set (ap_hash a) (ap_rev a) ApplyFailed (ap_names a)\<rparr>
           | (s, d, None) \<Rightarrow>
               w\<lparr>ds_store := s, ds_disk := d,
                 ds_applied := applied_set (mf_hash m) (mf_rev m) ApplyOK (manifest_Names m),
                 ds_level := apply_settings (mf_settings m) (ds_level w)\<rparr>)"

definition watch_entry :: "library \<Rightarrow> reader \<Rightarrow> string \<Rightarrow> kv_entry \<Rightarrow> desired_state \<Rightarrow> desired_state" where
  "watch_entry lb rd dataDir e w =
     (case e of
        Put raw \<Rightarrow> (case parse_manifest lb raw of Inl _ \<Rightarrow> w | Inr m \<Rightarrow> watch_manifest rd dataDir m w)
      | _ \<Rightarrow> w)"

end
