(* ===== verification/Desired_Laws.thy ===== *)
theory Desired_Laws
  imports Desired
begin

text \<open>
  What the process serves while the control plane changes its mind and the disk fails.  Where
  \<open>Apply\<close> returns no error every file of the generation is in the live tree and the store serves
  this tree; a staging tree that could not be removed is the only thing that may be mixed with it.
  Where it returns an error the old generation is still served, and still on the disk when the
  attempt ends, live or parked.  What the heartbeat reports is the generation that is on the disk,
  and a generation that was applied survives a restart.
\<close>

section \<open>System calls\<close>

lemma next_call_trees: "next_call d = (out, d1) \<Longrightarrow> dk_trees d1 = dk_trees d"
  by (auto simp: next_call_def split: list.splits)

lemma next_call_quiet: "dk_ahead d = [] \<Longrightarrow> next_call d = (Fine, d)"
  by (simp add: next_call_def)

lemma put_tree_trees [simp]: "dk_trees (put_tree n t d) = (dk_trees d)(n := t)"
  and put_tree_ahead [simp]: "dk_ahead (put_tree n t d) = dk_ahead d"
  by (simp_all add: put_tree_def)

lemma in_tree_trees [simp]: "dk_trees (in_tree f n d) = (dk_trees d)(n := map_option f (dk_trees d n))"
  and in_tree_ahead [simp]: "dk_ahead (in_tree f n d) = dk_ahead d"
  by (simp_all add: in_tree_def)

text \<open>Every call works on its own tree.\<close>

lemma remove_tree_other: "k \<noteq> n \<Longrightarrow> dk_trees (remove_tree n d) k = dk_trees d k"
  by (auto simp: remove_tree_def dest: next_call_trees split: prod.split outcome.split)

lemma make_tree_other: "make_tree n d = (d', r) \<Longrightarrow> k \<noteq> n \<Longrightarrow> dk_trees d' k = dk_trees d k"
  by (auto simp: make_tree_def dest!: next_call_trees split: prod.splits outcome.splits if_splits)

lemma make_sub_other: "make_sub n sub d = (d', r) \<Longrightarrow> k \<noteq> n \<Longrightarrow> dk_trees d' k = dk_trees d k"
  by (auto simp: make_sub_def dest!: next_call_trees split: prod.splits outcome.splits)

lemma write_file_other: "write_file n sub f d = (d', r) \<Longrightarrow> k \<noteq> n \<Longrightarrow> dk_trees d' k = dk_trees d k"
  by (auto simp: write_file_def dest!: next_call_trees split: prod.splits outcome.splits)

lemma write_files_other: "write_files n sub fs d = (d', r) \<Longrightarrow> k \<noteq> n \<Longrightarrow> dk_trees d' k = dk_trees d k"
  by (induction n sub fs d rule: write_files.induct)
    (auto dest: write_file_other split: prod.splits option.splits)

lemma write_profiles_other: "write_profiles n ps d = (d', r) \<Longrightarrow> k \<noteq> n \<Longrightarrow> dk_trees d' k = dk_trees d k"
proof (induction n ps d rule: write_profiles.induct)
  case (1 n d)
  then show ?case by simp
next
  case (2 n sub fs ps d)
  obtain d1 r1 where a: "make_sub n sub d = (d1, r1)" by force
  obtain d2 r2 where b: "write_files n sub fs d1 = (d2, r2)" by force
  have "dk_trees d1 k = dk_trees d k" "dk_trees d2 k = dk_trees d1 k"
    using make_sub_other [OF a] write_files_other [OF b] "2.prems"(2) by auto
  with 2 a b show ?case by (cases r1; cases r2) auto
qed

lemma write_manifest_other: "write_manifest n m d = (d', r) \<Longrightarrow> k \<noteq> n \<Longrightarrow> dk_trees d' k = dk_trees d k"
  by (auto simp: write_manifest_def make_tree_other dest!: write_profiles_other split: prod.splits option.splits)

lemma rename_tree_cases:
  assumes "rename_tree a b d = (d', r)"
  obtains (moved) t where "r = Renamed" "dk_trees d a = Some t" "dk_trees d b = None"
      "dk_trees d' = (dk_trees d)(a := None, b := Some t)"
    | (absent) "r = NotExist" "dk_trees d a = None" "dk_trees d' = dk_trees d"
    | (failed) "r = NotRenamed" "dk_trees d' = dk_trees d"
  using assms by (auto simp: rename_tree_def dest!: next_call_trees split: prod.splits outcome.splits option.splits if_splits)

lemma reload_live_trees: "reload_live rd dataDir s d = (s', d', r) \<Longrightarrow> dk_trees d' = dk_trees d"
  by (auto simp: reload_live_def Let_def dest: next_call_trees split: prod.splits)

text \<open>A generation that is written without an error is written over what its tree held before.\<close>

definition tree_over :: "manifest \<Rightarrow> dir_tree \<Rightarrow> dir_tree" where
  "tree_over m t = fold (\<lambda>(sub, fs) t. fold (add_file sub) fs (add_sub sub t)) (mf_profiles m) t"

definition found :: "dir_tree option \<Rightarrow> dir_tree" where
  "found to = (case to of None \<Rightarrow> [] | Some t \<Rightarrow> t)"

lemma make_tree_done: "make_tree n d = (d', None) \<Longrightarrow> dk_trees d' n = Some (found (dk_trees d n))"
  by (auto simp: make_tree_def found_def dest!: next_call_trees split: prod.splits outcome.splits if_splits)

lemma make_sub_done: "make_sub n sub d = (d', None) \<Longrightarrow> dk_trees d' n = map_option (add_sub sub) (dk_trees d n)"
  by (auto simp: make_sub_def dest!: next_call_trees split: prod.splits outcome.splits)

lemma write_file_done: "write_file n sub f d = (d', None) \<Longrightarrow> dk_trees d' n = map_option (add_file sub f) (dk_trees d n)"
  by (auto simp: write_file_def dest!: next_call_trees split: prod.splits outcome.splits)

lemma write_files_done:
  "write_files n sub fs d = (d', None) \<Longrightarrow> dk_trees d n = Some t \<Longrightarrow> dk_trees d' n = Some (fold (add_file sub) fs t)"
  by (induction n sub fs d arbitrary: t rule: write_files.induct)
    (auto dest: write_file_done split: prod.splits option.splits)

lemma write_profiles_done:
  "write_profiles n ps d = (d', None) \<Longrightarrow> dk_trees d n = Some t \<Longrightarrow>
   dk_trees d' n = Some (fold (\<lambda>(sub, fs) t. fold (add_file sub) fs (add_sub sub t)) ps t)"
  by (induction n ps d arbitrary: t rule: write_profiles.induct)
    (auto dest!: make_sub_done dest: write_files_done split: prod.splits option.splits)

lemma write_manifest_done:
  "write_manifest n m d = (d', None) \<Longrightarrow> dk_trees d' n = Some (tree_over m (found (dk_trees d n)))"
  by (auto simp: write_manifest_def tree_over_def dest!: make_tree_done dest: write_profiles_done split: prod.splits option.splits)

section \<open>What the store serves\<close>

text \<open>The store serves the live tree of a disk.\<close>

definition serves :: "reader \<Rightarrow> string \<Rightarrow> disk \<Rightarrow> store \<Rightarrow> bool" where
  "serves rd dataDir d s \<longleftrightarrow>
     st_dir s = join_path dataDir treeDir \<and>
     (\<exists>sn g. st_cur s = Some sn \<and>
        read_store (rd_parsers rd) (look rd dataDir (dk_trees d treeDir)) (look rd dataDir (dk_trees d treeDir))
          (s\<lparr>st_gen := g\<rparr>) = Inr sn)"

lemma serves_cong: "dk_trees d treeDir = dk_trees d' treeDir \<Longrightarrow> serves rd dataDir d s = serves rd dataDir d' s"
  by (simp add: serves_def)

lemma look_live: "look rd dataDir live (join_path dataDir treeDir) = tree_view (rd_mtime rd) live"
  by (simp add: look_def)

lemma no_tree_unread: "read_store ps (look rd dataDir None) f (s\<lparr>st_dir := join_path dataDir treeDir\<rparr>) \<noteq> Inr sn"
  by (simp add: read_store_def read_named_def look_live tree_view_def no_tree_def)

lemma read_store_cur [simp]: "read_store ps f f' (s\<lparr>st_cur := c\<rparr>) = read_store ps f f' s"
  by (simp add: read_store_def split: sum.split)

lemma reload_live_outcome:
  assumes "reload_live rd dataDir s d = (s', d', r)"
  shows "(r = None \<and> serves rd dataDir d s' \<and> st_base s' = st_base s) \<or> (r \<noteq> None \<and> s' = s)"
proof -
  obtain out d1 where n: "next_call d = (out, d1)" by force
  define live where "live = (if out = Fine then dk_trees d1 treeDir else None)"
  let ?f = "look rd dataDir live" and ?dir = "join_path dataDir treeDir"
  from assms have "ReloadFrom (rd_parsers rd) ?f ?f ?dir s = (s', r)"
    by (auto simp: reload_live_def Let_def n live_def split: prod.splits)
  from ReloadFrom_outcome [OF this] show ?thesis
  proof (elim disjE conjE exE)
    fix sn assume h: "read_store (rd_parsers rd) ?f ?f (s\<lparr>st_dir := ?dir\<rparr>) = Inr sn"
      "s' = serve sn (s\<lparr>st_dir := ?dir\<rparr>)" "r = None"
    from h(1) no_tree_unread have "live = dk_trees d1 treeDir" by (auto simp: live_def split: if_splits)
    with next_call_trees [OF n] have "live = dk_trees d treeDir" by simp
    with h have "serves rd dataDir d s'"
      unfolding serves_def by (auto simp: serve_def intro!: exI [of _ "st_gen s"])
    with h show ?thesis by (simp add: serve_def)
  qed auto
qed

section \<open>All or nothing\<close>

text \<open>
  How an attempt may end, from a store \<open>s\<close> and a disk \<open>d\<close>: with the new generation served, or with
  an error and the old one served as before or read again from the disk.
\<close>

definition all_or_nothing :: "reader \<Rightarrow> string \<Rightarrow> store \<Rightarrow> dir_tree option \<Rightarrow> store \<times> disk \<times> err option \<Rightarrow> bool" where
  "all_or_nothing rd dataDir s old res = (case res of (s', d', r) \<Rightarrow>
     st_base s' = st_base s \<and>
     (if r = None then serves rd dataDir d' s'
      else (s' = s \<or> (serves rd dataDir d' s' \<and> dk_trees d' treeDir = old)) \<and>
           (old \<noteq> None \<longrightarrow> dk_trees d' treeDir = old \<or> dk_trees d' prev = old)))"

lemma names_differ [simp]: "staging \<noteq> treeDir" "prev \<noteq> treeDir" "staging \<noteq> prev" "treeDir \<noteq> staging" "treeDir \<noteq> prev" "prev \<noteq> staging"
  by simp_all

lemma apply_reload_all:
  assumes "if lived then dk_trees d prev = Some t \<and> old = Some t else old = None"
  shows "all_or_nothing rd dataDir s old (apply_reload rd dataDir lived s d)"
proof -
  obtain s1 d1 r where a: "reload_live rd dataDir s d = (s1, d1, r)" by (metis prod_cases3)
  note t1 = reload_live_trees [OF a]
  show ?thesis
  proof (cases r)
    case None
    with reload_live_outcome [OF a] have "serves rd dataDir d s1" "st_base s1 = st_base s" by auto
    moreover have "dk_trees (remove_tree prev d1) treeDir = dk_trees d treeDir" using t1 by (simp add: remove_tree_other)
    ultimately show ?thesis
      using None by (simp add: apply_reload_def a all_or_nothing_def serves_cong [of "remove_tree prev d1" d])
  next
    case (Some e)
    with reload_live_outcome [OF a] have s1: "s1 = s" by auto
    define d2 where "d2 = remove_tree treeDir d1"
    have p2: "dk_trees d2 prev = dk_trees d prev" by (simp add: d2_def remove_tree_other t1)
    show ?thesis
    proof (cases lived)
      case False
      with assms Some show ?thesis by (simp add: apply_reload_def a s1 all_or_nothing_def Let_def)
    next
      case True
      with assms have o: "old = Some t" "dk_trees d2 prev = Some t" using p2 by auto
      obtain d3 q where b: "rename_tree prev treeDir d2 = (d3, q)" by force
      obtain s2 d4 r4 where c: "reload_live rd dataDir s d3 = (s2, d4, r4)" by (metis prod_cases3)
      have res: "apply_reload rd dataDir lived s d = (if q = Renamed then (s2, d4, Some e) else (s, d3, Some e))"
        by (simp add: apply_reload_def a s1 Some True Let_def d2_def [symmetric] b c split: renamed.split)
      from b show ?thesis
      proof (cases rule: rename_tree_cases)
        case (moved t')
        with o have "dk_trees d4 treeDir = Some t" using reload_live_trees [OF c] by auto
        moreover have "s2 = s \<or> serves rd dataDir d4 s2" "st_base s2 = st_base s"
          using reload_live_outcome [OF c] reload_live_trees [OF c] serves_cong [of d3 d4] by auto
        ultimately show ?thesis using moved o by (auto simp: res all_or_nothing_def)
      qed (use o in \<open>auto simp: res all_or_nothing_def\<close>)
    qed
  qed
qed

lemma apply_promote_all:
  assumes "if lived then dk_trees d prev = Some t \<and> old = Some t else old = None"
  shows "all_or_nothing rd dataDir s old (apply_promote rd dataDir lived s d)"
proof -
  obtain d1 q where a: "rename_tree staging treeDir d = (d1, q)" by force
  define d2 where "d2 = (if lived then fst (rename_tree prev treeDir d1) else d1)"
  have bad: "all_or_nothing rd dataDir s old (s, remove_tree staging d2, Some e)" if "dk_trees d1 = dk_trees d" for e
  proof (cases lived)
    case False
    with assms show ?thesis by (simp add: all_or_nothing_def)
  next
    case True
    with assms that have o: "old = Some t" "dk_trees d1 prev = Some t" by auto
    obtain d3 q' where b: "rename_tree prev treeDir d1 = (d3, q')" by force
    have d2: "d2 = d3" using True by (simp add: d2_def b)
    from b have "dk_trees d3 treeDir = Some t \<or> dk_trees d3 prev = Some t"
      using o(2) by (cases rule: rename_tree_cases) auto
    with o show ?thesis by (simp add: all_or_nothing_def d2 remove_tree_other)
  qed
  from a show ?thesis
  proof (cases rule: rename_tree_cases)
    case (moved t')
    then have "if lived then dk_trees d1 prev = Some t \<and> old = Some t else old = None" using assms by auto
    from apply_reload_all [OF this] moved(1) show ?thesis by (simp add: apply_promote_def a)
  next
    case absent
    with bad show ?thesis by (simp add: apply_promote_def a d2_def [symmetric] Let_def)
  next
    case failed
    with bad show ?thesis by (simp add: apply_promote_def a d2_def [symmetric] Let_def)
  qed
qed

lemma untouched: "dk_trees d' treeDir = old \<Longrightarrow> all_or_nothing rd dataDir s old (s, d', Some e)"
  by (simp add: all_or_nothing_def)

lemma desired_Apply_all: "all_or_nothing rd dataDir s (dk_trees d treeDir) (desired_Apply rd dataDir m s d)"
proof -
  obtain d0 r0 where a: "make_data_dir d = (d0, r0)" by force
  have t0: "dk_trees d0 = dk_trees d"
    using a by (auto simp: make_data_dir_def dest!: next_call_trees split: prod.splits outcome.splits)
  obtain d1 r1 where b: "write_manifest staging m (remove_tree staging d0) = (d1, r1)" by force
  have t1: "dk_trees d1 treeDir = dk_trees d treeDir"
    using write_manifest_other [OF b, of treeDir] t0 by (simp add: remove_tree_other)
  define dp where "dp = remove_tree prev d1"
  have tp: "dk_trees dp treeDir = dk_trees d treeDir" by (simp add: dp_def remove_tree_other t1)
  obtain d2 q where c: "rename_tree treeDir prev dp = (d2, q)" by force
  have res: "desired_Apply rd dataDir m s d =
     (case r0 of Some e \<Rightarrow> (s, d0, Some e) | None \<Rightarrow>
       (case r1 of Some e \<Rightarrow> (s, remove_tree staging d1, Some e) | None \<Rightarrow>
         (case q of Renamed \<Rightarrow> apply_promote rd dataDir True s d2 | NotExist \<Rightarrow> apply_promote rd dataDir False s d2
          | NotRenamed \<Rightarrow> (s, remove_tree staging d2, Some (Err ''park live'' ''rename'')))))"
    by (simp add: desired_Apply_def a b dp_def [symmetric] c split: option.split renamed.split)
  have fin: "all_or_nothing rd dataDir s (dk_trees d treeDir)
      (case q of Renamed \<Rightarrow> apply_promote rd dataDir True s d2 | NotExist \<Rightarrow> apply_promote rd dataDir False s d2
       | NotRenamed \<Rightarrow> (s, remove_tree staging d2, Some (Err ''park live'' ''rename'')))"
    using c
  proof (cases rule: rename_tree_cases)
    case (moved t)
    then show ?thesis using tp by (simp add: apply_promote_all [where t = t])
  next
    case absent
    then show ?thesis using tp by (simp add: apply_promote_all)
  next
    case failed
    then show ?thesis using tp by (simp add: untouched remove_tree_other)
  qed
  show ?thesis
    unfolding res using fin t0 t1 by (auto simp: untouched remove_tree_other split: option.split)
qed

section \<open>A disk without failures\<close>

definition tree_of :: "manifest \<Rightarrow> dir_tree" where
  "tree_of m = tree_over m []"

lemma tree_of_fold: "tree_of m = fold (\<lambda>(sub, fs) t. fold (add_file sub) fs (add_sub sub t)) (mf_profiles m) []"
  by (simp add: tree_of_def tree_over_def)

lemma put_same: "dk_trees d n = t \<Longrightarrow> put_tree n t d = d"
  by (simp add: put_tree_def fun_upd_idem)

lemma put_put [simp]: "put_tree n t (put_tree n u d) = put_tree n t d"
  by (simp add: put_tree_def)

lemma quiet_put [simp]: "dk_ahead d = [] \<Longrightarrow> next_call (put_tree n t d) = (Fine, put_tree n t d)"
  by (simp add: next_call_quiet)

lemma quiet_calls:
  assumes "dk_ahead d = []"
  shows "make_data_dir d = (d, None)" and "remove_tree n d = put_tree n None d"
    and "dk_trees d n = None \<Longrightarrow> make_tree n d = (put_tree n (Some []) d, None)"
    and "dk_trees d n = Some t \<Longrightarrow> make_sub n sub d = (put_tree n (Some (add_sub sub t)) d, None)"
    and "dk_trees d n = Some t \<Longrightarrow> write_file n sub f d = (put_tree n (Some (add_file sub f t)) d, None)"
  using next_call_quiet [OF assms]
  by (simp_all add: make_data_dir_def remove_tree_def make_tree_def make_sub_def write_file_def in_tree_def)

lemma quiet_write_files:
  "dk_ahead d = [] \<Longrightarrow> dk_trees d n = Some t \<Longrightarrow>
   write_files n sub fs d = (put_tree n (Some (fold (add_file sub) fs t)) d, None)"
  by (induction fs arbitrary: d t) (simp_all add: put_same quiet_calls)

lemma quiet_write_profiles:
  "dk_ahead d = [] \<Longrightarrow> dk_trees d n = Some t \<Longrightarrow>
   write_profiles n ps d = (put_tree n (Some (fold (\<lambda>(sub, fs) t. fold (add_file sub) fs (add_sub sub t)) ps t)) d, None)"
proof (induction ps arbitrary: d t)
  case Nil
  then show ?case by (simp add: put_same)
next
  case (Cons p ps)
  obtain sub fs where p: "p = (sub, fs)" by (cases p)
  have "write_files n sub fs (put_tree n (Some (add_sub sub t)) d) =
      (put_tree n (Some (fold (add_file sub) fs (add_sub sub t))) d, None)"
    using Cons.prems by (subst quiet_write_files) auto
  with Cons show ?case by (simp add: p quiet_calls)
qed

lemma quiet_write_manifest:
  "dk_ahead d = [] \<Longrightarrow> dk_trees d n = None \<Longrightarrow> write_manifest n m d = (put_tree n (Some (tree_of m)) d, None)"
  by (simp add: write_manifest_def quiet_calls quiet_write_profiles tree_of_fold)

lemma quiet_rename:
  "dk_ahead d = [] \<Longrightarrow> rename_tree a b d =
     (case dk_trees d a of
        None \<Rightarrow> (d, NotExist)
      | Some t \<Rightarrow> if dk_trees d b \<noteq> None then (d, NotRenamed) else (put_tree b (Some t) (put_tree a None d), Renamed))"
  by (simp add: rename_tree_def next_call_quiet)

lemma quiet_reload:
  "dk_ahead d = [] \<Longrightarrow> reload_live rd dataDir s d = (s', d', r) \<Longrightarrow> d' = d"
  by (auto simp: reload_live_def next_call_quiet Let_def split: prod.splits)

lemma quiet_apply_reload:
  assumes "dk_ahead d = []" and "if lived then dk_trees d prev = Some t \<and> old = Some t else old = None"
    and "apply_reload rd dataDir lived s d = (s', d', r)"
  shows "dk_ahead d' = [] \<and> (if r = None then dk_trees d' = (dk_trees d)(prev := None)
    else dk_trees d' = (dk_trees d)(treeDir := old, prev := if lived then None else dk_trees d prev))"
proof -
  obtain s1 d1 r1 where a: "reload_live rd dataDir s d = (s1, d1, r1)" by (metis prod_cases3)
  note d1 = quiet_reload [OF assms(1) a]
  show ?thesis
  proof (cases r1)
    case None
    with assms show ?thesis by (auto simp: apply_reload_def a d1 quiet_calls)
  next
    case (Some e)
    let ?d3 = "put_tree treeDir (Some t) (put_tree prev None (put_tree treeDir None d))"
    obtain s2 d4 r4 where c: "reload_live rd dataDir s1 ?d3 = (s2, d4, r4)" by (metis prod_cases3)
    have d4: "d4 = ?d3" by (rule quiet_reload [OF _ c]) (simp add: assms(1))
    show ?thesis
    proof (cases lived)
      case True
      then have "rename_tree prev treeDir (remove_tree treeDir d) = (?d3, Renamed)"
        using assms(1,2) by (simp add: quiet_calls quiet_rename)
      then have "d' = ?d3" "r = Some e" using assms(3) True Some by (simp_all add: apply_reload_def a d1 Let_def c d4)
      with True assms(1,2) show ?thesis by (auto simp: fun_eq_iff)
    next
      case False
      with assms Some show ?thesis by (auto simp: apply_reload_def a d1 Let_def quiet_calls)
    qed
  qed
qed

lemma quiet_Apply:
  assumes "dk_ahead d = []" and "desired_Apply rd dataDir m s d = (s', d', r)"
  shows "dk_ahead d' = [] \<and>
    dk_trees d' = (dk_trees d)(treeDir := if r = None then Some (tree_of m) else dk_trees d treeDir, staging := None, prev := None)"
proof -
  let ?d1 = "put_tree staging (Some (tree_of m)) d"
  let ?dp = "put_tree prev None ?d1"
  have w: "write_manifest staging m (remove_tree staging d) = (?d1, None)"
    using assms(1) by (simp add: quiet_calls quiet_write_manifest)
  have dp: "remove_tree prev ?d1 = ?dp" using assms(1) by (simp add: quiet_calls)
  show ?thesis
  proof (cases "dk_trees d treeDir")
    case None
    let ?d3 = "put_tree treeDir (Some (tree_of m)) (put_tree staging None ?dp)"
    have "rename_tree treeDir prev ?dp = (?dp, NotExist)" using assms(1) None by (simp add: quiet_rename)
    moreover have "rename_tree staging treeDir ?dp = (?d3, Renamed)" using assms(1) None by (simp add: quiet_rename)
    ultimately have "apply_reload rd dataDir False s ?d3 = (s', d', r)"
      using assms(2) by (simp add: desired_Apply_def quiet_calls(1) [OF assms(1)] w dp apply_promote_def)
    from quiet_apply_reload [OF _ _ this, of undefined None] show ?thesis
      using assms(1) None by (auto simp: fun_eq_iff split: if_splits)
  next
    case (Some t)
    let ?d2 = "put_tree prev (Some t) (put_tree treeDir None ?dp)"
    let ?d3 = "put_tree treeDir (Some (tree_of m)) (put_tree staging None ?d2)"
    have "rename_tree treeDir prev ?dp = (?d2, Renamed)" using assms(1) Some by (simp add: quiet_rename)
    moreover have "rename_tree staging treeDir ?d2 = (?d3, Renamed)" using assms(1) by (simp add: quiet_rename)
    ultimately have "apply_reload rd dataDir True s ?d3 = (s', d', r)"
      using assms(2) by (simp add: desired_Apply_def quiet_calls(1) [OF assms(1)] w dp apply_promote_def)
    from quiet_apply_reload [OF _ _ this, of t "Some t"] show ?thesis
      using assms(1) Some by (auto simp: fun_eq_iff split: if_splits)
  qed
qed

text \<open>The files of a tree, and those of a manifest: of two files with one name the later one is written last.\<close>

definition texts :: "dfile list \<Rightarrow> (string \<times> string) list" where
  "texts fs = map (\<lambda>f. (df_name f, df_text f)) fs"

definition sub_map :: "dir_tree \<Rightarrow> string \<Rightarrow> string \<rightharpoonup> string" where
  "sub_map t sub = (case map_of t sub of None \<Rightarrow> Map.empty | Some fs \<Rightarrow> map_of fs)"

lemma file_at_sub_map: "file_at t sub name = (case sub_map t sub name of None \<Rightarrow> Absent | Some x \<Rightarrow> Contents x)"
  by (simp add: file_at_def sub_map_def split: option.split)

lemma sub_map_add_sub [simp]: "sub_map (add_sub sub t) = sub_map t"
  by (rule ext) (auto simp: sub_map_def add_sub_def map_add_def split: option.splits)

lemma sub_map_add_file [simp]:
  "sub_map (add_file sub f t) = (sub_map t)(sub := (sub_map t sub)(df_name f \<mapsto> df_text f))"
  by (rule ext) (auto simp: sub_map_def add_file_def update_conv split: option.splits)

lemma sub_map_files:
  "sub_map (fold (add_file sub) fs t) = (sub_map t)(sub := sub_map t sub ++ map_of (rev (texts fs)))"
  by (induction fs arbitrary: t) (simp_all add: texts_def fun_eq_iff map_add_def split: option.split)

lemma sub_map_profiles:
  "distinct (map fst ps) \<Longrightarrow>
   sub_map (fold (\<lambda>(sub, fs) t. fold (add_file sub) fs (add_sub sub t)) ps t) sub =
     (case map_of ps sub of None \<Rightarrow> sub_map t sub | Some fs \<Rightarrow> sub_map t sub ++ map_of (rev (texts fs)))"
proof (induction ps arbitrary: t)
  case Nil
  then show ?case by simp
next
  case (Cons p ps)
  obtain n fs where p: "p = (n, fs)" by (cases p)
  from Cons.prems have "map_of ps n = None" by (simp add: p map_of_eq_None_iff)
  with Cons show ?case by (simp add: p sub_map_files split: option.split)
qed

lemma tree_of_files:
  assumes "distinct (map fst (mf_profiles m))"
  shows "file_at (tree_of m) sub name =
    (case map_of (mf_profiles m) sub of
       None \<Rightarrow> Absent
     | Some fs \<Rightarrow> (case map_of (rev (texts fs)) name of None \<Rightarrow> Absent | Some x \<Rightarrow> Contents x))"
proof -
  have "sub_map [] sub = Map.empty" by (simp add: sub_map_def)
  then show ?thesis
    by (simp add: file_at_sub_map tree_of_fold sub_map_profiles [OF assms] split: option.split)
qed

text \<open>A tree has every file of a generation.\<close>

definition holds :: "manifest \<Rightarrow> dir_tree \<Rightarrow> bool" where
  "holds m t \<longleftrightarrow> (\<forall>(sub, fs) \<in> set (mf_profiles m). \<forall>name \<in> set (map df_name fs).
     file_at t sub name = Contents (the (map_of (rev (texts fs)) name)))"

lemma texts_known: "name \<in> set (map df_name fs) \<Longrightarrow> \<exists>x. map_of (rev (texts fs)) name = Some x"
proof -
  assume "name \<in> set (map df_name fs)"
  then have "name \<in> fst ` set (rev (texts fs))" by (simp add: texts_def image_image)
  then show ?thesis by (cases "map_of (rev (texts fs)) name") (simp_all add: map_of_eq_None_iff)
qed

lemma tree_over_holds:
  assumes "distinct (map fst (mf_profiles m))"
  shows "holds m (tree_over m t)"
proof -
  have "file_at (tree_over m t) sub name = Contents (the (map_of (rev (texts fs)) name))"
    if p: "(sub, fs) \<in> set (mf_profiles m)" and n: "name \<in> set (map df_name fs)" for sub fs name
  proof -
    obtain x where "map_of (rev (texts fs)) name = Some x" using texts_known [OF n] by blast
    moreover have "map_of (mf_profiles m) sub = Some fs" using assms p by simp
    ultimately show ?thesis by (simp add: file_at_sub_map tree_over_def sub_map_profiles [OF assms])
  qed
  then show ?thesis unfolding holds_def by blast
qed

text \<open>What is in the staging tree after \<open>Apply\<close> has tried to remove it.\<close>

definition leftover :: "disk \<Rightarrow> dir_tree" where
  "leftover d = found (dk_trees (remove_tree staging (fst (make_data_dir d))) staging)"

lemma make_data_dir_trees: "make_data_dir d = (d', r) \<Longrightarrow> dk_trees d' = dk_trees d"
  by (auto simp: make_data_dir_def dest!: next_call_trees split: prod.splits outcome.splits)

lemma remove_none: "dk_trees d n = None \<Longrightarrow> dk_trees (remove_tree n d) n = None"
  by (auto simp: remove_tree_def dest!: next_call_trees split: prod.split outcome.split)

lemma nothing_left: "dk_trees d staging = None \<Longrightarrow> leftover d = []"
proof -
  assume n: "dk_trees d staging = None"
  have "dk_trees (fst (make_data_dir d)) = dk_trees d" by (rule make_data_dir_trees [of _ _ "snd (make_data_dir d)"]) simp
  with n have "dk_trees (remove_tree staging (fst (make_data_dir d))) staging = None" by (simp add: remove_none)
  then show ?thesis by (simp add: leftover_def found_def)
qed

lemma apply_promote_live:
  assumes "apply_promote rd dataDir lived s d = (s', d', None)"
  shows "dk_trees d' treeDir = dk_trees d staging"
proof -
  obtain d1 q where a: "rename_tree staging treeDir d = (d1, q)" by force
  with assms have q: "q = Renamed" and p: "apply_reload rd dataDir lived s d1 = (s', d', None)"
    by (auto simp: apply_promote_def Let_def split: renamed.splits)
  obtain s2 d2 r where b: "reload_live rd dataDir s d1 = (s2, d2, r)" by (metis prod_cases3)
  have "r = None \<and> d' = remove_tree prev d2"
    using p by (auto simp: apply_reload_def b Let_def split: option.splits if_splits prod.splits renamed.splits)
  then have "dk_trees d' treeDir = dk_trees d1 treeDir" using reload_live_trees [OF b] by (simp add: remove_tree_other)
  also from a have "\<dots> = dk_trees d staging" using q by (cases rule: rename_tree_cases) auto
  finally show ?thesis .
qed

lemma desired_Apply_live:
  assumes "desired_Apply rd dataDir m s d = (s', d', None)"
  shows "dk_trees d' treeDir = Some (tree_over m (leftover d))"
proof -
  obtain d0 r0 where a: "make_data_dir d = (d0, r0)" by force
  obtain d1 r1 where b: "write_manifest staging m (remove_tree staging d0) = (d1, r1)" by force
  obtain d2 q where c: "rename_tree treeDir prev (remove_tree prev d1) = (d2, q)" by force
  have r: "r0 = None" "r1 = None" "q \<noteq> NotRenamed" "apply_promote rd dataDir (q = Renamed) s d2 = (s', d', None)"
    using assms by (auto simp: desired_Apply_def a b c split: option.splits renamed.splits)
  have "dk_trees d1 staging = Some (tree_over m (leftover d))"
    using write_manifest_done [of staging m "remove_tree staging d0" d1] b r(2) by (simp add: leftover_def a)
  moreover from c have "dk_trees d2 staging = dk_trees d1 staging"
    by (cases rule: rename_tree_cases) (simp_all add: remove_tree_other)
  ultimately show ?thesis using apply_promote_live [OF r(4)] by simp
qed

section \<open>Restart\<close>

lemma read_entries_present:
  "read_entries ps f dir c es st = Inr st' \<Longrightarrow> fst st' name \<noteq> None \<Longrightarrow>
   fst st name \<noteq> None \<or> tr_profile (f dir) name \<noteq> Absent"
proof (induction es arbitrary: st)
  case Nil
  then show ?case by simp
next
  case (Cons e es)
  obtain n b where e: "e = (n, b)" by (cases e)
  have "tr_profile (f dir) n \<noteq> Absent" if "readProfile ps f dir n c = Inr (Some p)" for p
    using that by (auto simp: readProfile_def)
  moreover have "fst (add_named n p st) name \<noteq> None \<longleftrightarrow> n = name \<or> fst st name \<noteq> None" for p
    by (cases st) (auto simp: add_named_def)
  ultimately show ?case
    using Cons.prems Cons.IH [of st] Cons.IH [of "add_named n p st" for p]
    by (auto simp: e split: if_splits sum.splits option.splits)
qed

lemma add_probe_default: "fst (add_probe ps f base dir c st) DefaultName = fst st DefaultName"
  by (cases st) (auto simp: add_probe_def add_named_def split: sum.split option.split)

lemma read_store_default:
  assumes "read_store ps f f' s = Inr sn"
  shows "tr_profile (f (st_dir s)) DefaultName \<noteq> Absent"
proof -
  from assms obtain c st where "read_named ps f (st_base s) (st_dir s) = Inr (c, st)"
    by (auto simp: read_store_def split: sum.splits)
  then obtain es st0 where st0: "read_entries ps f (st_dir s) c es (Map.empty, []) = Inr st0"
      and "fst (add_probe ps f (st_base s) (st_dir s) c st0) DefaultName \<noteq> None"
    by (auto simp: read_named_def Let_def split: option.splits sum.splits if_splits)
  then have "fst st0 DefaultName \<noteq> None" by (simp add: add_probe_default)
  from read_entries_present [OF st0 this] show ?thesis by simp
qed

text \<open>Two readings of the same files differ in the number of the generation at most.\<close>

lemma read_store_again:
  "read_store ps f f' s = Inr sn \<Longrightarrow> st_dir s2 = st_dir s \<Longrightarrow> st_base s2 = st_base s \<Longrightarrow>
   read_store ps f f' s2 = Inr (sn\<lparr>sn_gen := wrap64 (st_gen s2 + 1)\<rparr>)"
  by (auto simp: read_store_def split: sum.splits prod.splits)

definition same_profiles :: "snapshot option \<Rightarrow> snapshot option \<Rightarrow> bool" where
  "same_profiles a b \<longleftrightarrow> map_option (\<lambda>sn. sn\<lparr>sn_gen := 0\<rparr>) a = map_option (\<lambda>sn. sn\<lparr>sn_gen := 0\<rparr>) b"

lemma serves_restart:
  assumes "serves rd dataDir d s" and "dataDir \<noteq> []" and "dk_ahead d = []" and "st_base s2 = st_base s"
  shows "\<exists>s3. Bootstrap rd dataDir s2 d = (s3, d, True) \<and> same_profiles (st_cur s3) (st_cur s) \<and> serves rd dataDir d s3"
proof -
  let ?f = "look rd dataDir (dk_trees d treeDir)" and ?live = "join_path dataDir treeDir" and ?ps = "rd_parsers rd"
  from assms(1) obtain sn g where sn: "st_dir s = ?live" "st_cur s = Some sn"
      "read_store ?ps ?f ?f (s\<lparr>st_gen := g\<rparr>) = Inr sn" unfolding serves_def by blast
  have "tr_profile (?f ?live) DefaultName \<noteq> Absent" using read_store_default [OF sn(3)] sn(1) by simp
  then have present: "tr_profile (tree_view (rd_mtime rd) (dk_trees d treeDir)) DefaultProfile \<noteq> Absent"
    by (simp add: look_live)
  let ?sn = "sn\<lparr>sn_gen := wrap64 (st_gen s2 + 1)\<rparr>"
  have r: "read_store ?ps ?f ?f (s2\<lparr>st_dir := ?live\<rparr>) = Inr ?sn"
    using read_store_again [OF sn(3), of "s2\<lparr>st_dir := ?live\<rparr>"] sn(1) assms(4) by simp
  then have "reload_live rd dataDir s2 d = (serve ?sn (s2\<lparr>st_dir := ?live\<rparr>), d, None)"
    by (simp add: reload_live_def next_call_quiet [OF assms(3)] Let_def ReloadFrom_def)
  then have b: "Bootstrap rd dataDir s2 d = (serve ?sn (s2\<lparr>st_dir := ?live\<rparr>), d, True)"
    using assms(2) present by (simp add: Bootstrap_def next_call_quiet [OF assms(3)])
  have "same_profiles (Some ?sn) (Some sn)" by (simp add: same_profiles_def)
  moreover have "serves rd dataDir d (serve ?sn (s2\<lparr>st_dir := ?live\<rparr>))"
    using r by (auto simp: serves_def serve_def intro!: exI [of _ "st_gen s2"])
  ultimately show ?thesis using b sn(2) by simp
qed

section \<open>The watcher\<close>

lemma serves_trees: "dk_trees d = dk_trees d' \<Longrightarrow> serves rd dataDir d s = serves rd dataDir d' s"
  by (simp add: serves_def)

text \<open>The store serves some snapshot that was read from files and found valid.\<close>

definition sound :: "reader \<Rightarrow> store \<Rightarrow> bool" where
  "sound rd s \<longleftrightarrow> (\<exists>sn. st_cur s = Some sn \<and> snap_ok (rd_parsers rd) sn)"

lemma reload_live_sound:
  assumes "sound rd s" and "reload_live rd dataDir s d = (s', d', r)"
  shows "sound rd s'"
proof -
  obtain f where f: "ReloadFrom (rd_parsers rd) f f (join_path dataDir treeDir) s = (s', r)"
    using assms(2) by (auto simp: reload_live_def Let_def split: prod.splits)
  from ReloadFrom_outcome [OF this] assms(1) show ?thesis
    using read_store_ok unfolding sound_def by force
qed

lemma apply_reload_sound:
  assumes "sound rd s"
  shows "sound rd (fst (apply_reload rd dataDir lived s d))"
proof -
  obtain s1 d1 r1 where a: "reload_live rd dataDir s d = (s1, d1, r1)" by (metis prod_cases3)
  have s1: "sound rd s1" by (rule reload_live_sound [OF assms a])
  obtain d3 q where b: "rename_tree prev treeDir (remove_tree treeDir d1) = (d3, q)" by force
  obtain s2 d4 r4 where c: "reload_live rd dataDir s1 d3 = (s2, d4, r4)" by (metis prod_cases3)
  have "sound rd s2" by (rule reload_live_sound [OF s1 c])
  with s1 show ?thesis by (simp add: apply_reload_def a b c Let_def split: option.split renamed.split)
qed

lemma desired_Apply_sound:
  assumes "sound rd s"
  shows "sound rd (fst (desired_Apply rd dataDir m s d))"
proof -
  have "sound rd (fst (apply_promote rd dataDir lived s d))" for lived d
    using assms apply_reload_sound [OF assms] by (simp add: apply_promote_def Let_def split: prod.split renamed.split)
  with assms show ?thesis by (simp add: desired_Apply_def split: prod.split option.split renamed.split)
qed

lemma Reload_sound:
  assumes "sound rd s"
  shows "sound rd (fst (Reload (rd_parsers rd) f0 f f' s))"
proof -
  obtain s' r where e: "Reload (rd_parsers rd) f0 f f' s = (s', r)" by force
  from Reload_outcome [OF this] assms show ?thesis
    using read_store_ok unfolding e sound_def by force
qed

lemma reload_live_reach:
  assumes "store_reach (rd_parsers rd) s" and "reload_live rd dataDir s d = (s', d', r)"
  shows "store_reach (rd_parsers rd) s'"
proof -
  have "\<exists>f. ReloadFrom (rd_parsers rd) f f (join_path dataDir treeDir) s = (s', r)"
    using assms(2) by (auto simp: reload_live_def Let_def split: prod.splits)
  then show ?thesis using store_reach.reload_from [OF assms(1)] by (metis fst_conv)
qed

text \<open>
  The life of the process: started with a store that serves something, then entries of the bucket
  arrive, each meeting its own failures of the disk, and the store looks for changed files, at
  moments when it can read the live tree or not.  The watcher of the store runs beside the one of
  the bucket: a \<open>Reload\<close> that overlaps an application ends after it and serves whatever it read, from
  any files and with any number.  The flag \<open>late\<close> tells that this has happened and that neither a
  later application nor a later \<open>Reload\<close> has replaced what it served.
\<close>

definition fails_with :: "outcome list \<Rightarrow> desired_state \<Rightarrow> desired_state" where
  "fails_with xs w = w\<lparr>ds_disk := (ds_disk w)\<lparr>dk_ahead := xs\<rparr>\<rparr>"

definition ticked_store :: "reader \<Rightarrow> string \<Rightarrow> bool \<times> bool \<times> bool \<Rightarrow> desired_state \<Rightarrow> store \<times> (err + bool)" where
  "ticked_store rd dataDir readable w =
     (case readable of (b0, b1, b2) \<Rightarrow>
       let f = (\<lambda>b. look rd dataDir (if b then dk_trees (ds_disk w) treeDir else None))
       in Reload (rd_parsers rd) (f b0) (f b1) (f b2) (ds_store w))"

definition tick :: "reader \<Rightarrow> string \<Rightarrow> bool \<times> bool \<times> bool \<Rightarrow> desired_state \<Rightarrow> desired_state" where
  "tick rd dataDir readable w = w\<lparr>ds_store := fst (ticked_store rd dataDir readable w)\<rparr>"

text \<open>An entry was applied when it made the record of what is applied another one that is \<open>ok\<close>.\<close>

definition renewed :: "desired_state \<Rightarrow> desired_state \<Rightarrow> bool" where
  "renewed w w' \<longleftrightarrow> ap_apply (ds_applied w') = ApplyOK \<and> ds_applied w' \<noteq> ds_applied w"

inductive watch_reach :: "library \<Rightarrow> reader \<Rightarrow> string \<Rightarrow> bool \<Rightarrow> desired_state \<Rightarrow> bool" for lb rd dataDir where
  started: "sound rd (ds_store w) \<Longrightarrow> ds_applied w = no_applied \<Longrightarrow> watch_reach lb rd dataDir False w"
| entry: "watch_reach lb rd dataDir late w \<Longrightarrow> w' = watch_entry lb rd dataDir e (fails_with xs w) \<Longrightarrow>
    watch_reach lb rd dataDir (late \<and> \<not> renewed w w') w'"
| ticked: "watch_reach lb rd dataDir late w \<Longrightarrow>
    watch_reach lb rd dataDir (late \<and> snd (ticked_store rd dataDir readable w) \<noteq> Inr True) (tick rd dataDir readable w)"
| overlapped: "watch_reach lb rd dataDir late w \<Longrightarrow> read_store (rd_parsers rd) f f' s0 = Inr sn \<Longrightarrow>
    watch_reach lb rd dataDir True (w\<lparr>ds_store := (ds_store w)\<lparr>st_cur := Some sn, st_gen := g\<rparr>\<rparr>)"

text \<open>The record names a generation: its hash, its revision and its profiles.\<close>

definition names_gen :: "manifest \<Rightarrow> applied \<Rightarrow> bool" where
  "names_gen m a \<longleftrightarrow> ap_hash a = mf_hash m \<and> ap_rev a = mf_rev m \<and> ap_names a = manifest_Names m"

definition accepted :: "library \<Rightarrow> manifest \<Rightarrow> bool" where
  "accepted lb m \<longleftrightarrow> (\<exists>raw. parse_manifest lb raw = Inr m)"

definition on_disk :: "manifest \<Rightarrow> disk \<Rightarrow> bool" where
  "on_disk m d \<longleftrightarrow> (\<exists>t. dk_trees d treeDir = Some t \<and> holds m t)"

definition watch_inv :: "library \<Rightarrow> reader \<Rightarrow> string \<Rightarrow> bool \<Rightarrow> desired_state \<Rightarrow> bool" where
  "watch_inv lb rd dataDir late w \<longleftrightarrow>
     sound rd (ds_store w) \<and>
     (ap_apply (ds_applied w) = ApplyOK \<longrightarrow>
        st_dir (ds_store w) = join_path dataDir treeDir \<and>
        (\<exists>m. accepted lb m \<and> names_gen m (ds_applied w) \<and> on_disk m (ds_disk w)) \<and>
        (\<not> late \<longrightarrow> serves rd dataDir (ds_disk w) (ds_store w))) \<and>
     (ap_apply (ds_applied w) = ApplyFailed \<longrightarrow>
        (\<exists>m. accepted lb m \<and> names_gen m (ds_applied w)) \<or> ds_applied w = no_applied\<lparr>ap_apply := ApplyFailed\<rparr>) \<and>
     (ap_apply (ds_applied w) \<notin> {ApplyOK, ApplyFailed} \<longrightarrow> ds_applied w = no_applied)"

lemma names_gen_status [simp]: "names_gen m (a\<lparr>ap_apply := st\<rparr>) = names_gen m a"
  by (simp add: names_gen_def)

text \<open>What a \<open>Reload\<close> of the live tree leaves: the store as it was, or this tree served.\<close>

lemma ticked_outcome:
  assumes "st_dir (ds_store w) = join_path dataDir treeDir" and "ticked_store rd dataDir readable w = (s', r)"
  shows "s' = ds_store w \<and> r \<noteq> Inr True \<or> serves rd dataDir (ds_disk w) s'"
proof -
  obtain b0 b1 b2 where b: "readable = (b0, b1, b2)" by (cases readable)
  let ?ps = "rd_parsers rd" and ?s = "ds_store w"
  define f where "f b = look rd dataDir (if b then dk_trees (ds_disk w) treeDir else None)" for b
  have "Reload ?ps (f b0) (f b1) (f b2) ?s = (s', r)"
    using assms(2) unfolding ticked_store_def b Let_def prod.case f_def by simp
  from Reload_outcome [OF this] show ?thesis
  proof (elim disjE conjE exE)
    fix sn assume h: "read_store ?ps (f b1) (f b2) ?s = Inr sn" "s' = serve sn ?s"
    have "?s\<lparr>st_dir := join_path dataDir treeDir\<rparr> = ?s" using assms(1) by simp
    then have "b1" using h(1) no_tree_unread [of ?ps rd dataDir "f b2" ?s sn] by (cases b1) (simp_all add: f_def)
    moreover have "b2"
      using h(1) assms(1)
      by (cases b2) (auto simp: read_store_def fingerprint_def f_def look_live tree_view_def no_tree_def split: sum.splits)
    moreover have "s'\<lparr>st_gen := st_gen ?s\<rparr> = ?s\<lparr>st_cur := Some sn\<rparr>" by (simp add: h(2) serve_def)
    ultimately have "read_store ?ps (f True) (f True) (s'\<lparr>st_gen := st_gen ?s\<rparr>) = Inr sn" using h(1) by simp
    moreover have "st_dir s' = join_path dataDir treeDir" "st_cur s' = Some sn" using assms(1) h(2) by (simp_all add: serve_def)
    ultimately show ?thesis unfolding serves_def f_def by auto
  qed simp
qed

lemma serves_dir: "serves rd dataDir d s \<Longrightarrow> st_dir s = join_path dataDir treeDir"
  by (simp add: serves_def)

text \<open>What a manifest does to the record: nothing, only the status, or all of it.\<close>

lemma watch_manifest_cases:
  fixes w :: desired_state
  assumes "distinct (map fst (mf_profiles m))"
  obtains (same) "watch_manifest rd dataDir m w = w"
    | (failed) s d where "watch_manifest rd dataDir m w =
          w\<lparr>ds_store := s, ds_disk := d, ds_applied := (ds_applied w)\<lparr>ap_apply := ApplyFailed\<rparr>\<rparr>"
        "sound rd (ds_store w) \<longrightarrow> sound rd s"
    | (fresh) s d l where "watch_manifest rd dataDir m w =
          w\<lparr>ds_store := s, ds_disk := d, ds_applied := applied_set (mf_hash m) (mf_rev m) ApplyOK (manifest_Names m), ds_level := l\<rparr>"
        "sound rd (ds_store w) \<longrightarrow> sound rd s" "serves rd dataDir d s" "on_disk m d"
        "ds_applied w \<noteq> applied_set (mf_hash m) (mf_rev m) ApplyOK (manifest_Names m)"
proof (cases "ap_apply (ds_applied w) = ApplyOK \<and> ap_hash (ds_applied w) = mf_hash m \<and> ap_rev (ds_applied w) = mf_rev m")
  case True
  then show ?thesis by (intro same) (simp add: watch_manifest_def)
next
  case False
  obtain s d r where a: "desired_Apply rd dataDir m (ds_store w) (ds_disk w) = (s, d, r)" by (metis prod_cases3)
  have s: "sound rd (ds_store w) \<longrightarrow> sound rd s"
    using desired_Apply_sound [of rd "ds_store w" dataDir m "ds_disk w"] by (simp add: a)
  show ?thesis
  proof (cases r)
    case None
    with desired_Apply_all [of rd dataDir "ds_store w" "ds_disk w" m] have "serves rd dataDir d s"
      by (simp add: all_or_nothing_def a)
    moreover have "on_disk m d"
      using desired_Apply_live [of rd dataDir m "ds_store w" "ds_disk w" s d] tree_over_holds [OF assms] None
      by (simp add: a on_disk_def)
    moreover have "ds_applied w \<noteq> applied_set (mf_hash m) (mf_rev m) ApplyOK (manifest_Names m)"
      using False applied_set_fields by metis
    ultimately show ?thesis
      using fresh [where s = s and d = d and l = "apply_settings (mf_settings m) (ds_level w)"] s False None
      by (auto simp: watch_manifest_def a Let_def)
  next
    case (Some e)
    then show ?thesis using failed [where s = s and d = d] s False by (simp add: watch_manifest_def a Let_def)
  qed
qed

lemma parse_manifest_profiles:
  "parse_manifest lb raw = Inr m \<Longrightarrow> \<exists>m0. lb_decode lb raw = Some m0 \<and> mf_profiles m = mf_profiles m0"
  by (auto simp: parse_manifest_def Let_def split: option.splits sum.splits if_splits)

text \<open>The keys of a Go map are distinct.\<close>

definition map_keys :: "library \<Rightarrow> bool" where
  "map_keys lb \<longleftrightarrow> (\<forall>raw m. lb_decode lb raw = Some m \<longrightarrow> distinct (map fst (mf_profiles m)))"

lemma parsed_distinct: "map_keys lb \<Longrightarrow> parse_manifest lb raw = Inr m \<Longrightarrow> distinct (map fst (mf_profiles m))"
  using parse_manifest_profiles [of lb raw m] by (auto simp: map_keys_def)

lemma watch_manifest_inv:
  assumes "watch_inv lb rd dataDir late w" and "parse_manifest lb raw = Inr m" and "map_keys lb"
  shows "watch_inv lb rd dataDir (late \<and> \<not> renewed w (watch_manifest rd dataDir m w)) (watch_manifest rd dataDir m w)"
proof -
  have acc: "accepted lb m" using assms(2) by (auto simp: accepted_def)
  from parsed_distinct [OF assms(3,2)] show ?thesis
  proof (cases rule: watch_manifest_cases [of m rd dataDir w])
    case same
    then show ?thesis using assms(1) by (simp add: renewed_def)
  next
    case (failed s d)
    have "(\<exists>m. accepted lb m \<and> names_gen m (ds_applied w)) \<or>
        ds_applied w\<lparr>ap_apply := ApplyFailed\<rparr> = no_applied\<lparr>ap_apply := ApplyFailed\<rparr>"
      using assms(1) by (cases "ap_apply (ds_applied w) = ApplyOK"; cases "ap_apply (ds_applied w) = ApplyFailed")
        (auto simp: watch_inv_def)
    then show ?thesis using failed assms(1) by (auto simp: watch_inv_def)
  next
    case (fresh s d l)
    have "names_gen m (applied_set (mf_hash m) (mf_rev m) ApplyOK (manifest_Names m))" by (simp add: names_gen_def)
    moreover have "sound rd s" using fresh(2) assms(1) by (simp add: watch_inv_def)
    moreover have "renewed w (watch_manifest rd dataDir m w)" using fresh(5) by (auto simp: fresh(1) renewed_def)
    ultimately show ?thesis
      using acc fresh(3,4) serves_dir [OF fresh(3)] by (auto simp: watch_inv_def fresh(1))
  qed
qed

lemma watch_inv_fails: "watch_inv lb rd dataDir late (fails_with xs w) = watch_inv lb rd dataDir late w"
  using serves_trees [of "ds_disk w\<lparr>dk_ahead := xs\<rparr>" "ds_disk w"]
  by (simp add: watch_inv_def fails_with_def on_disk_def)

lemma watch_entry_inv:
  assumes "watch_inv lb rd dataDir late w" and "map_keys lb"
  shows "watch_inv lb rd dataDir (late \<and> \<not> renewed w (watch_entry lb rd dataDir e (fails_with xs w)))
    (watch_entry lb rd dataDir e (fails_with xs w))"
proof -
  let ?w = "fails_with xs w"
  have w: "watch_inv lb rd dataDir late ?w" using assms(1) by (simp add: watch_inv_fails)
  have r: "renewed ?w = renewed w" by (rule ext) (simp add: renewed_def fails_with_def)
  have idle: "watch_inv lb rd dataDir (late \<and> \<not> renewed w ?w) ?w"
    using w by (simp add: renewed_def) (simp add: fails_with_def)
  show ?thesis
  proof (cases e)
    case (Put raw)
    show ?thesis
    proof (cases "parse_manifest lb raw")
      case (Inr m)
      then show ?thesis using watch_manifest_inv [OF w Inr assms(2)] by (simp add: Put watch_entry_def r)
    qed (use idle in \<open>simp add: Put watch_entry_def\<close>)
  qed (use idle in \<open>simp_all add: watch_entry_def\<close>)
qed

lemma tick_inv:
  assumes "watch_inv lb rd dataDir late w"
  shows "watch_inv lb rd dataDir (late \<and> snd (ticked_store rd dataDir readable w) \<noteq> Inr True) (tick rd dataDir readable w)"
proof -
  obtain s' r where e: "ticked_store rd dataDir readable w = (s', r)" by force
  have "sound rd s'"
    using e Reload_sound [of rd "ds_store w"] assms
    by (cases readable) (simp add: ticked_store_def Let_def watch_inv_def, metis fst_conv)
  moreover have "s' = ds_store w \<and> r \<noteq> Inr True \<or> serves rd dataDir (ds_disk w) s'" if "ap_apply (ds_applied w) = ApplyOK"
    using ticked_outcome [OF _ e] assms that by (simp add: watch_inv_def)
  ultimately show ?thesis
    using assms serves_dir [of rd dataDir "ds_disk w" s'] by (auto simp: watch_inv_def tick_def e)
qed

text \<open>The record after an entry: as it was but for the status, or that of the manifest of the entry.\<close>

lemma watch_entry_reports:
  assumes "map_keys lb" and w': "w' = watch_entry lb rd dataDir e (fails_with xs w)"
  shows "(ap_hash (ds_applied w'), ap_rev (ds_applied w'), ap_names (ds_applied w')) =
       (ap_hash (ds_applied w), ap_rev (ds_applied w), ap_names (ds_applied w)) \<or>
     (\<exists>raw m. e = Put raw \<and> parse_manifest lb raw = Inr m \<and> names_gen m (ds_applied w') \<and>
        ap_apply (ds_applied w') = ApplyOK \<and> on_disk m (ds_disk w') \<and>
        serves rd dataDir (ds_disk w') (ds_store w'))"
proof -
  have same: "ds_applied (fails_with xs w) = ds_applied w" by (simp add: fails_with_def)
  show ?thesis
  proof (cases e)
    case (Put raw)
    show ?thesis
    proof (cases "parse_manifest lb raw")
      case (Inr m)
      have a: "w' = watch_manifest rd dataDir m (fails_with xs w)" by (simp add: w' Put watch_entry_def Inr)
      from parsed_distinct [OF assms(1) Inr] show ?thesis
      proof (cases rule: watch_manifest_cases [of m rd dataDir "fails_with xs w"])
        case (fresh s d l)
        then show ?thesis using Inr Put by (simp add: a names_gen_def)
      qed (simp_all add: a same)
    qed (simp add: w' Put watch_entry_def same)
  qed (simp_all add: w' watch_entry_def same)
qed

lemma watch_reach_inv:
  assumes "watch_reach lb rd dataDir late w" and "map_keys lb"
  shows "watch_inv lb rd dataDir late w"
  using assms(1)
proof (induction rule: watch_reach.induct)
  case (started w)
  then show ?case by (simp add: watch_inv_def no_applied_def)
next
  case (entry late w w' e xs)
  then show ?case using watch_entry_inv [OF entry.IH assms(2)] by simp
next
  case (ticked late w readable)
  then show ?case using tick_inv by blast
next
  case (overlapped late w f f' s0 sn g)
  have "snap_ok (rd_parsers rd) sn" by (rule read_store_ok [OF overlapped(2)])
  then show ?case using overlapped.IH by (simp add: watch_inv_def sound_def)
qed

section \<open>A concrete generation\<close>

definition demo_manifest :: manifest where
  "demo_manifest =
     \<lparr>mf_v = 1, mf_rev = 7, mf_hash = [],
      mf_profiles = [(''default'', [\<lparr>df_name = ''profile.yaml'', df_text = ''profile''\<rparr>]),
        (''_shared'', [\<lparr>df_name = ''counters.yaml'', df_text = ''counters''\<rparr>])],
      mf_settings = Some \<lparr>sg_log_level = ''debug'', sg_level = 0\<rparr>\<rparr>"

definition demo_reader :: reader where
  "demo_reader = \<lparr>rd_parsers = demo_parsers, rd_base = demo_fs, rd_mtime = (\<lambda>t p. 5)\<rparr>"

definition demo_disk :: disk where
  "demo_disk = \<lparr>dk_trees = Map.empty, dk_ahead = []\<rparr>"

definition demo_tree :: dir_tree where
  "demo_tree = [(''default'', [(''profile.yaml'', ''profile'')]), (''_shared'', [(''counters.yaml'', ''counters'')])]"

lemma demo_tree_of: "tree_of demo_manifest = demo_tree"
  by code_simp

lemma demo_live_path: "join_path ''/data'' treeDir = ''/data/profiles''"
  by code_simp

lemma demo_view:
  "tree_view (\<lambda>t p. 5) (Some demo_tree) =
     \<lparr>tr_entries = Some [(''_shared'', True), (''default'', True)], tr_counters = Contents ''counters'',
      tr_profile = (\<lambda>n. file_at demo_tree n ''profile.yaml''),
      tr_files = Some [(''_shared/counters.yaml'', 8, 5), (''default/profile.yaml'', 7, 5)]\<rparr>"
proof -
  have a: "map (\<lambda>n. (n, True)) (sort (map fst demo_tree)) = [(''_shared'', True), (''default'', True)]"
    "file_at demo_tree SharedDir ''counters.yaml'' = Contents ''counters''"
    "concat (map (walk_sub (\<lambda>p. 5) demo_tree) (sort (map fst demo_tree))) =
       [(''_shared/counters.yaml'', 8, 5), (''default/profile.yaml'', 7, 5)]"
    by code_simp+
  then show ?thesis by (simp add: tree_view_def)
qed

lemma demo_profile_at:
  "tr_profile (f dir) ''default'' = Contents raw \<Longrightarrow>
   readProfile demo_parsers f dir ''default'' shipped_counters = Inr (Some default_profile)"
proof -
  assume "tr_profile (f dir) ''default'' = Contents raw"
  moreover have "default_profile\<lparr>pf_name := ''default''\<rparr> = default_profile" by (simp add: default_profile_def defaults_def)
  ultimately show ?thesis
    by (simp add: readProfile_def demo_parsers_def ParseProfile_def default_profile_accepted default_profile_declared)
qed

lemma demo_reload:
  assumes "dk_trees d treeDir = Some demo_tree" and "dk_ahead d = []" and "st_base s = ''profiles''"
  shows "\<exists>s'. reload_live demo_reader ''/data'' s d = (s', d, None)"
proof -
  let ?f = "look demo_reader ''/data'' (Some demo_tree)" and ?dir = "''/data/profiles''"
  have f: "?f ?dir = tree_view (\<lambda>t p. 5) (Some demo_tree)" "?f ''profiles'' = demo_fs ''profiles''"
    by (simp_all add: look_def demo_live_path demo_reader_def)
  have "file_at demo_tree ''default'' ''profile.yaml'' = Contents ''profile''" by code_simp
  then have p: "readProfile demo_parsers ?f ?dir ''default'' shipped_counters = Inr (Some default_profile)"
    by (intro demo_profile_at [where raw = "''profile''"]) (simp add: f demo_view)
  have q: "readProfile demo_parsers ?f ''profiles'' ''_probe'' shipped_counters = Inr None"
    by (simp add: readProfile_def f demo_fs_def)
  have "read_counters demo_parsers ?f ?dir = Inr shipped_counters"
    by (simp add: read_counters_def f demo_view demo_parsers_def shipped_parsed)
  then have "read_named demo_parsers ?f ''profiles'' ?dir = Inr (shipped_counters, [''default'' \<mapsto> default_profile], [''default''])"
    by (simp add: read_named_def f demo_view p q add_named_def add_probe_def)
  then have "\<exists>sn. read_store demo_parsers ?f ?f (s\<lparr>st_dir := ?dir\<rparr>) = Inr sn"
    by (simp add: read_store_def assms(3) fingerprint_def f demo_view)
  then show ?thesis
    using assms(1,2) demo_live_path
    by (auto simp: reload_live_def next_call_quiet ReloadFrom_def demo_reader_def Let_def)
qed

lemma demo_apply:
  "\<exists>s'. desired_Apply demo_reader ''/data'' demo_manifest demo_store demo_disk =
     (s', \<lparr>dk_trees = [treeDir \<mapsto> demo_tree], dk_ahead = []\<rparr>, None)"
proof -
  let ?d = "demo_disk" and ?d1 = "put_tree staging (Some demo_tree) demo_disk"
  let ?dp = "put_tree prev None ?d1"
  let ?d3 = "put_tree treeDir (Some demo_tree) (put_tree staging None ?dp)"
  have q: "dk_ahead ?d = []" and t: "dk_trees ?d = Map.empty" by (simp_all add: demo_disk_def)
  have w: "write_manifest staging demo_manifest (remove_tree staging ?d) = (?d1, None)"
    using q by (simp add: quiet_calls quiet_write_manifest demo_tree_of)
  have dp: "remove_tree prev ?d1 = ?dp" using q by (simp add: quiet_calls)
  have "rename_tree treeDir prev ?dp = (?dp, NotExist)" "rename_tree staging treeDir ?dp = (?d3, Renamed)"
    using q t by (simp_all add: quiet_rename)
  moreover obtain s' where "reload_live demo_reader ''/data'' demo_store ?d3 = (s', ?d3, None)"
    using demo_reload [of ?d3 demo_store] q by (auto simp: demo_store_def)
  ultimately have "desired_Apply demo_reader ''/data'' demo_manifest demo_store ?d = (s', put_tree prev None ?d3, None)"
    using quiet_calls(2) [of ?d3 prev] q
    by (simp add: desired_Apply_def quiet_calls(1) w dp apply_promote_def apply_reload_def)
  moreover have "put_tree prev None ?d3 = \<lparr>dk_trees = [treeDir \<mapsto> demo_tree], dk_ahead = []\<rparr>"
    by (auto simp: put_tree_def demo_disk_def fun_eq_iff)
  ultimately show ?thesis by auto
qed

definition demo_library :: library where
  "demo_library = \<lparr>lb_decode = (\<lambda>_. Some demo_manifest), lb_digest = (\<lambda>s. s), lb_level = (\<lambda>_. Inr (- 4))\<rparr>"

definition demo_start :: desired_state where
  "demo_start = \<lparr>ds_store = demo_store, ds_disk = demo_disk, ds_applied = no_applied, ds_level = 0\<rparr>"

lemma demo_parse:
  "\<exists>m. parse_manifest demo_library raw = Inr m \<and> mf_profiles m = mf_profiles demo_manifest"
proof -
  have "first_err (\<lambda>i. check_profile) 0 (mf_profiles demo_manifest) = None" by code_simp
  moreover have "map_of (mf_profiles demo_manifest) DefaultProfile \<noteq> None" by (simp add: demo_manifest_def)
  ultimately show ?thesis
    by (auto simp: parse_manifest_def demo_library_def validate_settings_def Let_def)
      (auto simp: demo_manifest_def Let_def)
qed

lemma desired_Apply_profiles:
  assumes "mf_profiles m = mf_profiles m'"
  shows "desired_Apply rd dataDir m s d = desired_Apply rd dataDir m' s d"
proof -
  have "write_manifest n m = write_manifest n m'" for n by (rule ext) (simp only: write_manifest_def assms)
  then show ?thesis by (simp only: desired_Apply_def)
qed

lemma demo_watched:
  "ap_apply (ds_applied (watch_entry demo_library demo_reader ''/data'' (Put raw) (fails_with [] demo_start))) = ApplyOK"
proof -
  obtain m where m: "parse_manifest demo_library raw = Inr m" "mf_profiles m = mf_profiles demo_manifest"
    using demo_parse by blast
  have d: "ds_disk demo_start\<lparr>dk_ahead := []\<rparr> = demo_disk" by (simp add: demo_start_def demo_disk_def)
  obtain s' d' where "desired_Apply demo_reader ''/data'' m demo_store demo_disk = (s', d', None)"
    using demo_apply desired_Apply_profiles [OF m(2)] by metis
  then show ?thesis
    by (simp add: watch_entry_def m(1) watch_manifest_def fails_with_def d)
      (simp add: demo_start_def no_applied_def)
qed

lemma demo_watch_reach:
  "\<exists>late. watch_reach demo_library demo_reader ''/data'' late
     (watch_entry demo_library demo_reader ''/data'' (Put raw) (fails_with [] demo_start))"
proof -
  have "store_reach (rd_parsers demo_reader) (ds_store demo_start)"
    using store_reach.load [OF demo_load] by (simp add: demo_start_def demo_reader_def)
  from store_reach_ok [OF this] have "sound demo_reader (ds_store demo_start)" by (simp add: sound_def)
  then have "watch_reach demo_library demo_reader ''/data'' False demo_start"
    by (rule watch_reach.started) (simp add: demo_start_def)
  from watch_reach.entry [OF this refl, of "Put raw" "[]"] show ?thesis by auto
qed

section \<open>What the code does not see\<close>

text \<open>
  The hash of a configuration does not tell its profiles apart: the texts are closed by a NUL each,
  but nothing says where the files of a profile end.  Two manifests that both pass every check have
  the same hash whatever the digest, and with the same revision the second is skipped.
\<close>

definition three_profiles :: dprofiles where
  "three_profiles = [(''default'', [\<lparr>df_name = ''profile.yaml'', df_text = ''mode: off''\<rparr>]),
     (''extra'', [\<lparr>df_name = ''a'', df_text = ''b''\<rparr>]), (''zed'', [\<lparr>df_name = ''c'', df_text = ''d''\<rparr>])]"

definition one_profile :: dprofiles where
  "one_profile = [(''default'', [\<lparr>df_name = ''profile.yaml'', df_text = ''mode: off''\<rparr>,
     \<lparr>df_name = ''extra'', df_text = ''a''\<rparr>, \<lparr>df_name = ''b'', df_text = ''zed''\<rparr>, \<lparr>df_name = ''c'', df_text = ''d''\<rparr>])]"

lemma config_hash_collides:
  "HashWith lb three_profiles so = HashWith lb one_profile so"
  "first_err (\<lambda>i. check_profile) 0 three_profiles = None" "first_err (\<lambda>i. check_profile) 0 one_profile = None"
  "map fst three_profiles \<noteq> map fst one_profile"
proof -
  have "concat (map (profile_bytes three_profiles) (sort (map fst three_profiles))) =
      concat (map (profile_bytes one_profile) (sort (map fst one_profile)))" by code_simp
  then show "HashWith lb three_profiles so = HashWith lb one_profile so" by (simp add: HashWith_def)
  show "first_err (\<lambda>i. check_profile) 0 three_profiles = None" "first_err (\<lambda>i. check_profile) 0 one_profile = None"
    "map fst three_profiles \<noteq> map fst one_profile" by code_simp+
qed

text \<open>
  The heartbeat of an applied generation lists \<open>_shared\<close> among the profiles: every generation that the
  store can read has that directory, and no snapshot ever lists it.
\<close>

lemma shared_is_reported:
  assumes "dk_ahead d = []" and "desired_Apply rd dataDir m s d = (s', d', None)" and "distinct (map fst (mf_profiles m))"
  shows "SharedDir \<in> set (manifest_Names m)"
proof -
  from quiet_Apply [OF assms(1,2)] have live: "dk_trees d' treeDir = Some (tree_of m)" by simp
  from desired_Apply_all [of rd dataDir s d m] assms(2) have "serves rd dataDir d' s'" by (simp add: all_or_nothing_def)
  then obtain sn g where "st_dir s' = join_path dataDir treeDir"
      "read_store (rd_parsers rd) (look rd dataDir (Some (tree_of m))) (look rd dataDir (Some (tree_of m))) (s'\<lparr>st_gen := g\<rparr>) = Inr sn"
    unfolding serves_def live by blast
  then have "file_at (tree_of m) SharedDir ''counters.yaml'' \<noteq> Absent"
    by (auto simp: read_store_def read_named_def read_counters_def look_live tree_view_def split: option.splits sum.splits)
  then have "map_of (mf_profiles m) SharedDir \<noteq> None"
    unfolding tree_of_files [OF assms(3)] by (auto split: option.splits)
  then show ?thesis by (simp add: manifest_Names_def map_of_eq_None_iff)
qed

section \<open>Properties\<close>

text \<open>
  C11 (safety): which generation an attempt leaves, whatever system calls fail.  Where \<open>Apply\<close> returns
  no error the store serves the live tree, and this tree is the new generation written over what the
  removal of the staging tree left, so it has every file of the generation, and nothing else when
  there was no staging tree.  Where it returns an error the store serves what it served, or the old
  tree read again, and the old tree is on the disk when the attempt ends, live or parked; only the
  live one is safe from the next attempt.  Where no call fails the disk ends with exactly the new
  generation or exactly the old one.
\<close>

theorem generation_all_or_nothing:
  assumes "desired_Apply rd dataDir m s d = (s', d', r)" and "distinct (map fst (mf_profiles m))"
  shows "(r = None \<longrightarrow> serves rd dataDir d' s' \<and>
       dk_trees d' treeDir = Some (tree_over m (leftover d)) \<and> holds m (tree_over m (leftover d)) \<and>
       (dk_trees d staging = None \<longrightarrow> tree_over m (leftover d) = tree_of m)) \<and>
    (r \<noteq> None \<longrightarrow>
       (s' = s \<or> serves rd dataDir d' s' \<and> dk_trees d' treeDir = dk_trees d treeDir) \<and>
       (dk_trees d treeDir \<noteq> None \<longrightarrow>
          dk_trees d' treeDir = dk_trees d treeDir \<or> dk_trees d' prev = dk_trees d treeDir)) \<and>
    (dk_ahead d = [] \<longrightarrow>
       dk_trees d' = (dk_trees d)(treeDir := if r = None then Some (tree_of m) else dk_trees d treeDir,
         staging := None, prev := None))"
proof (intro conjI impI)
  assume r: "r = None"
  from desired_Apply_all [of rd dataDir s d m] assms(1) r show "serves rd dataDir d' s'" by (simp add: all_or_nothing_def)
  from assms(1) r show "dk_trees d' treeDir = Some (tree_over m (leftover d))" by (simp add: desired_Apply_live)
  show "holds m (tree_over m (leftover d))" by (rule tree_over_holds [OF assms(2)])
  assume "dk_trees d staging = None"
  then show "tree_over m (leftover d) = tree_of m" by (simp add: nothing_left tree_of_def)
next
  assume "dk_ahead d = []"
  from quiet_Apply [OF this assms(1)]
  show "dk_trees d' = (dk_trees d)(treeDir := if r = None then Some (tree_of m) else dk_trees d treeDir,
      staging := None, prev := None)" ..
qed (use desired_Apply_all [of rd dataDir s d m] assms(1) in \<open>auto simp: all_or_nothing_def\<close>)

theorem generation_all_or_nothing_witness:
  "\<exists>s' d'. desired_Apply demo_reader ''/data'' demo_manifest demo_store demo_disk = (s', d', None) \<and>
     serves demo_reader ''/data'' d' s' \<and> dk_trees d' treeDir = Some demo_tree"
proof -
  obtain s' d' where a: "desired_Apply demo_reader ''/data'' demo_manifest demo_store demo_disk = (s', d', None)"
    using demo_apply by blast
  moreover have "distinct (map fst (mf_profiles demo_manifest))" by (simp add: demo_manifest_def)
  moreover have "dk_trees demo_disk staging = None" by (simp add: demo_disk_def)
  ultimately show ?thesis using generation_all_or_nothing [OF a] by (auto simp: demo_tree_of)
qed

text \<open>
  C39 (roundtrip): an applied generation survives a restart: a process that starts on the disk that
  \<open>Apply\<close> left, with any store over the same profiles of the image, restores it and serves the same
  profiles, counters and names.
\<close>

theorem applied_survives_restart:
  assumes "desired_Apply rd dataDir m s d = (s', d', None)" and "dataDir \<noteq> []" and "st_base s2 = st_base s"
  shows "\<exists>s3 d3. Bootstrap rd dataDir s2 (d'\<lparr>dk_ahead := []\<rparr>) = (s3, d3, True) \<and>
    same_profiles (st_cur s3) (st_cur s') \<and> st_cur s3 \<noteq> None"
proof -
  from desired_Apply_all [of rd dataDir s d m] assms(1) have h: "serves rd dataDir d' s'" "st_base s' = st_base s"
    by (simp_all add: all_or_nothing_def)
  have "serves rd dataDir (d'\<lparr>dk_ahead := []\<rparr>) s'" using h(1) by (simp add: serves_def)
  from serves_restart [OF this assms(2), of s2] h(2) assms(3) show ?thesis
    by (auto simp: serves_def)
qed

theorem applied_survives_restart_witness:
  "\<exists>d' s3 d3. Bootstrap demo_reader ''/data'' demo_store d' = (s3, d3, True) \<and> st_cur s3 \<noteq> None"
proof -
  obtain s' d' where a: "desired_Apply demo_reader ''/data'' demo_manifest demo_store demo_disk = (s', d', None)"
    using demo_apply by blast
  from applied_survives_restart [OF a, of demo_store] show ?thesis by (auto simp: demo_store_def)
qed

text \<open>
  C16 (invariant): what the heartbeat reports is what is on the disk, whatever arrives on the bus,
  whatever fails on the disk and whenever the store looks for changed files.  While it reports \<open>ok\<close>
  the hash, the revision and the names are those of one accepted manifest, and the live tree has
  every file of this manifest; the store serves the live tree, unless a \<open>Reload\<close> that overlapped the
  application came late and nothing has replaced what it served.  An entry of the bucket leaves the
  hash, the revision and the names alone, or the entry is an accepted manifest, the status becomes
  \<open>ok\<close> and they are those of this manifest, which is now on the disk and served; so after a failure they are those of the last success, or
  none.  The store always serves something.
\<close>

theorem heartbeat_reports_served:
  assumes "watch_reach lb rd dataDir late w" and "map_keys lb" and "w' = watch_entry lb rd dataDir e (fails_with xs w)"
  shows "st_cur (ds_store w) \<noteq> None \<and>
    (ap_apply (ds_applied w) = ApplyOK \<longrightarrow>
       (\<exists>m. accepted lb m \<and> names_gen m (ds_applied w) \<and> on_disk m (ds_disk w)) \<and>
       (late \<or> serves rd dataDir (ds_disk w) (ds_store w))) \<and>
    (ap_apply (ds_applied w) = ApplyFailed \<longrightarrow>
       (\<exists>m. accepted lb m \<and> names_gen m (ds_applied w)) \<or> ds_applied w = no_applied\<lparr>ap_apply := ApplyFailed\<rparr>) \<and>
    (ap_apply (ds_applied w) \<notin> {ApplyOK, ApplyFailed} \<longrightarrow> ds_applied w = no_applied) \<and>
    ((ap_hash (ds_applied w'), ap_rev (ds_applied w'), ap_names (ds_applied w')) =
       (ap_hash (ds_applied w), ap_rev (ds_applied w), ap_names (ds_applied w)) \<or>
     (\<exists>raw m. e = Put raw \<and> parse_manifest lb raw = Inr m \<and> names_gen m (ds_applied w') \<and>
        ap_apply (ds_applied w') = ApplyOK \<and> on_disk m (ds_disk w') \<and> serves rd dataDir (ds_disk w') (ds_store w')))"
proof -
  note inv = watch_reach_inv [OF assms(1,2), unfolded watch_inv_def]
  from inv have "st_cur (ds_store w) \<noteq> None" by (auto simp: sound_def)
  with inv watch_entry_reports [OF assms(2,3)] show ?thesis by blast
qed

theorem heartbeat_reports_served_witness:
  "\<exists>w m. ap_apply (ds_applied w) = ApplyOK \<and> accepted demo_library m \<and> names_gen m (ds_applied (w :: desired_state)) \<and>
     on_disk m (ds_disk w)"
proof -
  let ?w = "watch_entry demo_library demo_reader ''/data'' (Put []) (fails_with [] demo_start)"
  have ok: "ap_apply (ds_applied ?w) = ApplyOK" by (rule demo_watched)
  obtain late where "watch_reach demo_library demo_reader ''/data'' late ?w" using demo_watch_reach by blast
  moreover have "map_keys demo_library" by (simp add: map_keys_def demo_library_def demo_manifest_def)
  ultimately have "\<exists>m. accepted demo_library m \<and> names_gen m (ds_applied ?w) \<and> on_disk m (ds_disk ?w)"
    using heartbeat_reports_served [of demo_library demo_reader "''/data''" late ?w _ Removed "[]", OF _ _ refl] ok by blast
  with ok show ?thesis by blast
qed

end
