(* ===== verification/Process.thy ===== *)
theory Process
  imports Settings_Laws Desired_Laws Queue_Laws
begin

text \<open>
  \<open>cmd/inspector/main.go\<close>: how the parts are put together.  The start is a sequence of steps each of
  which may end the process; what the libraries and the network answer is a record.  The heartbeat
  is the message of one beat.  The ticker, the signal and the shutdown are in \<open>Lifecycle\<close>; the log
  lines are left out.
\<close>

section \<open>The start\<close>

record world =
  wd_machine :: machine
  wd_reader :: reader
  wd_profiles :: "fs \<times> fs"
  wd_disk :: disk
  wd_dial_body :: "string \<Rightarrow> err option"
  wd_ping :: "err option"
  wd_connect :: "string list \<Rightarrow> err option"
  wd_geo :: "string \<Rightarrow> int \<Rightarrow> int \<Rightarrow> err option"
  wd_dial_buckets :: "string \<Rightarrow> err option"
  wd_subscribe :: "string \<Rightarrow> string \<Rightarrow> err option"
  wd_limits :: "int \<Rightarrow> int \<Rightarrow> err option"

datatype start_error = Configuration load_error | Starting err

record process =
  pr_config :: config
  pr_level :: int
  pr_store :: store
  pr_disk :: disk
  pr_bodies :: bool
  pr_resolver :: bool
  pr_redis_buckets :: bool
  pr_pool :: pool

definition step_fine :: "err option \<Rightarrow> (start_error + 'a) \<Rightarrow> start_error + 'a" where
  "step_fine r k = (case r of Some e \<Rightarrow> Inl (Starting e) | None \<Rightarrow> k)"

lemma step_fine_Inr [simp]: "step_fine r k = Inr y \<longleftrightarrow> r = None \<and> k = Inr y"
  by (simp add: step_fine_def split: option.split)

text \<open>\<open>bodyLoader\<close>: whether the loader has a store behind it.\<close>

definition bodyLoader :: "world \<Rightarrow> config \<Rightarrow> err + bool" where
  "bodyLoader wd c =
     (if cf_redis c = [] then Inr False
      else case wd_dial_body wd (cf_redis c) of
             Some e \<Rightarrow> Inl e
           | None \<Rightarrow> (case wd_ping wd of Some e \<Rightarrow> Inl e | None \<Rightarrow> Inr True))"

text \<open>What the client of the bus may hold for the subscription.\<close>

definition pending_msgs :: "config \<Rightarrow> int" where
  "pending_msgs c = wrap64 (wrap64 (cf_depth c + cf_workers c) + 2)"

definition resolver_of :: "world \<Rightarrow> config \<Rightarrow> err option" where
  "resolver_of wd c = (if cf_geo c = [] then None else wd_geo wd (cf_geo c) (cf_geo_timeout c) (cf_geo_neg_max c))"

definition buckets_of :: "world \<Rightarrow> config \<Rightarrow> err option" where
  "buckets_of wd c = (if cf_buckets c = [] then None else wd_dial_buckets wd (cf_buckets c))"

definition pool_of :: "config \<Rightarrow> pool" where
  "pool_of c = newPool (cf_depth c) (cf_reserve c) (cf_min_budget c) (cf_full c)"

definition run :: "world \<Rightarrow> start_error + process" where
  "run wd =
     (case config_Load (wd_machine wd) of
        Inl e \<Rightarrow> Inl (Configuration e)
      | Inr c \<Rightarrow>
          (case LoadProfiles (rd_parsers (wd_reader wd)) (fst (wd_profiles wd)) (snd (wd_profiles wd)) (cf_profiles c) of
             Inl e \<Rightarrow> Inl (Starting e)
           | Inr st0 \<Rightarrow>
               (case Bootstrap (wd_reader wd) (cf_data c) st0 (wd_disk wd) of
                  (st, d, _) \<Rightarrow>
                    (case bodyLoader wd c of
                       Inl e \<Rightarrow> Inl (Starting e)
                     | Inr bodies \<Rightarrow>
                         step_fine (wd_connect wd (cf_servers c))
                        (step_fine (resolver_of wd c)
                        (step_fine (buckets_of wd c)
                        (step_fine (wd_subscribe wd (cf_subject c) (cf_queue c))
                        (step_fine (wd_limits wd (pending_msgs c) (8 * 1024 * 1024))
                           (Inr \<lparr>pr_config = c, pr_level = cf_level c, pr_store = st, pr_disk = d, pr_bodies = bodies,
                                 pr_resolver = (cf_geo c \<noteq> []), pr_redis_buckets = (cf_buckets c \<noteq> []),
                                 pr_pool = pool_of c\<rparr>)))))))))"

section \<open>The heartbeat\<close>

record beat =
  bt_workers :: int
  bt_depth :: int
  bt_queued :: int
  bt_accepted :: int
  bt_shed :: int
  bt_expired :: int
  bt_hash :: string
  bt_rev :: int
  bt_apply :: string
  bt_profiles :: "string list"

text \<open>\<open>Applied.Snapshot\<close>, of no watcher too.\<close>

definition applied_snapshot :: "applied option \<Rightarrow> applied" where
  "applied_snapshot ao = (case ao of None \<Rightarrow> no_applied | Some a \<Rightarrow> a)"

definition heartbeat :: "config \<Rightarrow> pool \<Rightarrow> applied option \<Rightarrow> store \<Rightarrow> beat" where
  "heartbeat c p ao s =
     (let a = applied_snapshot ao;
          b = \<lparr>bt_workers = cf_workers c, bt_depth = cf_depth c, bt_queued = q_len p, bt_accepted = po_accepted p,
               bt_shed = po_shed p, bt_expired = po_expired p, bt_hash = [], bt_rev = 0, bt_apply = [], bt_profiles = []\<rparr>
      in if ap_apply a \<noteq> [] then
           b\<lparr>bt_hash := ap_hash a, bt_rev := ap_rev a, bt_apply := ap_apply a, bt_profiles := ap_names a\<rparr>
         else b\<lparr>bt_profiles := snap_names (st_cur s)\<rparr>)"

section \<open>What a started process is\<close>

lemma Bootstrap_reach:
  assumes "store_reach (rd_parsers rd) s" and "Bootstrap rd dataDir s d = (s', d', b)"
  shows "store_reach (rd_parsers rd) s'"
proof -
  obtain out d1 where n: "next_call d = (out, d1)" by force
  obtain s1 d2 r where a: "reload_live rd dataDir s d1 = (s1, d2, r)" by (metis prod_cases3)
  from assms(2) have "s' = s \<or> s' = s1" by (auto simp: Bootstrap_def n a split: if_splits)
  with assms(1) reload_live_reach [OF assms(1) a] show ?thesis by blast
qed

lemma run_parts:
  assumes "run wd = Inr p"
  shows "config_Load (wd_machine wd) = Inr (pr_config p)" and "store_reach (rd_parsers (wd_reader wd)) (pr_store p)"
    and "pr_pool p = pool_of (pr_config p)" and "wd_limits wd (pending_msgs (pr_config p)) (8 * 1024 * 1024) = None"
    and "pr_bodies p \<longleftrightarrow> cf_redis (pr_config p) \<noteq> []" and "pr_redis_buckets p \<longleftrightarrow> cf_buckets (pr_config p) \<noteq> []"
proof -
  from assms obtain c st0 st d b bodies where h: "config_Load (wd_machine wd) = Inr c"
      "LoadProfiles (rd_parsers (wd_reader wd)) (fst (wd_profiles wd)) (snd (wd_profiles wd)) (cf_profiles c) = Inr st0"
      "Bootstrap (wd_reader wd) (cf_data c) st0 (wd_disk wd) = (st, d, b)" "bodyLoader wd c = Inr bodies"
      "wd_limits wd (pending_msgs c) (8 * 1024 * 1024) = None"
      "p = \<lparr>pr_config = c, pr_level = cf_level c, pr_store = st, pr_disk = d, pr_bodies = bodies,
            pr_resolver = (cf_geo c \<noteq> []), pr_redis_buckets = (cf_buckets c \<noteq> []), pr_pool = pool_of c\<rparr>"
    by (auto simp: run_def split: sum.splits prod.splits)
  from h(4) have "bodies \<longleftrightarrow> cf_redis c \<noteq> []" by (auto simp: bodyLoader_def split: if_splits option.splits)
  with h show "config_Load (wd_machine wd) = Inr (pr_config p)" "store_reach (rd_parsers (wd_reader wd)) (pr_store p)"
    "pr_pool p = pool_of (pr_config p)" "wd_limits wd (pending_msgs (pr_config p)) (8 * 1024 * 1024) = None"
    "pr_bodies p \<longleftrightarrow> cf_redis (pr_config p) \<noteq> []" "pr_redis_buckets p \<longleftrightarrow> cf_buckets (pr_config p) \<noteq> []"
    using Bootstrap_reach [OF store_reach.load [OF h(2)] h(3)] by auto
qed

lemma pool_bounded:
  assumes "config_ok c" and "reach (start n (pool_of c)) s"
  shows "0 \<le> q_len (sy_pool s) \<and> q_len (sy_pool s) \<le> cf_depth c"
proof -
  have "po_depth (pool_of c) = cf_depth c" using assms(1) by (simp add: pool_of_def newPool_def config_ok_def)
  then have "po_depth (sy_pool s) = cf_depth c" unfolding reach_depth [OF assms(2)] by (simp add: start_def)
  moreover have "books_ok s" using assms(2) unfolding pool_of_def by (rule run_books)
  ultimately show ?thesis by (simp add: books_ok_def q_len_def)
qed

lemma heartbeat_fields [simp]:
  "bt_queued (heartbeat c p ao s) = q_len p" "bt_depth (heartbeat c p ao s) = cf_depth c"
  "bt_workers (heartbeat c p ao s) = cf_workers c"
  by (simp_all add: heartbeat_def Let_def)

section \<open>A concrete start\<close>

definition demo_world :: world where
  "demo_world =
     \<lparr>wd_machine = demo_machine, wd_reader = demo_reader, wd_profiles = (demo_fs, demo_fs), wd_disk = demo_disk,
      wd_dial_body = (\<lambda>_. None), wd_ping = None, wd_connect = (\<lambda>_. None), wd_geo = (\<lambda>_ _ _. None),
      wd_dial_buckets = (\<lambda>_. None), wd_subscribe = (\<lambda>_ _. None), wd_limits = (\<lambda>_ _. None)\<rparr>"

lemma demo_run: "\<exists>p. run demo_world = Inr p \<and> pr_config p = demo_config"
proof -
  have "\<exists>st. LoadProfiles demo_parsers demo_fs demo_fs dir = Inr st" for dir
  proof -
    have "read_counters demo_parsers demo_fs dir = Inr shipped_counters"
      by (simp add: read_counters_def demo_fs_def demo_parsers_def shipped_parsed)
    moreover have "tr_entries (demo_fs dir) = Some [(''_shared'', True), (''default'', True), (''README'', False)]"
      "tr_files (demo_fs dir) \<noteq> None" by (simp_all add: demo_fs_def)
    ultimately show ?thesis
      by (auto simp: LoadProfiles_def read_store_def read_named_def demo_read add_named_def add_probe_def fingerprint_def Let_def)
  qed
  then obtain st0 where st0: "LoadProfiles demo_parsers demo_fs demo_fs ''/app/profiles'' = Inr st0" by blast
  obtain st d b where "Bootstrap demo_reader ''/app/profiles.applied'' st0 demo_disk = (st, d, b)" by (metis prod_cases3)
  then show ?thesis
    using st0 demo_Load
    by (simp add: run_def demo_world_def demo_reader_def [symmetric] bodyLoader_def resolver_of_def buckets_of_def)
      (simp add: demo_reader_def demo_config_def bodyLoader_def resolver_of_def buckets_of_def step_fine_def)
qed

section \<open>Properties\<close>

text \<open>
  C22 (safety): a process that came up is sound as a whole: its configuration is sane, its store serves a
  snapshot that passed every check, its buckets are shared exactly when a
  Redis for them is known, and under every schedule of its workers and callers no heartbeat
  reports more waiting tasks than the configured depth.
\<close>

theorem started_process_sound:
  assumes "machine_ok (wd_machine wd)" and "run wd = Inr p"
  shows "config_ok (pr_config p) \<and>
    (\<exists>sn. st_cur (pr_store p) = Some sn \<and> snap_ok (rd_parsers (wd_reader wd)) sn) \<and>
    (pr_redis_buckets p \<longleftrightarrow> cf_buckets (pr_config p) \<noteq> []) \<and>
    (\<forall>s ao. reach (start (nat (cf_workers (pr_config p))) (pr_pool p)) s \<longrightarrow>
       bt_queued (heartbeat (pr_config p) (sy_pool s) ao (pr_store p)) \<le> bt_depth (heartbeat (pr_config p) (sy_pool s) ao (pr_store p)))"
proof -
  note parts = run_parts [OF assms(2)]
  have ok: "config_ok (pr_config p)" using Load_ok [OF assms(1) parts(1)] by blast
  moreover have "\<exists>sn. st_cur (pr_store p) = Some sn \<and> snap_ok (rd_parsers (wd_reader wd)) sn"
    by (rule store_reach_ok [OF parts(2)])
  ultimately show ?thesis using parts(6) pool_bounded [OF ok] unfolding parts(3) by simp
qed

theorem started_process_sound_witness: "\<exists>p. run demo_world = Inr p \<and> config_ok (pr_config p)"
proof -
  obtain p where p: "run demo_world = Inr p" using demo_run by blast
  have "machine_ok (wd_machine demo_world)" using demo_machine_ok by (simp add: demo_world_def)
  from started_process_sound [OF this p] p show ?thesis by blast
qed

end
