(* ===== verification/Lifecycle.thy ===== *)
theory Lifecycle
  imports Process "HOL-Library.Sublist"
begin

text \<open>
  \<open>cmd/inspector/main.go\<close> from the first line of \<open>run\<close> to its return: what is opened, what is
  deferred and what is closed, on every path.  The steps of the start end as in \<open>Process.run\<close>; here
  they leave a trace.  The two loops that run beside the workers, the heartbeat and the watcher
  of the desired state, are functions of what their \<open>select\<close> received.
\<close>

section \<open>The deeds of a run\<close>

datatype part =
    LogShipping
  | BodyStore
  | Bus
  | GeoResolver
  | BucketStore
  | AuditSink
  | Workers
  | Subscription
  | Watchers
  | Heartbeat

text \<open>\<open>Drains\<close> is the call of \<open>sub.Drain\<close>, which returns before the callbacks that it lets finish have run.\<close>

datatype deed = Opens part | Shuts part | Serves | Drains










section \<open>The loops beside the workers\<close>

text \<open>The heartbeat: one message at once, one on every tick, until the channel is closed.\<close>

datatype beat_event = Tick pool "applied option" store | Stopped

fun beat_loop :: "config \<Rightarrow> beat_event list \<Rightarrow> beat list" where
  "beat_loop c [] = []"
| "beat_loop c (Stopped # es) = []"
| "beat_loop c (Tick p ao s # es) = heartbeat c p ao s # beat_loop c es"

definition startHeartbeat :: "config \<Rightarrow> pool \<Rightarrow> applied option \<Rightarrow> store \<Rightarrow> beat_event list \<Rightarrow> beat list" where
  "startHeartbeat c p ao s es = heartbeat c p ao s # beat_loop c es"

text \<open>The watcher of the desired state: entries, until the context ends or the updates do.\<close>

datatype update = Cancelled | NoMore | Update kv_entry

fun watch_updates :: "library \<Rightarrow> reader \<Rightarrow> string \<Rightarrow> update list \<Rightarrow> desired_state \<Rightarrow> desired_state" where
  "watch_updates lb rd dataDir [] w = w"
| "watch_updates lb rd dataDir (Cancelled # us) w = w"
| "watch_updates lb rd dataDir (NoMore # us) w = w"
| "watch_updates lb rd dataDir (Update x # us) w = watch_updates lb rd dataDir us (watch_entry lb rd dataDir x w)"

section \<open>Order\<close>


fun openings :: "deed list \<Rightarrow> part list" where
  "openings [] = []"
| "openings (Opens p # ds) = p # openings ds"
| "openings (_ # ds) = openings ds"

fun closings :: "deed list \<Rightarrow> part list" where
  "closings [] = []"
| "closings (Shuts p # ds) = p # closings ds"
| "closings (_ # ds) = closings ds"



text \<open>The paths through the statements: every condition is a branch.\<close>

lemma perform_map [simp]:
  "openings (map Shuts ps) = []" "closings (map Shuts ps) = ps"
  by (induction ps) simp_all






lemma updates_fold:
  "\<exists>xs. watch_updates lb rd dataDir us w = fold (watch_entry lb rd dataDir) xs w \<and> map Update xs = takeWhile (\<lambda>u. u \<notin> {Cancelled, NoMore}) us"
proof (induction us arbitrary: w)
  case Nil
  then show ?case by simp
next
  case (Cons u us)
  show ?case
  proof (cases u)
    case (Update x)
    with Cons [of "watch_entry lb rd dataDir x w"] obtain xs where
      "watch_updates lb rd dataDir (u # us) w = fold (watch_entry lb rd dataDir) (x # xs) w"
      "map Update xs = takeWhile (\<lambda>u. u \<notin> {Cancelled, NoMore}) us" by auto
    then show ?thesis using Update by (intro exI [of _ "x # xs"]) simp
  qed (intro exI [of _ "[]"], simp)+
qed

section \<open>Properties\<close>


text \<open>Every beat reports the queue and the settings of its own moment.\<close>

lemma beats_as_ticks:
  "startHeartbeat c p ao s es =
   heartbeat c p ao s # map (\<lambda>x. case x of Tick p ao s \<Rightarrow> heartbeat c p ao s | Stopped \<Rightarrow> heartbeat c p ao s)
     (takeWhile (\<lambda>x. x \<noteq> Stopped) es)"
proof -
  have "beat_loop c es = map (\<lambda>x. case x of Tick p ao s \<Rightarrow> heartbeat c p ao s | Stopped \<Rightarrow> heartbeat c p ao s)
      (takeWhile (\<lambda>x. x \<noteq> Stopped) es)"
    by (induction c es rule: beat_loop.induct) simp_all
  then show ?thesis by (simp add: startHeartbeat_def)
qed

end
