(* ===== verification/Spec2Isabelle.thy ===== *)
theory Spec2Isabelle
  imports Gcra Protocol_Laws Decide_Laws Prior_Laws Not_Numbers Subject_Laws Redis_Race Probe Service Store_Race Audit_Threads
    Lifecycle
begin

text \<open>
  A verification development for the counter inspector: a process that gets one message per HTTP
  request, response or frame from a node of a web application firewall, counts in leaky buckets
  what each client takes from the application, and answers with a verdict.

  \<^bold>\<open>The parts and how they meet.\<close>  \<open>cmd/inspector/main.go\<close> loads the configuration, starts a store of
  profiles, connects to the bus and subscribes.  A message is parsed and queued (\<open>handler.receive\<close>,
  \<open>queue.Submit\<close>), a worker takes it and evaluates it (\<open>handler.evaluate\<close>): the profile of the route
  comes from the current snapshot, the asks of earlier inspectors are read, the subjects of the
  request are computed, headers and bodies are fetched from the exchange, what was taken is
  charged to the buckets, and the levels are judged.  The reply goes back with its actions and
  bans, and an event goes to the audit sink.  Beside that the control plane sends manifests of
  profiles, which are written to a data directory and then served.

  \<^bold>\<open>Theories.\<close>
  \<^item> \<open>Prelude\<close>: Go strings as lists of bytes (case folding on ASCII, \<open>TrimSpace\<close> with the spaces of
    Unicode in UTF-8), 64-bit integers, errors, sequences of guards.  \<open>Trim_Laws\<close>: what trimming
    leaves, as the theorems on cookies and on \<open>inspector.conf\<close> need it.  \<open>Float64\<close>: IEEE doubles as rationals with rounding to even,
    infinities and NaN; there is no negative zero, and a product that is added is rounded first.
  \<^item> \<open>Buckets\<close>, \<open>Bucket_Laws\<close>, \<open>Gcra\<close>, \<open>Bucket_Contract\<close>, \<open>Buckets_Redis\<close>: \<open>internal/buckets\<close>, over the
    ledger of the process (\<open>applyLocal\<close>, with its bound and its eviction) and over the pipelines of
    a Redis server (\<open>applyRedis\<close>); the abstract leaky bucket they refine; the interface both keep.
    \<open>Redis_Race\<close>: many processes on one Redis, command by command, with expiring keys and timeouts.
  \<^item> \<open>Protocol\<close>, \<open>Protocol_Laws\<close>: \<open>internal/protocol\<close>, messages, \<open>Parse\<close> and replies.  \<open>Overload\<close>:
    \<open>internal/overload\<close>.
  \<^item> \<open>Counters\<close>, \<open>Profile\<close>, \<open>Profile_Rules\<close>, \<open>Profile_Laws\<close>, \<open>Shipped\<close>: \<open>counters.go\<close> and \<open>profile.go\<close> of
    \<open>internal/config\<close>, every validation in the order of its checks, and the configuration that
    the repository ships as the concrete case.
    \<open>Not_Numbers\<close>: what the validators let through that is not a number, and what it does.
  \<^item> \<open>Profile_Store\<close>: \<open>profiles.go\<close>, snapshots and reloads over what a file system shows.
    \<open>Store_Race\<close>: the goroutine of \<open>Watch\<close> and the one that calls \<open>ReloadFrom\<close>, interleaved at every
    access to the directory, the snapshot, the generation and the files.
  \<^item> \<open>Conf_File\<close>, \<open>Conf_Laws\<close>: \<open>file.go\<close>, the parser of \<open>inspector.conf\<close>, and its grammar.  \<open>Durations\<close>,
    \<open>Settings\<close>, \<open>Settings_Laws\<close>: \<open>config.go\<close> and \<open>logship.go\<close>.
  \<^item> \<open>Measure\<close>, \<open>Decide\<close>, \<open>Decide_Laws\<close>, \<open>Prior\<close>, \<open>Prior_Laws\<close>: \<open>internal/measure\<close> and \<open>internal/decide\<close>.
  \<^item> \<open>Subjects\<close>, \<open>Subject_Laws\<close>: \<open>cmd/inspector/subjects.go\<close>.  \<open>Body\<close>: \<open>internal/body\<close>.
  \<^item> \<open>Queue\<close>, \<open>Queue_Laws\<close>, \<open>Queue_Progress\<close>: \<open>internal/queue\<close>; every critical section of the mutex and every call of the
    handler is one step of a thread, so the laws hold under every interleaving.
  \<^item> \<open>Auditing\<close>: \<open>internal/audit\<close>, events, batches and the sink as additions and turns of a flush.
    \<open>Audit_Threads\<close>: the sink as goroutines, with its wake-up token, its ticker and \<open>Close\<close>; a
    refinement of the sink before.
  \<^item> \<open>Handler\<close>, \<open>Handler_Laws\<close>: \<open>handler.go\<close>, \<open>frame.go\<close> and \<open>lists.go\<close> of \<open>cmd/inspector\<close>.
    \<open>Handler_Buckets\<close>: one call of the store for each evaluation, in every phase.
  \<^item> \<open>Service\<close>: messages, queue, handler and buckets together, under every schedule.
  \<^item> \<open>Desired\<close>, \<open>Desired_Laws\<close>: \<open>internal/desired\<close>, manifests, their application and the watcher.
  \<^item> \<open>Process\<close>: the start of \<open>main.go\<close> and what a started process is.  \<open>Lifecycle\<close>: its whole run, from
    what it opens to the order in which it closes, and the loops beside the workers.  \<open>Probe\<close>: \<open>cmd/probe/main.go\<close>, the health check.

  \<^bold>\<open>Conventions.\<close>  A struct is a record with a short prefix per type, a Go map a partial map or, where
  its order is seen, the list of its entries in the order of one iteration; that order is a
  parameter where it matters.  An error is an \<open>err\<close>, the place and the constant text of its
  message without the values formatted into it; a function that returns one gives a sum or an
  option.  A panic is \<open>None\<close>, or \<open>Panics\<close> for a whole turn of the handler, with the bucket store and
  the list writes as they were by then.  \<open>int\<close> and \<open>int64\<close> are integers with \<open>wrap64\<close> where an operation can
  overflow; a conversion of a double out of the range of \<open>int64\<close> is the one of amd64.  Every
  definition keeps the name it has in the source unless the name was taken: \<open>Load\<close> of the
  configuration is \<open>config_Load\<close>, \<open>Apply\<close> and \<open>Parse\<close> of the desired state are \<open>desired_Apply\<close> and
  \<open>parse_manifest\<close>, \<open>handler.judge\<close>, \<open>measure\<close> and \<open>frame\<close> are \<open>h_judge\<close>, \<open>h_measure\<close> and \<open>h_frame\<close>.

  \<^bold>\<open>Parameters.\<close>  What the sources only call is an argument of the model: the JSON and YAML decoders,
  the compiler and matcher of regular expressions, SHA-256 and AES-GCM, the Redis server, the bus,
  the address resolver, \<open>net/url\<close>, the names of log levels, the clock, the environment and the file
  system.  Theorems that need something of them say so as a hypothesis, and the witness of each
  instantiates it: the working directory is an absolute path, a reply that was encoded decodes to
  its verdict, the digest has no collision on the two inputs that are compared, the decoder fills
  an \<open>int\<close> with 64 bits and a map with distinct keys, the address coder answers, a text has fewer
  than 2^63 matches.

  \<^bold>\<open>Interfaces.\<close>  \<open>bucket_store\<close> is what the handler needs of the buckets, kept by the ledger (\<open>lb\<close>) and by
  the pipeline over a key space (\<open>rb\<close>); \<open>key_store\<close> is what the ledger's loop needs of its map;
  \<open>batch_store\<close> and \<open>redis_laws\<close> are what the loader of bodies needs of its store; \<open>rounding\<close> is what the
  bounds of the buckets need of the rounding of doubles.

  \<^bold>\<open>What the laws show.\<close>
  \<^item> Buckets: levels and fills stay in their bounds for any doubles the validation lets through;
    the ledger keeps its bound of entries; the loop over one shared map gives each bucket its own
    level; runs of whole charges compute the abstract leaky bucket exactly; a Redis pushes a level
    out of its bounds only where it holds a text that is not a number, and processes that share one never see
    less than they charged, though concurrent repairs can lose a charge of another.
  \<^item> Decisions: the judgement is the strongest rule that fired, fuller buckets never weaken it,
    observing records what enforcing would do, and what leaves is well formed.
  \<^item> Queue: the bound, one answer for each message, first in first out, no lost wake-up, and
    whatever the order of their turns the threads come to rest with every message answered.
  \<^item> Audit: every event once and in order up to the counted drops; a full sink is noticed; \<open>Close\<close>
    can always return and has then sent what came before it; nothing leaves the sink afterwards.
  \<^item> Handler: one well-formed reply for each task, addressed to it; a passive mode or phase allows
    or reports the fault of what it could not reach; a store that has started, with a coder that
    answers and the loader of \<open>main.go\<close>, never makes it panic.  Content of the exchange that is
    delivered is the content under the key of its own locator.
  \<^item> Configuration: \<open>Validate\<close> and \<open>Load\<close> establish what the code behind them relies on; the parser is
    its grammar; a reload is all or nothing; the fingerprint tells files apart that stood still
    while they were read; under every interleaving of the two goroutines the served snapshot is
    valid, though not always the newest, which the next undisturbed tick repairs.
  \<^item> Desired state: under any failure of the disk an attempt without an error leaves the whole
    generation live and served, and one with an error leaves the old one served and on the disk;
    while the heartbeat reports \<open>ok\<close> it names the generation that is live; an applied generation
    survives a restart.
  \<^item> Composition: every message that wants a reply gets exactly one, on its subject and with its rid,
    none is ever stuck, every reply that leaves is handed to the sink, which makes an event of it
    exactly where its request was decoded, has an audit subject and encodes, and the ledger stays
    sane for ever over every phase (\<open>Service\<close>); a process that came up is sane as a whole
    (\<open>Process\<close>) and closes only what it opened, what it defers once and in the reverse order
    (\<open>Lifecycle\<close>); the health check passes where the store of buckets answers with a level that
    is not below zero, and fails where it answers with an error (\<open>Probe\<close>).

  \<^bold>\<open>Loops.\<close>  There is no fuel: loops over slices are structural recursion; \<open>cookieFrom\<close>, the digits of
  numbers, the eviction, the batches of the audit and the sum of a duration have measures.  Threads
  do not end: the queue, the sink and the watcher are step relations and reachability.

  \<^bold>\<open>Not modelled.\<close>  Reconnects, the shipping of logs and every log line are input and output; \<open>version.go\<close>
  holds two variables of the linker.  The statistics of the flow library and the creation of
  streams are calls of libraries.  An evaluation is one step of \<open>Service\<close>, at its only call of the
  bucket store; the steps of the pipelines of several processes are in \<open>Redis_Race\<close> only.
  An application of the desired state is one step of its watcher on the disk; its accesses to
  the store of profiles are the steps of \<open>Store_Race\<close>.
\<close>

end
